(* ===== verification/Prelude.thy ===== *)
theory Prelude
  imports Main "HOL-Library.Word" "HOL-Library.AList" "HOL-Library.Code_Target_Nat"
begin

text \<open>
  Shared vocabulary of the development: the machine types the Go code uses, results that
  carry an error value, association lists standing for Go maps, byte strings read in
  network order, and the string helpers of the packages \<^verbatim>\<open>strings\<close>, \<^verbatim>\<open>strconv\<close> and
  \<^verbatim>\<open>encoding/binary\<close> that the components call. The lemmas below are the ones several
  components rely on; each is either a simplification rule or a member of one of the
  collections declared first.
\<close>

named_theorems result_simps \<open>case analysis of error results\<close>
named_theorems bytes_simps \<open>network byte order\<close>
named_theorems golib_simps \<open>the string functions of the Go standard library\<close>

type_synonym byte = "8 word"
type_synonym u16 = "16 word"
type_synonym u32 = "32 word"


section \<open>Results\<close>

text \<open>A Go function that returns \<^verbatim>\<open>(T, error)\<close> becomes a sum: \<open>Inl\<close> is the error.\<close>

fun bind_res :: "'e + 'a \<Rightarrow> ('a \<Rightarrow> 'e + 'b) \<Rightarrow> 'e + 'b" where
  "bind_res (Inl e) f = Inl e"
| "bind_res (Inr x) f = f x"

fun fold_res :: "('x \<Rightarrow> 's \<Rightarrow> 'e + 's) \<Rightarrow> 'x list \<Rightarrow> 's \<Rightarrow> 'e + 's" where
  "fold_res f [] s = Inr s"
| "fold_res f (x # xs) s = bind_res (f x s) (fold_res f xs)"

lemma bind_res_Inr [result_simps]:
  "bind_res r f = Inr y \<longleftrightarrow> (\<exists>x. r = Inr x \<and> f x = Inr y)"
  by (cases r) auto

lemma bind_res_Inl [result_simps]:
  "bind_res r f = Inl e \<longleftrightarrow> r = Inl e \<or> (\<exists>x. r = Inr x \<and> f x = Inl e)"
  by (cases r) auto

lemma bind_res_assoc: "bind_res (bind_res r f) g = bind_res r (\<lambda>x. bind_res (f x) g)"
  by (cases r) auto

lemma bind_res_cong [fundef_cong]:
  "r = r' \<Longrightarrow> (\<And>x. r' = Inr x \<Longrightarrow> f x = f' x) \<Longrightarrow> bind_res r f = bind_res r' f'"
  by (cases r) auto

text \<open>
  A loop that stops at its first error keeps every property its body keeps; this is the
  rule by which the loops of the argument parser are verified.
\<close>

lemma fold_res_invariant:
  assumes "fold_res f xs s = Inr s'" and "P s"
    and "\<And>x s s'. x \<in> set xs \<Longrightarrow> P s \<Longrightarrow> f x s = Inr s' \<Longrightarrow> P s'"
  shows "P s'"
  using assms
proof (induction xs arbitrary: s)
  case Nil
  then show ?case by simp
next
  case (Cons x xs)
  from Cons.prems(1) obtain t where t: "f x s = Inr t" "fold_res f xs t = Inr s'"
    by (auto simp: result_simps)
  have "P t"
    using Cons.prems(2) Cons.prems(3)[OF _ _ t(1)] by simp
  with t(2) show ?case
    using Cons.IH Cons.prems(3) by (meson list.set_intros(2))
qed

lemma fold_res_append:
  "fold_res f (xs @ ys) s = bind_res (fold_res f xs s) (fold_res f ys)"
proof (induction xs arbitrary: s)
  case (Cons x xs)
  then show ?case by (cases "f x s") simp_all
qed simp


section \<open>Association lists as Go maps\<close>

text \<open>
  A Go map is an association list with distinct keys: \<open>map_of m k\<close> is the two-value lookup
  \<^verbatim>\<open>v, ok := m[k]\<close>, \<open>AList.update k v m\<close> the assignment \<^verbatim>\<open>m[k] = v\<close> and
  \<open>AList.delete k m\<close> the builtin \<^verbatim>\<open>delete(m, k)\<close>.
  The list order is the order of first insertion; Go promises no iteration order, so loops
  over a map take the order as an argument where it can be observed.
\<close>

abbreviation has_key :: "('k \<times> 'v) list \<Rightarrow> 'k \<Rightarrow> bool" where
  "has_key m k \<equiv> map_of m k \<noteq> None"

lemma map_of_update [simp]: "map_of (AList.update k v m) = (map_of m)(k \<mapsto> v)"
  by (simp add: update_conv')

lemma map_of_delete [simp]: "map_of (AList.delete k m) = (map_of m)(k := None)"
  by (simp add: delete_conv')

lemma distinct_keys_update [simp]:
  "distinct (map fst m) \<Longrightarrow> distinct (map fst (AList.update k v m))"
  by (rule distinct_update)

lemma distinct_keys_delete [simp]:
  "distinct (map fst m) \<Longrightarrow> distinct (map fst (AList.delete k m))"
  by (rule distinct_delete)

lemma keys_update [simp]: "set (map fst (AList.update k v m)) = insert k (set (map fst m))"
  by (induction m) auto

lemma delete_absent: "map_of m k = None \<Longrightarrow> AList.delete k m = m"
  by (induction m) (auto split: if_splits)

lemma update_not_Nil [simp]: "AList.update k v m \<noteq> []"
  by (cases m) (auto split: prod.splits)


section \<open>Bytes in network order\<close>

definition be_nat :: "byte list \<Rightarrow> nat" where
  "be_nat bs = foldl (\<lambda>v b. v * 256 + unat b) 0 bs"

fun nat_be :: "nat \<Rightarrow> nat \<Rightarrow> byte list" where
  "nat_be 0 v = []"
| "nat_be (Suc n) v = nat_be n (v div 256) @ [of_nat v]"

lemma unat_of_nat_byte [simp]: "unat (of_nat v :: byte) = v mod 256"
  by (simp add: unat_of_nat)

lemma byte_lt_256 [simp]: "unat (b :: byte) < 256"
  using unsigned_less [of b] by simp

lemma be_nat_Nil [simp]: "be_nat [] = 0"
  by (simp add: be_nat_def)

lemma be_nat_snoc [simp]: "be_nat (bs @ [b]) = be_nat bs * 256 + unat b"
  by (simp add: be_nat_def)

lemma be_nat_append: "be_nat (xs @ ys) = be_nat xs * 256 ^ length ys + be_nat ys"
proof (induction ys rule: rev_induct)
  case (snoc y ys)
  have "be_nat (xs @ ys @ [y]) = be_nat (xs @ ys) * 256 + unat y"
    using be_nat_snoc [of "xs @ ys" y] by simp
  with snoc show ?case by (simp add: algebra_simps)
qed simp

lemma be_nat_Cons: "be_nat (x # xs) = unat x * 256 ^ length xs + be_nat xs"
  using be_nat_append [of "[x]" xs] be_nat_snoc [of "[]" x] by simp

lemma length_nat_be [simp]: "length (nat_be n v) = n"
  by (induction n arbitrary: v) auto

lemma be_nat_bound [bytes_simps]: "be_nat bs < 256 ^ length bs"
proof (induction bs rule: rev_induct)
  case Nil
  then show ?case by simp
next
  case (snoc b bs)
  have "be_nat bs * 256 + unat b < (be_nat bs + 1) * 256" by simp
  also have "\<dots> \<le> 256 ^ length bs * 256" using snoc by simp
  finally show ?case by simp
qed

lemma be_nat_nat_be [bytes_simps]: "be_nat (nat_be n v) = v mod 256 ^ n"
proof (induction n arbitrary: v)
  case 0
  then show ?case by simp
next
  case (Suc n)
  have "v mod (256 * 256 ^ n) = 256 * (v div 256 mod 256 ^ n) + v mod 256"
    by (rule mod_mult2_eq)
  with Suc show ?case by simp
qed

lemma nat_be_be_nat [bytes_simps]: "length bs = n \<Longrightarrow> nat_be n (be_nat bs) = bs"
proof (induction bs arbitrary: n rule: rev_induct)
  case Nil
  then show ?case by simp
next
  case (snoc b bs)
  then obtain m where m: "n = Suc m" "length bs = m" by auto
  have "(be_nat bs * 256 + unat b) div 256 = be_nat bs" by simp
  moreover have "(of_nat (be_nat bs * 256 + unat b) :: byte) = b"
    by (rule unsigned_word_eqI [where ?'a = nat])
      (simp del: of_nat_add of_nat_mult add: unat_of_nat)
  ultimately show ?case using snoc.IH[OF m(2)] m(1) by simp
qed

lemma be_nat_inj: "length bs = length cs \<Longrightarrow> be_nat bs = be_nat cs \<longleftrightarrow> bs = cs"
  using nat_be_be_nat by metis

text \<open>\<^verbatim>\<open>binary.BigEndian.Uint16\<close> and \<^verbatim>\<open>PutUint16\<close>, and their 32-bit forms.\<close>

definition Uint16_be :: "byte list \<Rightarrow> u16" where
  "Uint16_be bs = of_nat (be_nat (take 2 bs))"

definition Uint32_be :: "byte list \<Rightarrow> u32" where
  "Uint32_be bs = of_nat (be_nat (take 4 bs))"

definition PutUint16_be :: "u16 \<Rightarrow> byte list" where
  "PutUint16_be v = nat_be 2 (unat v)"

definition PutUint32_be :: "u32 \<Rightarrow> byte list" where
  "PutUint32_be v = nat_be 4 (unat v)"

lemma length_PutUint [simp]:
  "length (PutUint16_be v) = 2" "length (PutUint32_be w) = 4"
  by (simp_all add: PutUint16_be_def PutUint32_be_def)

lemma Uint16_PutUint16 [bytes_simps]: "Uint16_be (PutUint16_be v @ bs) = v"
proof -
  have "unat v < 65536" using unsigned_less [of v, where ?'a = nat] by simp
  then show ?thesis
    by (simp add: Uint16_be_def PutUint16_be_def be_nat_nat_be)
qed

lemma Uint32_PutUint32 [bytes_simps]: "Uint32_be (PutUint32_be v @ bs) = v"
proof -
  have "unat v < 4294967296" using unsigned_less [of v, where ?'a = nat] by simp
  then show ?thesis
    by (simp add: Uint32_be_def PutUint32_be_def be_nat_nat_be)
qed


section \<open>Strings\<close>

text \<open>
  Go strings are byte strings and so is HOL's \<^typ>\<open>string\<close>. \<open>index_byte\<close> is
  \<^verbatim>\<open>strings.IndexByte\<close> with \<open>None\<close> for -1, \<open>last_index_byte\<close> is \<^verbatim>\<open>LastIndexByte\<close>.
\<close>

definition index_byte :: "'a list \<Rightarrow> 'a \<Rightarrow> nat option" where
  "index_byte s c = (if c \<in> set s then Some (length (takeWhile (\<lambda>x. x \<noteq> c) s)) else None)"

definition last_index_byte :: "'a list \<Rightarrow> 'a \<Rightarrow> nat option" where
  "last_index_byte s c =
     (if c \<in> set s then Some (length s - 1 - length (takeWhile (\<lambda>x. x \<noteq> c) (rev s))) else None)"

definition has_prefix :: "'a list \<Rightarrow> 'a list \<Rightarrow> bool" where
  "has_prefix s p \<longleftrightarrow> take (length p) s = p"

definition has_suffix :: "'a list \<Rightarrow> 'a list \<Rightarrow> bool" where
  "has_suffix s p \<longleftrightarrow> has_prefix (rev s) (rev p)"

fun split_byte :: "'a \<Rightarrow> 'a list \<Rightarrow> 'a list list" where
  "split_byte c [] = [[]]"
| "split_byte c (x # xs) =
     (case split_byte c xs of
        [] \<Rightarrow> [[x]]
      | y # ys \<Rightarrow> if x = c then [] # y # ys else (x # y) # ys)"

fun join_byte :: "'a \<Rightarrow> 'a list list \<Rightarrow> 'a list" where
  "join_byte c [] = []"
| "join_byte c [x] = x"
| "join_byte c (x # y # ys) = x @ c # join_byte c (y # ys)"

lemma index_byte_hit [golib_simps]: "c \<notin> set a \<Longrightarrow> index_byte (a @ c # b) c = Some (length a)"
proof -
  assume "c \<notin> set a"
  then have "takeWhile (\<lambda>x. x \<noteq> c) (a @ c # b) = a"
    by (subst takeWhile_append2) auto
  then show ?thesis by (simp add: index_byte_def)
qed

lemma last_index_byte_hit [golib_simps]:
  "c \<notin> set b \<Longrightarrow> last_index_byte (a @ c # b) c = Some (length a)"
proof -
  assume "c \<notin> set b"
  then have "takeWhile (\<lambda>x. x \<noteq> c) (rev b @ c # rev a) = rev b"
    by (subst takeWhile_append2) auto
  then show ?thesis by (simp add: last_index_byte_def)
qed

lemma index_byte_None [golib_simps]: "index_byte s c = None \<longleftrightarrow> c \<notin> set s"
  by (simp add: index_byte_def)

lemma last_index_byte_None [golib_simps]: "last_index_byte s c = None \<longleftrightarrow> c \<notin> set s"
  by (simp add: last_index_byte_def)

lemma has_prefix_append [golib_simps]: "has_prefix (p @ s) p"
  by (simp add: has_prefix_def)

lemma has_prefix_single [golib_simps]: "has_prefix s [c] \<longleftrightarrow> (\<exists>t. s = c # t)"
  by (cases s) (auto simp: has_prefix_def)

lemma has_suffix_single [golib_simps]: "has_suffix s [c] \<longleftrightarrow> (\<exists>t. s = t @ [c])"
  by (cases s rule: rev_cases) (auto simp: has_suffix_def has_prefix_def)

lemma split_byte_nonempty [simp]: "split_byte c s \<noteq> []"
  by (induction s) (auto split: list.splits)

lemma split_byte_none: "c \<notin> set s \<Longrightarrow> split_byte c s = [s]"
  by (induction s) auto

lemma split_byte_append:
  "c \<notin> set a \<Longrightarrow> split_byte c (a @ c # b) = a # split_byte c b"
proof (induction a)
  case Nil
  then show ?case by (auto split: list.splits)
next
  case (Cons x a)
  then show ?case by auto
qed

lemma split_join_byte:
  "xs \<noteq> [] \<Longrightarrow> \<forall>x \<in> set xs. c \<notin> set x \<Longrightarrow> split_byte c (join_byte c xs) = xs"
  by (induction xs rule: join_byte.induct) (auto simp: split_byte_none split_byte_append)


section \<open>Decimal numbers\<close>

definition is_digit :: "char \<Rightarrow> bool" where
  "is_digit c \<longleftrightarrow> (48::nat) \<le> of_char c \<and> (of_char c :: nat) \<le> 57"

definition digit_val :: "char \<Rightarrow> nat" where
  "digit_val c = of_char c - 48"

definition dec_val :: "string \<Rightarrow> nat" where
  "dec_val s = foldl (\<lambda>v c. v * 10 + digit_val c) 0 s"

text \<open>
  \<^verbatim>\<open>strconv.Atoi\<close>: an optional sign, at least one decimal digit and nothing else; \<open>None\<close>
  is the error, returned also when the value does not fit Go's 64-bit \<^verbatim>\<open>int\<close>.
\<close>

definition Atoi :: "string \<Rightarrow> int option" where
  "Atoi s =
     (let neg = (case s of [] \<Rightarrow> False | c # _ \<Rightarrow> c = CHR ''-'');
          ds = (case s of [] \<Rightarrow> [] | c # cs \<Rightarrow> if c = CHR ''-'' \<or> c = CHR ''+'' then cs else s)
      in if ds = [] \<or> \<not> list_all is_digit ds then None
         else let v = (if neg then - int (dec_val ds) else int (dec_val ds))
              in if - (2 ^ 63) \<le> v \<and> v < 2 ^ 63 then Some v else None)"

text \<open>\<^verbatim>\<open>strconv.Itoa\<close> and the verb \<^verbatim>\<open>%d\<close>.\<close>

definition digit_char :: "nat \<Rightarrow> char" where
  "digit_char d = char_of (48 + d)"

fun show_nat :: "nat \<Rightarrow> string" where
  "show_nat n = (if n < 10 then [digit_char n] else show_nat (n div 10) @ [digit_char (n mod 10)])"

declare show_nat.simps [simp del]

definition show_int :: "int \<Rightarrow> string" where
  "show_int i = (if i < 0 then CHR ''-'' # show_nat (nat (- i)) else show_nat (nat i))"

lemma of_char_digit_char [simp]: "d < 10 \<Longrightarrow> (of_char (digit_char d) :: nat) = 48 + d"
  by (simp add: digit_char_def)

lemma is_digit_digit_char [simp]: "d < 10 \<Longrightarrow> is_digit (digit_char d)"
  by (simp add: is_digit_def)

lemma digit_val_digit_char [simp]: "d < 10 \<Longrightarrow> digit_val (digit_char d) = d"
  by (simp add: digit_val_def)

lemma dec_val_snoc [simp]: "dec_val (s @ [c]) = dec_val s * 10 + digit_val c"
  by (simp add: dec_val_def)

lemma dec_val_single [simp]: "dec_val [c] = digit_val c"
  by (simp add: dec_val_def)

lemma show_nat_nonempty [simp]: "show_nat n \<noteq> []"
  by (subst show_nat.simps) simp

lemma show_nat_digits [simp]: "list_all is_digit (show_nat n)"
proof (induction n rule: show_nat.induct)
  case (1 n)
  then show ?case by (subst show_nat.simps) simp
qed

lemma dec_val_show_nat [simp]: "dec_val (show_nat n) = n"
proof (induction n rule: show_nat.induct)
  case (1 n)
  then show ?case by (subst show_nat.simps) simp
qed

lemma show_nat_inject: "show_nat m = show_nat n \<longleftrightarrow> m = n"
  by (metis dec_val_show_nat)

lemma digits_not_sign:
  "list_all is_digit s \<Longrightarrow> s \<noteq> [] \<Longrightarrow> hd s \<noteq> CHR ''-'' \<and> hd s \<noteq> CHR ''+''"
  by (cases s) (auto simp: is_digit_def)

lemma Atoi_digits:
  assumes "list_all is_digit s" "s \<noteq> []" "dec_val s < 2 ^ 63"
  shows "Atoi s = Some (int (dec_val s))"
proof -
  from assms(3) have "int (dec_val s) < 2 ^ 63"
    by (metis of_nat_less_iff of_nat_numeral of_nat_power)
  with assms(1,2) digits_not_sign [OF assms(1,2)] show ?thesis
    by (cases s) (auto simp: Atoi_def Let_def)
qed

lemma Atoi_show_nat [golib_simps]: "n < 2 ^ 63 \<Longrightarrow> Atoi (show_nat n) = Some (int n)"
  using Atoi_digits [of "show_nat n"] by simp

lemma Atoi_range: "Atoi s = Some i \<Longrightarrow> - (2 ^ 63) \<le> i \<and> i < 2 ^ 63"
  by (auto simp: Atoi_def Let_def split: if_splits)

lemma not_digit_in_show_nat [simp]: "\<not> is_digit c \<Longrightarrow> c \<notin> set (show_nat n)"
  using show_nat_digits [of n] by (auto simp: list_all_iff)

lemma is_digit_consts [simp]:
  "\<not> is_digit (CHR '':'')" "\<not> is_digit (CHR ''['')" "\<not> is_digit (CHR '']'')"
  "\<not> is_digit (CHR ''-'')" "\<not> is_digit (CHR ''+'')" "\<not> is_digit (CHR ''.'')"
  "\<not> is_digit (CHR ''S'')" "\<not> is_digit (CHR ''C'')" "\<not> is_digit (CHR ''_'')"
  by (simp_all add: is_digit_def)

end
