(* ===== verification/Netip.thy ===== *)
theory Netip
  imports Prelude
begin

unbundle bit_operations_syntax

text \<open>
  The parts of Go's \<^verbatim>\<open>net/netip\<close> and \<^verbatim>\<open>net\<close> the program uses: addresses, prefixes and
  address-port pairs, their textual forms, and \<^verbatim>\<open>net.SplitHostPort\<close>. These are standard
  library functions, modelled here so that the components above them compute.
\<close>

named_theorems netip_simps \<open>addresses and prefixes\<close>


section \<open>Addresses\<close>

text \<open>
  \<^verbatim>\<open>netip.Addr\<close>: the zero value, an IPv4 address, or an IPv6 address with its zone
  (the empty string when there is none). Go compares these values with \<^verbatim>\<open>==\<close>, which is
  equality of the datatype.
\<close>

datatype addr = AddrZero | AddrV4 "32 word" | AddrV6 "128 word" string

fun Is4 :: "addr \<Rightarrow> bool" where
  "Is4 (AddrV4 _) = True"
| "Is4 _ = False"

fun Is6 :: "addr \<Rightarrow> bool" where
  "Is6 (AddrV6 _ _) = True"
| "Is6 _ = False"

fun Is4In6 :: "addr \<Rightarrow> bool" where
  "Is4In6 (AddrV6 w _) = (drop_bit 32 w = 0xffff)"
| "Is4In6 _ = False"

definition addr_IsValid :: "addr \<Rightarrow> bool" where
  "addr_IsValid a \<longleftrightarrow> a \<noteq> AddrZero"

fun BitLen :: "addr \<Rightarrow> nat" where
  "BitLen AddrZero = 0"
| "BitLen (AddrV4 _) = 32"
| "BitLen (AddrV6 _ _) = 128"

fun addr_Zone :: "addr \<Rightarrow> string" where
  "addr_Zone (AddrV6 _ z) = z"
| "addr_Zone _ = []"

fun WithZone :: "addr \<Rightarrow> string \<Rightarrow> addr" where
  "WithZone (AddrV6 w _) z = AddrV6 w z"
| "WithZone a z = a"

definition Unmap :: "addr \<Rightarrow> addr" where
  "Unmap a = (case a of AddrV6 w z \<Rightarrow> if Is4In6 a then AddrV4 (ucast w) else a | _ \<Rightarrow> a)"

text \<open>Addresses from and to bytes in network order.\<close>

definition AddrFrom4 :: "byte list \<Rightarrow> addr" where
  "AddrFrom4 bs = AddrV4 (of_nat (be_nat bs))"

definition AddrFrom16 :: "byte list \<Rightarrow> addr" where
  "AddrFrom16 bs = AddrV6 (of_nat (be_nat bs)) []"

definition AddrFromSlice :: "byte list \<Rightarrow> addr option" where
  "AddrFromSlice bs =
     (if length bs = 4 then Some (AddrFrom4 bs)
      else if length bs = 16 then Some (AddrFrom16 bs) else None)"

fun As4_bytes :: "addr \<Rightarrow> byte list" where
  "As4_bytes (AddrV4 w) = nat_be 4 (unat w)"
| "As4_bytes _ = []"

text \<open>\<^verbatim>\<open>Addr.As16\<close> gives an IPv4 address in its IPv4-mapped form and forgets the zone.\<close>

fun As16 :: "addr \<Rightarrow> 128 word" where
  "As16 AddrZero = 0"
| "As16 (AddrV4 w) = 0xffff00000000 OR ucast w"
| "As16 (AddrV6 w _) = w"

definition As16_bytes :: "addr \<Rightarrow> byte list" where
  "As16_bytes a = nat_be 16 (unat (As16 a))"

fun IsMulticast :: "addr \<Rightarrow> bool" where
  "IsMulticast AddrZero = False"
| "IsMulticast (AddrV4 w) = (drop_bit 28 w = 0xe)"
| "IsMulticast (AddrV6 w z) =
     (if Is4In6 (AddrV6 w z) then drop_bit 28 (ucast w :: 32 word) = 0xe else drop_bit 120 w = 0xff)"

fun IsLinkLocalUnicast :: "addr \<Rightarrow> bool" where
  "IsLinkLocalUnicast AddrZero = False"
| "IsLinkLocalUnicast (AddrV4 w) = (drop_bit 16 w = 0xa9fe)"
| "IsLinkLocalUnicast (AddrV6 w z) =
     (if Is4In6 (AddrV6 w z) then drop_bit 16 (ucast w :: 32 word) = 0xa9fe
      else drop_bit 118 w = 0x3fa)"

lemma Is4_Is6_disjoint [simp]: "Is4 a \<Longrightarrow> \<not> Is6 a"
  by (cases a) auto

lemma Is4_or_Is6 [netip_simps]: "addr_IsValid a \<longleftrightarrow> Is4 a \<or> Is6 a"
  by (cases a) (auto simp: addr_IsValid_def)

lemma Is4_Unmap [simp]: "Is4 a \<Longrightarrow> Unmap a = a"
  by (cases a) (auto simp: Unmap_def)

lemma Unmap_idem [simp]: "Unmap (Unmap a) = Unmap a"
  by (cases a) (auto simp: Unmap_def)

lemma AddrFromSlice_4 [netip_simps]: "length bs = 4 \<Longrightarrow> AddrFromSlice bs = Some (AddrFrom4 bs)"
  and AddrFromSlice_16 [netip_simps]: "length bs = 16 \<Longrightarrow> AddrFromSlice bs = Some (AddrFrom16 bs)"
  by (simp_all add: AddrFromSlice_def)

lemma AddrFrom4_As4 [netip_simps]: "Is4 a \<Longrightarrow> AddrFrom4 (As4_bytes a) = a"
proof (cases a)
  case (AddrV4 w)
  have "unat w < 256 ^ 4" using unsigned_less [of w, where ?'a = nat] by simp
  with AddrV4 show ?thesis by (simp add: AddrFrom4_def be_nat_nat_be del: nat_be.simps)
qed auto

lemma unat_of_be_nat:
  "length bs = 4 \<Longrightarrow> unat (of_nat (be_nat bs) :: 32 word) = be_nat bs"
  "length bs = 16 \<Longrightarrow> unat (of_nat (be_nat bs) :: 128 word) = be_nat bs"
  using be_nat_bound [of bs] by (simp_all add: unat_of_nat)

lemma As4_AddrFrom4 [netip_simps]: "length bs = 4 \<Longrightarrow> As4_bytes (AddrFrom4 bs) = bs"
  by (simp add: AddrFrom4_def unat_of_be_nat nat_be_be_nat del: nat_be.simps)

lemma As16_AddrFrom16 [netip_simps]: "length bs = 16 \<Longrightarrow> As16_bytes (AddrFrom16 bs) = bs"
  by (simp add: AddrFrom16_def As16_bytes_def unat_of_be_nat nat_be_be_nat del: nat_be.simps)

lemma AddrFrom16_As16 [netip_simps]: "AddrFrom16 (As16_bytes (AddrV6 w z)) = AddrV6 w []"
proof -
  have "unat w < 256 ^ 16" using unsigned_less [of w, where ?'a = nat] by simp
  then show ?thesis by (simp add: AddrFrom16_def As16_bytes_def be_nat_nat_be del: nat_be.simps)
qed

lemma length_As_bytes [simp]: "Is4 a \<Longrightarrow> length (As4_bytes a) = 4" "length (As16_bytes a) = 16"
  by (cases a) (simp_all add: As16_bytes_def del: nat_be.simps)


section \<open>Prefixes\<close>

text \<open>
  \<^verbatim>\<open>netip.Prefix\<close>: an address without zone and a length, -1 for an invalid prefix.
  \<^verbatim>\<open>PrefixFrom\<close> masks nothing, so host bits may be set.
\<close>

datatype prefix = Prefix (pfx_Addr: addr) (pfx_Bits: int)

definition PrefixFrom :: "addr \<Rightarrow> int \<Rightarrow> prefix" where
  "PrefixFrom ip bits =
     Prefix (WithZone ip []) (if ip \<noteq> AddrZero \<and> 0 \<le> bits \<and> bits \<le> int (BitLen ip) then bits else - 1)"

definition pfx_IsValid :: "prefix \<Rightarrow> bool" where
  "pfx_IsValid p \<longleftrightarrow> 0 \<le> pfx_Bits p"

definition IsSingleIP :: "prefix \<Rightarrow> bool" where
  "IsSingleIP p \<longleftrightarrow> pfx_IsValid p \<and> pfx_Bits p = int (BitLen (pfx_Addr p))"

fun prefix_covers :: "addr \<Rightarrow> nat \<Rightarrow> addr \<Rightarrow> bool" where
  "prefix_covers (AddrV4 p) n (AddrV4 a) = (drop_bit (32 - n) (a XOR p) = 0)"
| "prefix_covers (AddrV6 p _) n (AddrV6 a _) = (drop_bit (128 - n) (a XOR p) = 0)"
| "prefix_covers _ n _ = False"

definition pfx_Contains :: "prefix \<Rightarrow> addr \<Rightarrow> bool" where
  "pfx_Contains p ip \<longleftrightarrow>
     pfx_IsValid p \<and> addr_Zone ip = [] \<and> prefix_covers (pfx_Addr p) (nat (pfx_Bits p)) ip"

text \<open>\<^verbatim>\<open>Prefix.Masked\<close>: the same prefix with every bit beyond its length cleared.\<close>

fun mask_addr :: "addr \<Rightarrow> nat \<Rightarrow> addr" where
  "mask_addr (AddrV4 w) n = AddrV4 (push_bit (32 - n) (drop_bit (32 - n) w))"
| "mask_addr (AddrV6 w z) n = AddrV6 (push_bit (128 - n) (drop_bit (128 - n) w)) []"
| "mask_addr AddrZero n = AddrZero"

definition Masked :: "prefix \<Rightarrow> prefix" where
  "Masked p = (if pfx_IsValid p then PrefixFrom (mask_addr (pfx_Addr p) (nat (pfx_Bits p))) (pfx_Bits p)
               else Prefix AddrZero (- 1))"

text \<open>
  What every caller of \<^verbatim>\<open>PrefixFrom\<close> and \<^verbatim>\<open>ParsePrefix\<close> gets: a length that fits the
  family and no zone.
\<close>

definition wf_prefix :: "prefix \<Rightarrow> bool" where
  "wf_prefix p \<longleftrightarrow>
     addr_Zone (pfx_Addr p) = [] \<and> - 1 \<le> pfx_Bits p \<and> pfx_Bits p \<le> int (BitLen (pfx_Addr p)) \<and>
     (pfx_Addr p = AddrZero \<longrightarrow> pfx_Bits p = - 1)"

lemma wf_PrefixFrom [simp]: "wf_prefix (PrefixFrom ip bits)"
  by (cases ip) (auto simp: wf_prefix_def PrefixFrom_def)

lemma pfx_Addr_PrefixFrom [netip_simps]: "pfx_Addr (PrefixFrom ip bits) = WithZone ip []"
  by (simp add: PrefixFrom_def)

lemma xor_eq_0 [simp]: "a XOR b = 0 \<longleftrightarrow> a = (b :: 'a::len word)"
  by (simp add: bit_eq_iff bit_xor_iff)

text \<open>Membership is agreement on the leading bits, and only within one address family.\<close>

lemma pfx_Contains_family:
  "pfx_Contains p ip \<Longrightarrow> BitLen (pfx_Addr p) = BitLen ip \<and> ip \<noteq> AddrZero"
  by (cases "pfx_Addr p"; cases ip) (auto simp: pfx_Contains_def)

lemma pfx_Contains_V4 [netip_simps]:
  "pfx_Contains (Prefix (AddrV4 p) n) (AddrV4 a) \<longleftrightarrow>
     0 \<le> n \<and> drop_bit (32 - nat n) a = drop_bit (32 - nat n) p"
  by (simp add: pfx_Contains_def pfx_IsValid_def)

lemma pfx_Contains_V6 [netip_simps]:
  "pfx_Contains (Prefix (AddrV6 p []) n) (AddrV6 a []) \<longleftrightarrow>
     0 \<le> n \<and> drop_bit (128 - nat n) a = drop_bit (128 - nat n) p"
  by (simp add: pfx_Contains_def pfx_IsValid_def)

lemma pfx_Contains_zone: "addr_Zone ip \<noteq> [] \<Longrightarrow> \<not> pfx_Contains p ip"
  by (simp add: pfx_Contains_def)

text \<open>A single-address prefix contains exactly its own address.\<close>

lemma pfx_Contains_single:
  assumes "IsSingleIP p" and "wf_prefix p"
  shows "pfx_Contains p ip \<longleftrightarrow> ip = pfx_Addr p"
proof (cases p)
  case (Prefix a n)
  show ?thesis
  proof (cases a)
    case AddrZero
    with assms Prefix show ?thesis by (simp add: IsSingleIP_def pfx_IsValid_def wf_prefix_def)
  next
    case (AddrV4 w)
    with assms(1) Prefix have n: "n = 32" by (simp add: IsSingleIP_def)
    show ?thesis
      by (cases ip) (auto simp: Prefix AddrV4 n pfx_Contains_def pfx_IsValid_def)
  next
    case (AddrV6 w z)
    with assms Prefix have n: "n = 128" and z: "z = []"
      by (auto simp: IsSingleIP_def wf_prefix_def)
    show ?thesis
      by (cases ip) (auto simp: Prefix AddrV6 n z pfx_Contains_def pfx_IsValid_def)
  qed
qed

text \<open>The zero-length prefix of a family contains every address of it (without zone).\<close>

lemma pfx_Contains_all4 [simp]: "pfx_Contains (PrefixFrom (AddrV4 w) 0) ip \<longleftrightarrow> Is4 ip"
proof (cases ip)
  case (AddrV4 a)
  have "drop_bit 32 (x :: 32 word) = 0" for x
    by (rule bit_word_eqI) (simp add: bit_drop_bit_eq bit_imp_le_length)
  then show ?thesis by (simp add: AddrV4 PrefixFrom_def pfx_Contains_V4)
qed (auto simp: PrefixFrom_def pfx_Contains_def)

lemma pfx_Contains_all6 [simp]:
  "pfx_Contains (PrefixFrom (AddrV6 w z) 0) ip \<longleftrightarrow> Is6 ip \<and> addr_Zone ip = []"
proof (cases ip)
  case (AddrV6 a y)
  have "drop_bit 128 (x :: 128 word) = 0" for x
    by (rule bit_word_eqI) (simp add: bit_drop_bit_eq bit_imp_le_length)
  then show ?thesis by (simp add: AddrV6 PrefixFrom_def pfx_Contains_def pfx_IsValid_def)
qed (auto simp: PrefixFrom_def pfx_Contains_def)


section \<open>Address and port\<close>

datatype addrport = AddrPort (ap_Addr: addr) (ap_Port: u16)

abbreviation AddrPortFrom :: "addr \<Rightarrow> u16 \<Rightarrow> addrport" where
  "AddrPortFrom \<equiv> AddrPort"


section \<open>Parsing addresses\<close>

text \<open>
  \<^verbatim>\<open>parseIPv4Fields\<close>: four decimal fields without leading zeros, each at most 255. The
  arguments are the rest of the input, the value and the number of digits of the current
  field, and the fields already read.
\<close>

fun parseIPv4Fields :: "string \<Rightarrow> nat \<Rightarrow> nat \<Rightarrow> byte list \<Rightarrow> byte list option" where
  "parseIPv4Fields [] val digLen fields =
     (if length fields < 3 then None else Some (fields @ [of_nat val]))"
| "parseIPv4Fields (c # cs) val digLen fields =
     (if is_digit c then
        if digLen = 1 \<and> val = 0 then None
        else let val' = val * 10 + digit_val c
             in if val' > 255 then None else parseIPv4Fields cs val' (digLen + 1) fields
      else if c = CHR ''.'' then
        if digLen = 0 \<or> cs = [] then None
        else if length fields = 3 then None
        else parseIPv4Fields cs 0 0 (fields @ [of_nat val])
      else None)"

definition parseIPv4 :: "string \<Rightarrow> addr option" where
  "parseIPv4 s = map_option AddrFrom4 (parseIPv4Fields s 0 0 [])"

definition hex_digit :: "char \<Rightarrow> nat option" where
  "hex_digit c =
     (let v = (of_char c :: nat)
      in if 48 \<le> v \<and> v \<le> 57 then Some (v - 48)
         else if 97 \<le> v \<and> v \<le> 102 then Some (v - 87)
         else if 65 \<le> v \<and> v \<le> 70 then Some (v - 55) else None)"

definition hex_val :: "string \<Rightarrow> nat" where
  "hex_val s = foldl (\<lambda>v c. v * 16 + (case hex_digit c of None \<Rightarrow> 0 | Some d \<Rightarrow> d)) 0 s"

text \<open>
  The loop of \<^verbatim>\<open>parseIPv6\<close>: the rest of the input, the bytes read so far and the position
  of the ellipsis. It returns when 16 bytes are read or the input ends; \<open>None\<close> is an error.
\<close>

function (sequential) parseIPv6_loop ::
    "string \<Rightarrow> byte list \<Rightarrow> nat option \<Rightarrow> (string \<times> byte list \<times> nat option) option" where
  "parseIPv6_loop s ip ellipsis =
     (if 16 \<le> length ip then Some (s, ip, ellipsis)
      else let hs = takeWhile (\<lambda>c. hex_digit c \<noteq> None) s; off = length hs
           in if 4 < off \<or> off = 0 then None
              else if off < length s \<and> s ! off = CHR ''.'' then
                if ellipsis = None \<and> length ip \<noteq> 12 then None
                else if 16 < length ip + 4 then None
                else (case parseIPv4Fields s 0 0 [] of
                        None \<Rightarrow> None
                      | Some fs \<Rightarrow> Some ([], ip @ fs, ellipsis))
              else let ip' = ip @ nat_be 2 (hex_val hs); s' = drop off s
                   in (case s' of
                         [] \<Rightarrow> Some ([], ip', ellipsis)
                       | c # s'' \<Rightarrow>
                           if c \<noteq> CHR '':'' \<or> s'' = [] then None
                           else if hd s'' = CHR '':'' then
                             if ellipsis \<noteq> None then None
                             else if tl s'' = [] then Some ([], ip', Some (length ip'))
                             else parseIPv6_loop (tl s'') ip' (Some (length ip'))
                           else parseIPv6_loop s'' ip' ellipsis))"
  by pat_completeness auto
termination
  by (relation "measure (\<lambda>(s, ip, e). 16 - length ip)") auto

declare parseIPv6_loop.simps [simp del]

definition parseIPv6 :: "string \<Rightarrow> addr option" where
  "parseIPv6 s0 =
     (let (s, zone, ok) =
        (case index_byte s0 (CHR ''%'') of
           None \<Rightarrow> (s0, [], True)
         | Some i \<Rightarrow> (take i s0, drop (i + 1) s0, drop (i + 1) s0 \<noteq> []))
      in if \<not> ok then None
         else let (s, ellipsis) =
                (if has_prefix s ''::'' then (drop 2 s, Some 0) else (s, None :: nat option))
              in if ellipsis = Some 0 \<and> s = [] then Some (AddrV6 0 zone)
                 else (case parseIPv6_loop s [] ellipsis of
                         None \<Rightarrow> None
                       | Some (s, ip, ellipsis) \<Rightarrow>
                           if s \<noteq> [] then None
                           else if length ip < 16 then
                             (case ellipsis of
                                None \<Rightarrow> None
                              | Some e \<Rightarrow>
                                  Some (WithZone (AddrFrom16 (take e ip @ replicate (16 - length ip) 0
                                          @ drop e ip)) zone))
                           else if ellipsis \<noteq> None then None
                           else Some (WithZone (AddrFrom16 ip) zone)))"

text \<open>\<^verbatim>\<open>netip.ParseAddr\<close> looks for the first of the three characters that tell the forms apart.\<close>

fun first_of :: "char list \<Rightarrow> string \<Rightarrow> char option" where
  "first_of cs [] = None"
| "first_of cs (x # xs) = (if x \<in> set cs then Some x else first_of cs xs)"

definition ParseAddr :: "string \<Rightarrow> addr option" where
  "ParseAddr s =
     (case first_of ''.:%'' s of
        None \<Rightarrow> None
      | Some c \<Rightarrow> if c = CHR ''.'' then parseIPv4 s else if c = CHR '':'' then parseIPv6 s else None)"

definition ParsePrefix :: "string \<Rightarrow> prefix option" where
  "ParsePrefix s =
     (case last_index_byte s (CHR ''/'') of
        None \<Rightarrow> None
      | Some i \<Rightarrow>
          (case ParseAddr (take i s) of
             None \<Rightarrow> None
           | Some ip \<Rightarrow>
               if addr_Zone ip \<noteq> [] then None
               else let bitsStr = drop (i + 1) s
                    in if 1 < length bitsStr \<and> \<not> (CHR ''0'' \<noteq> hd bitsStr \<and> is_digit (hd bitsStr)) then None
                       else (case Atoi bitsStr of
                               None \<Rightarrow> None
                             | Some bits \<Rightarrow>
                                 if bits < 0 \<or> int (BitLen ip) < bits then None
                                 else Some (PrefixFrom ip bits))))"

lemma wf_ParsePrefix: "ParsePrefix s = Some p \<Longrightarrow> wf_prefix p"
  by (auto simp: ParsePrefix_def Let_def split: option.splits if_splits)

lemma parseIPv6_is6: "parseIPv6 s = Some a \<Longrightarrow> Is6 a"
  by (auto simp: parseIPv6_def Let_def AddrFrom16_def split: option.splits if_splits prod.splits)

lemma parseIPv4_is4: "parseIPv4 s = Some a \<Longrightarrow> Is4 a"
  by (auto simp: parseIPv4_def AddrFrom4_def)

lemma ParseAddr_valid: "ParseAddr s = Some a \<Longrightarrow> Is4 a \<or> Is6 a"
  by (auto simp: ParseAddr_def dest: parseIPv4_is4 parseIPv6_is6 split: option.splits if_splits)

text \<open>A text that names an IPv4 or IPv6 address never starts with a bracket.\<close>

lemma first_of_mem: "first_of cs s = Some c \<Longrightarrow> c \<in> set cs"
  by (induction s) (auto split: if_splits)

lemma parseIPv4Fields_bracket: "\<not> is_digit c \<Longrightarrow> c \<noteq> CHR ''.'' \<Longrightarrow> parseIPv4Fields (c # s) v d fs = None"
  by simp

lemma ParseAddr_bracket [netip_simps]: "ParseAddr (CHR ''['' # s) = None"
proof -
  have "parseIPv4 (CHR ''['' # s) = None"
    by (simp add: parseIPv4_def)
  moreover have "parseIPv6 (CHR ''['' # s) = None"
  proof -
    have "parseIPv6_loop (CHR ''['' # t) [] e = None" for t e
      by (simp add: parseIPv6_loop.simps [of "CHR ''['' # t" "[]" e] hex_digit_def)
    moreover have "\<exists>t. fst (case index_byte (CHR ''['' # s) (CHR ''%'') of
           None \<Rightarrow> (CHR ''['' # s, [], True)
         | Some i \<Rightarrow> (take i (CHR ''['' # s), drop (i + 1) (CHR ''['' # s),
                      drop (i + 1) (CHR ''['' # s) \<noteq> [])) = CHR ''['' # t"
      by (auto simp: index_byte_def)
    ultimately show ?thesis
      by (auto simp: parseIPv6_def Let_def has_prefix_def index_byte_def)
  qed
  ultimately show ?thesis
    by (auto simp: ParseAddr_def split: option.splits)
qed


section \<open>Printing addresses\<close>

definition show_v4 :: "32 word \<Rightarrow> string" where
  "show_v4 w = join_byte (CHR ''.'') (map (\<lambda>b. show_nat (unat b)) (nat_be 4 (unat w)))"

definition hex_char :: "nat \<Rightarrow> char" where
  "hex_char d = (if d < 10 then char_of (48 + d) else char_of (87 + d))"

fun show_hex :: "nat \<Rightarrow> string" where
  "show_hex n = (if n < 16 then [hex_char n] else show_hex (n div 16) @ [hex_char (n mod 16)])"

declare show_hex.simps [simp del]

text \<open>The eight 16-bit groups, and the first longest run of at least two zero groups.\<close>

definition v6_groups :: "128 word \<Rightarrow> nat list" where
  "v6_groups w = map (\<lambda>i. unat (drop_bit (112 - 16 * i) w) mod 65536) [0..<8]"

definition zero_run :: "nat list \<Rightarrow> nat \<times> nat" where
  "zero_run gs =
     foldl (\<lambda>(st, len) i. let l = length (takeWhile (\<lambda>g. g = 0) (drop i gs))
                          in if 2 \<le> l \<and> len < l then (i, l) else (st, len))
       (0, 0) [0..<length gs]"

definition show_v6 :: "128 word \<Rightarrow> string" where
  "show_v6 w =
     (let gs = v6_groups w; (st, len) = zero_run gs
      in if len = 0 then join_byte (CHR '':'') (map show_hex gs)
         else join_byte (CHR '':'') (map show_hex (take st gs)) @ ''::''
              @ join_byte (CHR '':'') (map show_hex (drop (st + len) gs)))"

text \<open>
  \<^verbatim>\<open>net.ParseIP\<close> gives the 16-byte form of an address without zone, and \<^verbatim>\<open>net.IP.String\<close>
  prints an IPv4-mapped value in dotted form; \<open>ip_To4\<close> is \<^verbatim>\<open>IP.To4\<close> on that form.
\<close>

definition net_ParseIP :: "string \<Rightarrow> 128 word option" where
  "net_ParseIP s =
     (case ParseAddr s of
        None \<Rightarrow> None
      | Some a \<Rightarrow> if addr_Zone a \<noteq> [] then None else Some (As16 a))"

definition ip_To4 :: "128 word \<Rightarrow> 32 word option" where
  "ip_To4 w = (if drop_bit 32 w = 0xffff then Some (ucast w) else None)"

definition ip_String :: "128 word \<Rightarrow> string" where
  "ip_String w = (case ip_To4 w of Some v \<Rightarrow> show_v4 v | None \<Rightarrow> show_v6 w)"


section \<open>Host and port\<close>

text \<open>\<^verbatim>\<open>net.SplitHostPort\<close>; \<open>None\<close> stands for each of its errors.\<close>

definition SplitHostPort :: "string \<Rightarrow> (string \<times> string) option" where
  "SplitHostPort hp =
     (case last_index_byte hp (CHR '':'') of
        None \<Rightarrow> None
      | Some i \<Rightarrow>
          if has_prefix hp ''['' then
            (case index_byte hp (CHR '']'') of
               None \<Rightarrow> None
             | Some e \<Rightarrow>
                 if e + 1 = length hp then None
                 else if e + 1 \<noteq> i then None
                 else if CHR ''['' \<in> set (drop 1 hp) \<or> CHR '']'' \<in> set (drop (e + 1) hp) then None
                 else Some (take (e - 1) (drop 1 hp), drop (i + 1) hp))
          else if CHR '':'' \<in> set (take i hp) then None
          else if CHR ''['' \<in> set hp \<or> CHR '']'' \<in> set hp then None
          else Some (take i hp, drop (i + 1) hp))"

lemma SplitHostPort_plain [golib_simps]:
  assumes "CHR '':'' \<notin> set h" "CHR ''['' \<notin> set h" "CHR '']'' \<notin> set h"
    and "CHR '':'' \<notin> set p" "CHR ''['' \<notin> set p" "CHR '']'' \<notin> set p"
  shows "SplitHostPort (h @ CHR '':'' # p) = Some (h, p)"
proof -
  have "\<not> has_prefix (h @ CHR '':'' # p) ''[''"
    using assms(2) by (cases h) (auto simp: has_prefix_def)
  with assms show ?thesis
    by (simp add: SplitHostPort_def last_index_byte_hit)
qed

lemma SplitHostPort_bracket [golib_simps]:
  assumes "CHR ''['' \<notin> set h" "CHR '']'' \<notin> set h"
    and "CHR '':'' \<notin> set p" "CHR ''['' \<notin> set p" "CHR '']'' \<notin> set p"
  shows "SplitHostPort (''['' @ h @ '']:'' @ p) = Some (h, p)"
proof -
  let ?s = "''['' @ h @ '']:'' @ p"
  have "last_index_byte ((''['' @ h @ '']'') @ CHR '':'' # p) (CHR '':'') = Some (length (''['' @ h @ '']''))"
    by (rule last_index_byte_hit) (use assms in simp)
  then have i: "last_index_byte ?s (CHR '':'') = Some (length h + 2)" by simp
  have "index_byte ((''['' @ h) @ CHR '']'' # '':'' @ p) (CHR '']'') = Some (length (''['' @ h))"
    by (rule index_byte_hit) (use assms in simp)
  then have e: "index_byte ?s (CHR '']'') = Some (length h + 1)" by simp
  from assms show ?thesis
    by (simp add: SplitHostPort_def i [simplified] e [simplified] has_prefix_def)
qed

lemma SplitHostPort_no_colon [golib_simps]: "CHR '':'' \<notin> set s \<Longrightarrow> SplitHostPort s = None"
  by (simp add: SplitHostPort_def last_index_byte_def)

text \<open>What a successful split says: the parts contain no bracket and the port no colon.\<close>

lemma SplitHostPort_shape:
  assumes "SplitHostPort s = Some (h, p)"
  shows "s = h @ CHR '':'' # p \<and> CHR '':'' \<notin> set h \<or> s = ''['' @ h @ '']:'' @ p"
proof -
  from assms obtain i where i: "last_index_byte s (CHR '':'') = Some i"
    by (auto simp: SplitHostPort_def split: option.splits)
  then have c: "CHR '':'' \<in> set s" by (auto simp: last_index_byte_def split: if_splits)
  then obtain a b where ab: "s = a @ CHR '':'' # b" "CHR '':'' \<notin> set b"
    by (meson split_list_last)
  with i have ia: "i = length a" by (simp add: last_index_byte_hit)
  show ?thesis
  proof (cases "has_prefix s ''[''")
    case False
    with assms i show ?thesis by (auto simp: SplitHostPort_def ab ia split: if_splits)
  next
    case True
    with assms i obtain e where e: "index_byte s (CHR '']'') = Some e" "e + 1 = i"
      and h: "h = take (e - 1) (drop 1 s)" and p: "p = drop (i + 1) s"
      by (auto simp: SplitHostPort_def split: option.splits if_splits)
    from e(1) obtain x y where xy: "s = x @ CHR '']'' # y" "CHR '']'' \<notin> set x"
      by (metis index_byte_None not_None_eq split_list_first)
    with e(1) have ex: "e = length x" by (simp add: index_byte_hit)
    have "s = take (Suc e) s @ drop (Suc e) s" by simp
    moreover have "drop (Suc e) s = CHR '':'' # b" using ab ia e(2) by simp
    moreover have "take (Suc e) s = x @ '']''" using xy ex by simp
    ultimately have s: "s = x @ '']:'' @ b" by simp
    with True have "x \<noteq> []" by (auto simp: has_prefix_def)
    with True s obtain x' where x': "x = CHR ''['' # x'"
      by (cases x) (auto simp: has_prefix_def)
    have "h = x'" using h s x' ex by simp
    moreover have "p = b" using p ab ia by simp
    ultimately show ?thesis using s x' by simp
  qed
qed

end
