(* ===== verification/Tsaddr.thy ===== *)
theory Tsaddr
  imports Netip
begin

text \<open>
  The address ranges Tailscale assigns from and the translations between them:
  \<^verbatim>\<open>net/tsaddr/tsaddr.go\<close> and \<^verbatim>\<open>net/netaddr/netaddr.go\<close>. A range the source parses from a
  literal once and caches is a constant here; \<open>range_literals\<close> checks each constant
  against the literal.
\<close>

named_theorems tsaddr_simps \<open>the Tailscale ranges\<close>


section \<open>Ranges\<close>

definition IPv4 :: "byte \<Rightarrow> byte \<Rightarrow> byte \<Rightarrow> byte \<Rightarrow> addr" where
  "IPv4 a b c d = AddrFrom4 [a, b, c, d]"

definition ap_Unmap :: "addrport \<Rightarrow> addrport" where
  "ap_Unmap ap = AddrPortFrom (Unmap (ap_Addr ap)) (ap_Port ap)"

definition ChromeOSVMRange :: prefix where
  "ChromeOSVMRange = PrefixFrom (AddrV4 0x64735c00) 23"

definition CGNATRange :: prefix where
  "CGNATRange = PrefixFrom (AddrV4 0x64400000) 10"

definition TailscaleServiceIP :: addr where
  "TailscaleServiceIP = IPv4 100 100 100 100"

definition TailscaleServiceIPv6 :: addr where
  "TailscaleServiceIPv6 = AddrV6 0xfd7a115ca1e000000000000000000053 []"

definition TailscaleULARange :: prefix where
  "TailscaleULARange = PrefixFrom (AddrV6 0xfd7a115ca1e000000000000000000000 []) 48"

definition TailscaleViaRange :: prefix where
  "TailscaleViaRange = PrefixFrom (AddrV6 0xfd7a115ca1e00b1a0000000000000000 []) 64"

definition Tailscale4To6Range :: prefix where
  "Tailscale4To6Range = PrefixFrom (AddrV6 0xfd7a115ca1e0ab124843cd9662000000 []) 104"

definition TailscaleEphemeral6Range :: prefix where
  "TailscaleEphemeral6Range = PrefixFrom (AddrV6 0xfd7a115ca1e0efe30000000000000000 []) 64"

definition allIPv4 :: prefix where
  "allIPv4 = PrefixFrom (AddrV4 0) 0"

definition allIPv6 :: prefix where
  "allIPv6 = PrefixFrom (AddrV6 0 []) 0"

lemma range_literals:
  "ParsePrefix ''100.115.92.0/23'' = Some ChromeOSVMRange"
  "ParsePrefix ''100.64.0.0/10'' = Some CGNATRange"
  "ParsePrefix ''fd7a:115c:a1e0::/48'' = Some TailscaleULARange"
  "ParsePrefix ''fd7a:115c:a1e0:b1a::/64'' = Some TailscaleViaRange"
  "ParsePrefix ''fd7a:115c:a1e0:ab12:4843:cd96:6200::/104'' = Some Tailscale4To6Range"
  "ParsePrefix ''fd7a:115c:a1e0:efe3::/64'' = Some TailscaleEphemeral6Range"
  "ParseAddr ''fd7a:115c:a1e0::53'' = Some TailscaleServiceIPv6"
  by code_simp+

definition IsTailscaleIPv4 :: "addr \<Rightarrow> bool" where
  "IsTailscaleIPv4 ip \<longleftrightarrow> pfx_Contains CGNATRange ip \<and> \<not> pfx_Contains ChromeOSVMRange ip"

definition IsTailscaleIP :: "addr \<Rightarrow> bool" where
  "IsTailscaleIP ip \<longleftrightarrow> (if Is4 ip then IsTailscaleIPv4 ip else pfx_Contains TailscaleULARange ip)"


section \<open>Translations\<close>

definition Tailscale4To6Placeholder :: addr where
  "Tailscale4To6Placeholder = pfx_Addr Tailscale4To6Range"

definition Tailscale4To6 :: "addr \<Rightarrow> addr" where
  "Tailscale4To6 ipv4 =
     (if \<not> Is4 ipv4 \<or> \<not> IsTailscaleIP ipv4 then AddrZero
      else AddrFrom16 (take 13 (As16_bytes (pfx_Addr Tailscale4To6Range)) @ drop 1 (As4_bytes ipv4)))"

definition Tailscale6to4 :: "addr \<Rightarrow> addr option" where
  "Tailscale6to4 ipv6 =
     (if \<not> Is6 ipv6 \<or> \<not> pfx_Contains Tailscale4To6Range ipv6 then None
      else let v6 = As16_bytes ipv6 in Some (AddrFrom4 [100, v6 ! 13, v6 ! 14, v6 ! 15]))"

definition IsViaPrefix :: "prefix \<Rightarrow> bool" where
  "IsViaPrefix p \<longleftrightarrow> pfx_Contains TailscaleViaRange (pfx_Addr p)"

definition UnmapVia :: "addr \<Rightarrow> addr" where
  "UnmapVia ip =
     (if pfx_Contains TailscaleViaRange ip then AddrFrom4 (drop 12 (As16_bytes ip)) else ip)"

text \<open>\<open>None\<close> is the error "want IPv4 CIDR with a site ID".\<close>

definition MapVia :: "u32 \<Rightarrow> prefix \<Rightarrow> prefix option" where
  "MapVia siteID v4 =
     (if \<not> Is4 (pfx_Addr v4) then None
      else Some (PrefixFrom
             (AddrFrom16 (take 8 (As16_bytes (pfx_Addr TailscaleViaRange))
                          @ PutUint32_be siteID @ As4_bytes (pfx_Addr v4)))
             (pfx_Bits v4 + 64 + 32)))"


section \<open>Route lists\<close>

fun PrefixesContainsIP :: "prefix list \<Rightarrow> addr \<Rightarrow> bool" where
  "PrefixesContainsIP [] ip = False"
| "PrefixesContainsIP (r # rs) ip = (if pfx_Contains r ip then True else PrefixesContainsIP rs ip)"

definition PrefixIs4 :: "prefix \<Rightarrow> bool" where "PrefixIs4 p = Is4 (pfx_Addr p)"
definition PrefixIs6 :: "prefix \<Rightarrow> bool" where "PrefixIs6 p = Is6 (pfx_Addr p)"

definition ContainsExitRoutes :: "prefix list \<Rightarrow> bool" where
  "ContainsExitRoutes rr =
     (let (v4, v6) = fold (\<lambda>r (v4, v6). if r = allIPv4 then (True, v6)
                                        else if r = allIPv6 then (v4, True) else (v4, v6))
                       rr (False, False)
      in v4 \<and> v6)"

fun ContainsExitRoute :: "prefix list \<Rightarrow> bool" where
  "ContainsExitRoute [] = False"
| "ContainsExitRoute (r # rr) = (if pfx_Bits r = 0 then True else ContainsExitRoute rr)"

fun ContainsNonExitSubnetRoutes :: "prefix list \<Rightarrow> bool" where
  "ContainsNonExitSubnetRoutes [] = False"
| "ContainsNonExitSubnetRoutes (r # rr) =
     (if pfx_Bits r \<noteq> 0 then True else ContainsNonExitSubnetRoutes rr)"

definition WithoutExitRoutes :: "prefix list \<Rightarrow> prefix list" where
  "WithoutExitRoutes rr = (if \<not> ContainsExitRoutes rr then rr else filter (\<lambda>r. 0 < pfx_Bits r) rr)"

definition WithoutExitRoute :: "prefix list \<Rightarrow> prefix list" where
  "WithoutExitRoute rr = (if \<not> ContainsExitRoute rr then rr else filter (\<lambda>r. 0 < pfx_Bits r) rr)"

definition ExitRoutes :: "prefix list" where "ExitRoutes = [allIPv4, allIPv6]"

definition IsExitRoute :: "prefix \<Rightarrow> bool" where
  "IsExitRoute p \<longleftrightarrow> p = allIPv4 \<or> p = allIPv6"

fun FilterPrefixesCopy :: "prefix list \<Rightarrow> (prefix \<Rightarrow> bool) \<Rightarrow> prefix list" where
  "FilterPrefixesCopy [] f = []"
| "FilterPrefixesCopy (v # vs) f =
     (if f v then v # FilterPrefixesCopy vs f else FilterPrefixesCopy vs f)"


section \<open>Lemmas\<close>

lemma IsTailscaleIP_service [tsaddr_simps]:
  "IsTailscaleIP TailscaleServiceIP" "IsTailscaleIP TailscaleServiceIPv6"
  by code_simp+

lemma PrefixesContainsIP_iff [tsaddr_simps]:
  "PrefixesContainsIP rs ip \<longleftrightarrow> (\<exists>r \<in> set rs. pfx_Contains r ip)"
  by (induction rs) auto

lemma ContainsExitRoutes_iff [tsaddr_simps]:
  "ContainsExitRoutes rr \<longleftrightarrow> allIPv4 \<in> set rr \<and> allIPv6 \<in> set rr"
proof -
  have ne: "allIPv4 \<noteq> allIPv6" by (simp add: allIPv4_def allIPv6_def PrefixFrom_def)
  have "fold (\<lambda>r (v4, v6). if r = allIPv4 then (True, v6)
                           else if r = allIPv6 then (v4, True) else (v4, v6)) rr (a, b)
        = (a \<or> allIPv4 \<in> set rr, b \<or> allIPv6 \<in> set rr)" for a b
    using ne by (induction rr arbitrary: a b) auto
  then show ?thesis by (simp add: ContainsExitRoutes_def)
qed

lemma ContainsExitRoute_iff [tsaddr_simps]:
  "ContainsExitRoute rr \<longleftrightarrow> (\<exists>r \<in> set rr. pfx_Bits r = 0)"
  by (induction rr) auto

text \<open>The first byte of an address in the CGNAT range is 100.\<close>

lemma CGNAT_first_byte:
  assumes "pfx_Contains CGNATRange (AddrV4 w)"
  shows "unat w div 16777216 = 100"
proof -
  from assms have "drop_bit 22 w = (401 :: 32 word)"
    by (simp add: CGNATRange_def PrefixFrom_def pfx_Contains_V4)
  from arg_cong [OF this, of unat] have "drop_bit 22 (unat w) = 401"
    by (simp only: unat_drop_bit_eq) simp
  then have "unat w div 4194304 = 401" by (simp add: drop_bit_eq_div)
  then show ?thesis by arith
qed


section \<open>The byte layout of the 4via6 and 4to6 ranges\<close>

lemma drop_bit_eq_iff_div:
  "drop_bit k (w :: 'a::len word) = drop_bit k v \<longleftrightarrow> unat w div 2 ^ k = unat v div 2 ^ k"
  by (simp only: word_unat_eq_iff unat_drop_bit_eq) (simp add: drop_bit_eq_div)

definition via_bytes :: "u32 \<Rightarrow> addr \<Rightarrow> byte list" where
  "via_bytes s ip = take 8 (As16_bytes (pfx_Addr TailscaleViaRange)) @ PutUint32_be s @ As4_bytes ip"

lemma via_prefix_bytes: "take 8 (As16_bytes (pfx_Addr TailscaleViaRange)) = [0xfd,0x7a,0x11,0x5c,0xa1,0xe0,0x0b,0x1a]"
  by code_simp

lemma length_via_bytes [simp]: "Is4 ip \<Longrightarrow> length (via_bytes s ip) = 16"
  by (simp add: via_bytes_def)

lemma be_nat_via_bytes:
  "be_nat (via_bytes s (AddrV4 a)) = 0xfd7a115ca1e00b1a * 2 ^ 64 + unat s * 2 ^ 32 + unat a"
proof -
  have "unat a < 256 ^ 4" "unat s < 256 ^ 4"
    using unsigned_less [of a, where ?'a = nat] unsigned_less [of s, where ?'a = nat] by simp_all
  moreover have "be_nat [0xfd,0x7a,0x11,0x5c,0xa1,0xe0,0x0b,0x1a] = 0xfd7a115ca1e00b1a"
    by (simp add: be_nat_def)
  ultimately show ?thesis
    by (simp add: via_bytes_def via_prefix_bytes be_nat_append be_nat_Cons PutUint32_be_def be_nat_nat_be
          del: nat_be.simps)
qed

lemma pfx_Contains_bytes16:
  assumes "length bs = 16" "length cs = 16"
  shows "pfx_Contains (Prefix (AddrFrom16 bs) n) (AddrFrom16 cs) \<longleftrightarrow>
           0 \<le> n \<and> be_nat cs div 2 ^ (128 - nat n) = be_nat bs div 2 ^ (128 - nat n)"
  unfolding AddrFrom16_def pfx_Contains_V6 drop_bit_eq_iff_div
  by (simp only: unat_of_be_nat assms)

lemma div_shift_eq:
  fixes a b c k :: nat
  assumes "k \<le> 32"
  shows "(c * 2 ^ 32 + a) div 2 ^ k = (c * 2 ^ 32 + b) div 2 ^ k \<longleftrightarrow> a div 2 ^ k = b div 2 ^ k"
proof -
  have eq: "c * 2 ^ 32 = (c * 2 ^ (32 - k)) * 2 ^ k"
    using assms by (metis le_add_diff_inverse2 mult.assoc power_add)
  show ?thesis unfolding eq by (subst (1 2) div_mult_self3) auto
qed

lemma via_contains:
  "pfx_Contains TailscaleViaRange (AddrFrom16 (via_bytes s (AddrV4 a)))"
proof -
  have b: "unat s * 2 ^ 32 + unat a < 2 ^ 64"
    using unsigned_less [of a, where ?'a = nat] unsigned_less [of s, where ?'a = nat] by simp
  have r: "TailscaleViaRange = Prefix (AddrFrom16 [0xfd,0x7a,0x11,0x5c,0xa1,0xe0,0x0b,0x1a,0,0,0,0,0,0,0,0]) 64"
    by code_simp
  moreover have "be_nat [0xfd,0x7a,0x11,0x5c,0xa1,0xe0,0x0b,0x1a,0,0,0,0,0,0,0,0] = 0xfd7a115ca1e00b1a * 2 ^ 64"
    by (simp add: be_nat_def)
  moreover have "(0xfd7a115ca1e00b1a * 2 ^ 64 + unat s * 2 ^ 32 + unat a) div 2 ^ 64 = 0xfd7a115ca1e00b1a"
    using b by simp
  ultimately show ?thesis
    unfolding r by (subst pfx_Contains_bytes16) (simp_all add: be_nat_via_bytes)
qed

lemma MapVia_bytes: "Is4 (pfx_Addr v4) \<Longrightarrow>
  MapVia s v4 = Some (PrefixFrom (AddrFrom16 (via_bytes s (pfx_Addr v4))) (pfx_Bits v4 + 64 + 32))"
  by (simp add: MapVia_def via_bytes_def)

lemma Tailscale4To6_head: "take 13 (As16_bytes (pfx_Addr Tailscale4To6Range))
   = [0xfd,0x7a,0x11,0x5c,0xa1,0xe0,0xab,0x12,0x48,0x43,0xcd,0x96,0x62]"
  by code_simp

lemma Tailscale4To6Range_bytes: "Tailscale4To6Range =
    Prefix (AddrFrom16 [0xfd,0x7a,0x11,0x5c,0xa1,0xe0,0xab,0x12,0x48,0x43,0xcd,0x96,0x62,0,0,0]) 104"
  by code_simp

lemma contains_4To6Range:
  assumes "length t = 3"
  shows "pfx_Contains Tailscale4To6Range
    (AddrFrom16 (take 13 (As16_bytes (pfx_Addr Tailscale4To6Range)) @ t))"
proof -
  have "be_nat t < 256 ^ 3" using be_nat_bound [of t] assms by simp
  then show ?thesis
    unfolding Tailscale4To6_head unfolding Tailscale4To6Range_bytes
    by (subst pfx_Contains_bytes16) (simp_all add: assms be_nat_Cons)
qed

lemma nat_be_4_head: "hd (nat_be 4 n) = of_nat (n div 16777216)"
proof -
  have "(4::nat) = Suc (Suc (Suc (Suc 0)))" by simp
  then show ?thesis by (simp only:) (simp add: div_mult2_eq [symmetric])
qed

lemma length_3E:
  assumes "length xs = 3"
  obtains a b c where "xs = [a, b, c]"
  using assms by (auto simp: length_Suc_conv numeral_3_eq_3)

lemma CGNAT_bytes:
  assumes "pfx_Contains CGNATRange (AddrV4 w)"
  shows "As4_bytes (AddrV4 w) = 100 # drop 1 (As4_bytes (AddrV4 w))"
proof -
  have "hd (As4_bytes (AddrV4 w)) = 100"
    using CGNAT_first_byte [OF assms] by (simp add: nat_be_4_head)
  then show ?thesis by (cases "As4_bytes (AddrV4 w)") (auto dest: arg_cong [of _ _ length])
qed


section \<open>Properties\<close>

text \<open>C5: The 4via6 mapping is correct: for every valid IPv4 prefix, \<^const>\<open>MapVia\<close> succeeds and gives a prefix
  inside the Tailscale via range, 96 bits longer, from which \<^const>\<open>UnmapVia\<close> recovers the IPv4
  address, and the IPv6 prefix contains the via address of site \<open>s\<close> and IPv4 address \<open>a\<close> exactly
  when the IPv4 prefix contains \<open>a\<close>.\<close>

theorem MapVia_spec:
  assumes "wf_prefix v4" "pfx_IsValid v4" "Is4 (pfx_Addr v4)"
  shows "\<exists>via. MapVia s v4 = Some via \<and> IsViaPrefix via \<and> UnmapVia (pfx_Addr via) = pfx_Addr v4 \<and> pfx_Bits via = pfx_Bits v4 + 96
    \<and> (\<forall>a. pfx_Contains via (AddrFrom16 (via_bytes s (AddrV4 a))) \<longleftrightarrow> pfx_Contains v4 (AddrV4 a))"
proof -
  obtain w n where v4: "v4 = Prefix (AddrV4 w) n" using assms(3) by (cases v4; cases "pfx_Addr v4") auto
  with assms(1,2) have n: "0 \<le> n" "n \<le> 32" by (auto simp: wf_prefix_def pfx_IsValid_def)
  let ?b = "\<lambda>a. via_bytes s (AddrV4 a)"
  have k: "128 - nat (n + 96) = 32 - nat n" using n by arith
  have via_drop: "drop 12 (?b w) = As4_bytes (AddrV4 w)" by (simp add: via_bytes_def)
  define via where via: "via = Prefix (AddrFrom16 (?b w)) (n + 96)"
  have "MapVia s v4 = Some via"
    using n by (auto simp: via MapVia_bytes v4 PrefixFrom_def AddrFrom16_def algebra_simps)
  moreover have "UnmapVia (AddrFrom16 (?b w)) = AddrV4 w"
    using AddrFrom4_As4 [of "AddrV4 w"] via_drop via_contains [of s w] by (simp add: UnmapVia_def As16_AddrFrom16)
  moreover have "pfx_Contains via (AddrFrom16 (?b a)) \<longleftrightarrow> pfx_Contains v4 (AddrV4 a)" for a
  proof -
    have "pfx_Contains via (AddrFrom16 (?b a)) \<longleftrightarrow>
          be_nat (?b a) div 2 ^ (32 - nat n) = be_nat (?b w) div 2 ^ (32 - nat n)"
      using n k by (simp add: via pfx_Contains_bytes16)
    also have "\<dots> \<longleftrightarrow> unat a div 2 ^ (32 - nat n) = unat w div 2 ^ (32 - nat n)"
      using div_shift_eq [of "32 - nat n" "0xfd7a115ca1e00b1a * 2 ^ 32 + unat s" "unat a" "unat w"]
      unfolding be_nat_via_bytes by (simp add: algebra_simps)
    finally show ?thesis using n by (simp add: v4 pfx_Contains_V4 drop_bit_eq_iff_div)
  qed
  ultimately show ?thesis by (simp add: IsViaPrefix_def via via_contains v4)
qed

theorem MapVia_spec_witness:
  "IsViaPrefix (the (MapVia 7 (Prefix (AddrV4 0x0a000000) 8)))
   \<and> UnmapVia (pfx_Addr (the (MapVia 7 (Prefix (AddrV4 0x0a000000) 8)))) = AddrV4 0x0a000000"
proof -
  have "wf_prefix (Prefix (AddrV4 0x0a000000) 8)" "pfx_IsValid (Prefix (AddrV4 0x0a000000) 8)" "Is4 (pfx_Addr (Prefix (AddrV4 0x0a000000) 8))"
    by (simp_all add: wf_prefix_def pfx_IsValid_def)
  from MapVia_spec [OF this, of 7] obtain via where
    "MapVia 7 (Prefix (AddrV4 0x0a000000) 8) = Some via" "IsViaPrefix via" "UnmapVia (pfx_Addr via) = pfx_Addr (Prefix (AddrV4 0x0a000000) 8)"
    by blast
  then show ?thesis by (simp del: nat_be.simps)
qed

text \<open>C6: Translating a Tailscale IPv4 address to its 4to6 IPv6 address and back is the identity, and
  the IPv6 address lies in the 4to6 range.\<close>

theorem tailscale_4to6_roundtrip:
  assumes "IsTailscaleIPv4 ip"
  shows "Is6 (Tailscale4To6 ip) \<and> pfx_Contains Tailscale4To6Range (Tailscale4To6 ip)
       \<and> Tailscale6to4 (Tailscale4To6 ip) = Some ip"
proof -
  from assms obtain w where ip: "ip = AddrV4 w" and c: "pfx_Contains CGNATRange (AddrV4 w)"
    by (cases ip) (auto simp: IsTailscaleIPv4_def CGNATRange_def PrefixFrom_def dest: pfx_Contains_family)
  let ?t = "drop 1 (As4_bytes (AddrV4 w))" and ?h = "take 13 (As16_bytes (pfx_Addr Tailscale4To6Range))"
  have l: "length ?t = 3" by simp
  obtain a b c where t: "?t = [a, b, c]" using l by (rule length_3E)
  have f: "Tailscale4To6 ip = AddrFrom16 (?h @ ?t)"
    using assms by (simp add: Tailscale4To6_def ip IsTailscaleIP_def)
  have "As16_bytes (AddrFrom16 (?h @ ?t)) = ?h @ ?t" by (rule As16_AddrFrom16) simp
  moreover have "[100, (?h @ ?t) ! 13, (?h @ ?t) ! 14, (?h @ ?t) ! 15] = As4_bytes (AddrV4 w)"
    using CGNAT_bytes [OF c] unfolding Tailscale4To6_head t by simp
  ultimately show ?thesis using contains_4To6Range [OF l] AddrFrom4_As4 [of "AddrV4 w"]
    unfolding f by (simp add: Tailscale6to4_def ip AddrFrom16_def Let_def)
qed

theorem tailscale_4to6_roundtrip_witness:
  "IsTailscaleIPv4 (AddrV4 0x64400001) \<and> Tailscale6to4 (Tailscale4To6 (AddrV4 0x64400001)) = Some (AddrV4 0x64400001)"
proof -
  have "IsTailscaleIPv4 (AddrV4 0x64400001)" by code_simp
  then show ?thesis using tailscale_4to6_roundtrip [of "AddrV4 0x64400001"] by simp
qed

text \<open>Filtering out the exit routes leaves a list without an exit-route pair (respectively without
  any default route), takes nothing but routes of the input, and keeps every proper subnet route in
  order.\<close>

lemma WithoutExitRoutes_spec:
  "\<not> ContainsExitRoutes (WithoutExitRoutes rr) \<and> \<not> ContainsExitRoute (WithoutExitRoute rr)
   \<and> set (WithoutExitRoutes rr) \<subseteq> set rr \<and> set (WithoutExitRoute rr) \<subseteq> set rr
   \<and> filter (\<lambda>r. 0 < pfx_Bits r) (WithoutExitRoutes rr) = filter (\<lambda>r. 0 < pfx_Bits r) rr
   \<and> filter (\<lambda>r. 0 < pfx_Bits r) (WithoutExitRoute rr) = filter (\<lambda>r. 0 < pfx_Bits r) rr"
  by (auto simp: WithoutExitRoutes_def WithoutExitRoute_def ContainsExitRoutes_iff ContainsExitRoute_iff
        allIPv4_def PrefixFrom_def)

end
