(* ===== verification/Packet.thy ===== *)
theory Packet
  imports Tsaddr "HOL-Library.Monad_Syntax"
begin

text \<open>IP packet decoding (\<open>net/packet/packet.go\<close>) and the protocol numbers it uses
  (\<open>types/ipproto/ipproto.go\<close>).

  A packet is a list of bytes.  \<open>Decode\<close> overwrites fields of a \<open>Parsed\<close> value and leaves the others
  as they were, so it is a state transformer.  Every index and every slice expression of the source
  is a checked read: \<open>None\<close> stands for the run-time panic "index out of range".\<close>

named_theorems packet_simps


section \<open>Protocol numbers and header lengths\<close>

abbreviation Unknown :: byte where "Unknown \<equiv> 0"
abbreviation ICMPv4 :: byte where "ICMPv4 \<equiv> 1"
abbreviation IGMP :: byte where "IGMP \<equiv> 2"
abbreviation TCP :: byte where "TCP \<equiv> 6"
abbreviation UDP :: byte where "UDP \<equiv> 17"
abbreviation ICMPv6 :: byte where "ICMPv6 \<equiv> 58"
abbreviation SCTP :: byte where "SCTP \<equiv> 132"
abbreviation TSMP :: byte where "TSMP \<equiv> 99"
abbreviation Fragment :: byte where "Fragment \<equiv> 255"

definition minFragBlks :: nat where "minFragBlks = (60 + 20) div 8"
definition ip6FragHeader :: byte where "ip6FragHeader = 44"

abbreviation ip4HeaderLength :: nat where "ip4HeaderLength \<equiv> 20"
abbreviation ip6HeaderLength :: nat where "ip6HeaderLength \<equiv> 40"
abbreviation ip6FragHeaderLength :: nat where "ip6FragHeaderLength \<equiv> 8"
abbreviation icmp4HeaderLength :: nat where "icmp4HeaderLength \<equiv> 4"
abbreviation icmp6HeaderLength :: nat where "icmp6HeaderLength \<equiv> 4"
abbreviation igmpHeaderLength :: nat where "igmpHeaderLength \<equiv> 8"
abbreviation tcpHeaderLength :: nat where "tcpHeaderLength \<equiv> 20"
abbreviation udpHeaderLength :: nat where "udpHeaderLength \<equiv> 8"
abbreviation sctpHeaderLength :: nat where "sctpHeaderLength \<equiv> 12"
abbreviation minTSMPSize :: nat where "minTSMPSize \<equiv> 7"

abbreviation TCPSyn :: byte where "TCPSyn \<equiv> 0x02"
abbreviation TCPSynAck :: byte where "TCPSynAck \<equiv> 0x12"

abbreviation ICMP4EchoReply :: byte where "ICMP4EchoReply \<equiv> 0x00"
abbreviation ICMP4EchoRequest :: byte where "ICMP4EchoRequest \<equiv> 0x08"
abbreviation ICMP4Unreachable :: byte where "ICMP4Unreachable \<equiv> 0x03"
abbreviation ICMP4TimeExceeded :: byte where "ICMP4TimeExceeded \<equiv> 0x0b"
abbreviation ICMP4ParamProblem :: byte where "ICMP4ParamProblem \<equiv> 0x12"
abbreviation ICMP6Unreachable :: byte where "ICMP6Unreachable \<equiv> 1"
abbreviation ICMP6PacketTooBig :: byte where "ICMP6PacketTooBig \<equiv> 2"
abbreviation ICMP6TimeExceeded :: byte where "ICMP6TimeExceeded \<equiv> 3"
abbreviation ICMP6ParamProblem :: byte where "ICMP6ParamProblem \<equiv> 4"
abbreviation ICMP6EchoRequest :: byte where "ICMP6EchoRequest \<equiv> 128"
abbreviation ICMP6EchoReply :: byte where "ICMP6EchoReply \<equiv> 129"


section \<open>The decoded packet\<close>

record capture_meta =
  DidSNAT :: bool
  OriginalSrc :: addrport
  DidDNAT :: bool
  OriginalDst :: addrport

definition zero_ap :: addrport where "zero_ap = AddrPort AddrZero 0"

definition zero_meta :: capture_meta where
  "zero_meta = \<lparr> DidSNAT = False, OriginalSrc = zero_ap, DidDNAT = False, OriginalDst = zero_ap \<rparr>"

record parsed =
  p_b :: "byte list"
  subofs :: nat
  dataofs :: nat
  p_length :: nat
  IPVersion :: byte
  IPProto :: byte
  Src :: addrport
  Dst :: addrport
  TCPFlags :: byte
  CaptureMeta :: capture_meta

definition zero_parsed :: parsed where
  "zero_parsed = \<lparr> p_b = [], subofs = 0, dataofs = 0, p_length = 0, IPVersion = 0, IPProto = Unknown,
     Src = zero_ap, Dst = zero_ap, TCPFlags = 0, CaptureMeta = zero_meta \<rparr>"

definition withIP :: "addrport \<Rightarrow> addr \<Rightarrow> addrport" where "withIP ap ip = AddrPort ip (ap_Port ap)"
definition withPort :: "addrport \<Rightarrow> u16 \<Rightarrow> addrport" where "withPort ap port = AddrPort (ap_Addr ap) port"

text \<open>Checked reads: \<open>b[i]\<close>, \<open>b[i:j]\<close>, \<open>b[i:]\<close> and \<open>binary.BigEndian.Uint16(b[i:i+2])\<close>.\<close>

definition idx :: "byte list \<Rightarrow> nat \<Rightarrow> byte option" where
  "idx b i = (if i < length b then Some (b ! i) else None)"

definition slc :: "byte list \<Rightarrow> nat \<Rightarrow> nat \<Rightarrow> byte list option" where
  "slc b i j = (if i \<le> j \<and> j \<le> length b then Some (take (j - i) (drop i b)) else None)"

definition be16_at :: "byte list \<Rightarrow> nat \<Rightarrow> u16 option" where
  "be16_at b i = do { s \<leftarrow> slc b i (i + 2); Some (Uint16_be s) }"

definition set_unknown :: "parsed \<Rightarrow> parsed" where "set_unknown q = q \<lparr> IPProto := Unknown \<rparr>"


section \<open>Decode\<close>

definition decode_ports :: "byte list \<Rightarrow> parsed \<Rightarrow> parsed option" where
  "decode_ports sub q = do {
     sp \<leftarrow> be16_at sub 0;
     dp \<leftarrow> be16_at sub 2;
     Some (q \<lparr> Src := withPort (Src q) sp, Dst := withPort (Dst q) dp \<rparr>) }"

definition decode_tcp :: "byte list \<Rightarrow> parsed \<Rightarrow> parsed option" where
  "decode_tcp sub q =
     (if length sub < tcpHeaderLength then Some (set_unknown q)
      else do {
        q \<leftarrow> decode_ports sub q;
        flags \<leftarrow> idx sub 13;
        o12 \<leftarrow> idx sub 12;
        Some (q \<lparr> TCPFlags := flags, dataofs := subofs q + unat (drop_bit 2 (o12 AND 0xF0)) \<rparr>) })"

definition decode_udp :: "byte list \<Rightarrow> parsed \<Rightarrow> parsed option" where
  "decode_udp sub q =
     (if length sub < udpHeaderLength then Some (set_unknown q)
      else do {
        q \<leftarrow> decode_ports sub q;
        Some (q \<lparr> dataofs := subofs q + udpHeaderLength \<rparr>) })"

definition decode_icmp :: "nat \<Rightarrow> byte list \<Rightarrow> parsed \<Rightarrow> parsed option" where
  "decode_icmp hlen sub q =
     (if length sub < hlen then Some (set_unknown q)
      else Some (q \<lparr> Src := withPort (Src q) 0, Dst := withPort (Dst q) 0,
                     dataofs := subofs q + hlen \<rparr>))"

text \<open>The switch on the protocol of a first IPv4 fragment.\<close>

definition decode4_proto :: "bool \<Rightarrow> byte list \<Rightarrow> parsed \<Rightarrow> parsed option" where
  "decode4_proto moreFrags sub q =
     (if IPProto q = ICMPv4 then decode_icmp icmp4HeaderLength sub q
      else if IPProto q = IGMP then
        (if length sub < igmpHeaderLength then Some (set_unknown q) else Some q)
      else if IPProto q = TCP then decode_tcp sub q
      else if IPProto q = UDP then decode_udp sub q
      else if IPProto q = SCTP then
        (if length sub < sctpHeaderLength then Some (set_unknown q) else decode_ports sub q)
      else if IPProto q = TSMP then
        (if moreFrags then Some (set_unknown q)
         else if length sub < minTSMPSize then Some (set_unknown q)
         else Some (q \<lparr> dataofs := subofs q \<rparr>))
      else if IPProto q = Fragment then Some (set_unknown q)
      else Some q)"

definition decode4 :: "byte list \<Rightarrow> parsed \<Rightarrow> parsed option" where
  "decode4 b q =
     (if length b < ip4HeaderLength then Some (q \<lparr> IPVersion := 0, IPProto := Unknown \<rparr>)
      else do {
        proto \<leftarrow> idx b 9;
        len \<leftarrow> be16_at b 2;
        let q = q \<lparr> IPProto := proto, p_length := unat len \<rparr>;
        if length b < p_length q then Some (set_unknown q)
        else do {
          s \<leftarrow> slc b 12 16;
          d \<leftarrow> slc b 16 20;
          b0 \<leftarrow> idx b 0;
          let q = q \<lparr> Src := withIP (Src q) (AddrFrom4 s), Dst := withIP (Dst q) (AddrFrom4 d),
                       subofs := unat (push_bit 2 (b0 AND 0x0F)) \<rparr>;
          if p_length q < subofs q then Some (set_unknown q)
          else do {
            sub \<leftarrow> slc b (subofs q) (length b);
            fragFlags \<leftarrow> be16_at b 6;
            let moreFrags = (fragFlags AND 0x2000 \<noteq> 0);
            let fragOfs = fragFlags AND 0x1FFF;
            if fragOfs = 0 then decode4_proto moreFrags sub q
            else if unat fragOfs < minFragBlks then Some (set_unknown q)
            else Some (q \<lparr> IPProto := Fragment \<rparr>) } } })"

definition decode6Fragment :: "byte list \<Rightarrow> parsed \<Rightarrow> (bool \<times> parsed) option" where
  "decode6Fragment b q =
     (if length b < subofs q + ip6FragHeaderLength then Some (False, set_unknown q)
      else do {
        frag \<leftarrow> slc b (subofs q) (length b);
        nextHdr \<leftarrow> idx frag 0;
        w \<leftarrow> be16_at frag 2;
        let fragOfs = drop_bit 3 w;
        let q = q \<lparr> subofs := subofs q + ip6FragHeaderLength \<rparr>;
        if fragOfs = 0 then Some (True, q \<lparr> IPProto := nextHdr \<rparr>)
        else if unat fragOfs < minFragBlks then Some (False, set_unknown q)
        else Some (False, q \<lparr> IPProto := Fragment \<rparr>) })"

definition decode6_proto :: "byte list \<Rightarrow> parsed \<Rightarrow> parsed option" where
  "decode6_proto sub q =
     (if IPProto q = ICMPv6 then decode_icmp icmp6HeaderLength sub q
      else if IPProto q = TCP then decode_tcp sub q
      else if IPProto q = UDP then decode_udp sub q
      else if IPProto q = SCTP then
        (if length sub < sctpHeaderLength then Some (set_unknown q) else decode_ports sub q)
      else if IPProto q = TSMP then
        (if length sub < minTSMPSize then Some (set_unknown q) else Some (q \<lparr> dataofs := subofs q \<rparr>))
      else if IPProto q = Fragment then Some (set_unknown q)
      else Some q)"

definition decode6 :: "byte list \<Rightarrow> parsed \<Rightarrow> parsed option" where
  "decode6 b q =
     (if length b < ip6HeaderLength then Some (q \<lparr> IPVersion := 0, IPProto := Unknown \<rparr>)
      else do {
        proto \<leftarrow> idx b 6;
        len \<leftarrow> be16_at b 4;
        let q = q \<lparr> IPProto := proto, p_length := unat len + ip6HeaderLength \<rparr>;
        if length b < p_length q then Some (set_unknown q)
        else do {
          s \<leftarrow> slc b 8 24;
          d \<leftarrow> slc b 24 40;
          let srcIP = (case AddrFromSlice s of Some a \<Rightarrow> a | None \<Rightarrow> AddrZero);
          let dstIP = (case AddrFromSlice d of Some a \<Rightarrow> a | None \<Rightarrow> AddrZero);
          let q = q \<lparr> Src := withIP (Src q) srcIP, Dst := withIP (Dst q) dstIP, subofs := 40 \<rparr>;
          (cont, q) \<leftarrow> (if IPProto q = ip6FragHeader then decode6Fragment b q else Some (True, q));
          if \<not> cont then Some q
          else do {
            sub \<leftarrow> slc b (subofs q) (length b);
            decode6_proto sub q } } })"

definition Decode :: "byte list \<Rightarrow> parsed \<Rightarrow> parsed option" where
  "Decode b q0 =
     (let q = q0 \<lparr> p_b := b, CaptureMeta := zero_meta \<rparr> in
      if length b < 1 then Some (q \<lparr> IPVersion := 0, IPProto := Unknown \<rparr>)
      else do {
        b0 \<leftarrow> idx b 0;
        let q = q \<lparr> IPVersion := drop_bit 4 b0 \<rparr>;
        if IPVersion q = 4 then decode4 b q
        else if IPVersion q = 6 then decode6 b q
        else Some (q \<lparr> IPVersion := 0, IPProto := Unknown \<rparr>) })"


section \<open>Header accessors and predicates\<close>

record ip4_header =
  h4_IPProto :: byte
  h4_IPID :: u16
  h4_Src :: addr
  h4_Dst :: addr

record ip6_header =
  h6_IPProto :: byte
  h6_IPID :: u32
  h6_Src :: addr
  h6_Dst :: addr

record icmp4_header = ip4_header +
  i4_Type :: byte
  i4_Code :: byte

record icmp6_header = ip6_header +
  i6_Type :: byte
  i6_Code :: byte

record udp4_header = ip4_header +
  u4_SrcPort :: u16
  u4_DstPort :: u16

definition parsed_IP4Header :: "parsed \<Rightarrow> ip4_header option" where
  "parsed_IP4Header q =
     (if IPVersion q \<noteq> 4 then None
      else do {
        ipid \<leftarrow> be16_at (p_b q) 4;
        Some \<lparr> h4_IPProto = IPProto q, h4_IPID = ipid, h4_Src = ap_Addr (Src q), h4_Dst = ap_Addr (Dst q) \<rparr> })"

definition parsed_IP6Header :: "parsed \<Rightarrow> ip6_header option" where
  "parsed_IP6Header q =
     (if IPVersion q \<noteq> 6 then None
      else do {
        w \<leftarrow> slc (p_b q) 0 4;
        Some \<lparr> h6_IPProto = IPProto q, h6_IPID = drop_bit 12 (push_bit 12 (Uint32_be w)),
               h6_Src = ap_Addr (Src q), h6_Dst = ap_Addr (Dst q) \<rparr> })"

definition parsed_ICMP4Header :: "parsed \<Rightarrow> icmp4_header option" where
  "parsed_ICMP4Header q = do {
     h \<leftarrow> parsed_IP4Header q;
     t \<leftarrow> idx (p_b q) (subofs q + 0);
     c \<leftarrow> idx (p_b q) (subofs q + 1);
     Some (ip4_header.extend h (icmp4_header.fields t c)) }"

definition parsed_ICMP6Header :: "parsed \<Rightarrow> icmp6_header option" where
  "parsed_ICMP6Header q = do {
     h \<leftarrow> parsed_IP6Header q;
     t \<leftarrow> idx (p_b q) (subofs q + 0);
     c \<leftarrow> idx (p_b q) (subofs q + 1);
     Some (ip6_header.extend h (icmp6_header.fields t c)) }"

definition parsed_UDP4Header :: "parsed \<Rightarrow> udp4_header option" where
  "parsed_UDP4Header q = do {
     h \<leftarrow> parsed_IP4Header q;
     Some (ip4_header.extend h (udp4_header.fields (ap_Port (Src q)) (ap_Port (Dst q)))) }"

definition Payload :: "parsed \<Rightarrow> byte list option" where
  "Payload q = (if p_length q > length (p_b q) \<or> dataofs q > length (p_b q) then Some []
                else slc (p_b q) (dataofs q) (p_length q))"

definition Transport :: "parsed \<Rightarrow> byte list option" where
  "Transport q = slc (p_b q) (subofs q) (length (p_b q))"

definition IsTCPSyn :: "parsed \<Rightarrow> bool" where
  "IsTCPSyn q \<longleftrightarrow> TCPFlags q AND TCPSynAck = TCPSyn"

definition IsError :: "parsed \<Rightarrow> bool" where
  "IsError q =
     (if IPProto q = ICMPv4 then
        (if length (p_b q) < subofs q + 8 then False
         else let t = p_b q ! subofs q in
              t = ICMP4Unreachable \<or> t = ICMP4TimeExceeded \<or> t = ICMP4ParamProblem)
      else if IPProto q = ICMPv6 then
        (if length (p_b q) < subofs q + 8 then False
         else let t = p_b q ! subofs q in
              t = ICMP6Unreachable \<or> t = ICMP6PacketTooBig \<or> t = ICMP6TimeExceeded \<or> t = ICMP6ParamProblem)
      else False)"

definition IsEchoRequest :: "parsed \<Rightarrow> bool" where
  "IsEchoRequest q =
     (if IPProto q = ICMPv4 then
        subofs q + 8 \<le> length (p_b q) \<and> p_b q ! subofs q = ICMP4EchoRequest \<and> p_b q ! (subofs q + 1) = 0
      else if IPProto q = ICMPv6 then
        subofs q + 8 \<le> length (p_b q) \<and> p_b q ! subofs q = ICMP6EchoRequest \<and> p_b q ! (subofs q + 1) = 0
      else False)"

definition IsEchoResponse :: "parsed \<Rightarrow> bool" where
  "IsEchoResponse q =
     (if IPProto q = ICMPv4 then
        subofs q + 8 \<le> length (p_b q) \<and> p_b q ! subofs q = ICMP4EchoReply \<and> p_b q ! (subofs q + 1) = 0
      else if IPProto q = ICMPv6 then
        subofs q + 8 \<le> length (p_b q) \<and> p_b q ! subofs q = ICMP6EchoReply \<and> p_b q ! (subofs q + 1) = 0
      else False)"

definition EchoIDSeq :: "parsed \<Rightarrow> u32" where
  "EchoIDSeq q =
     (if IPProto q = ICMPv4 then
        let offset = ip4HeaderLength + icmp4HeaderLength in
        if length (p_b q) < offset + 4 then 0 else Uint32_be (rev (take 4 (drop offset (p_b q))))
      else if IPProto q = ICMPv6 then
        let offset = ip6HeaderLength + icmp6HeaderLength in
        if length (p_b q) < offset + 4 then 0 else Uint32_be (rev (take 4 (drop offset (p_b q))))
      else 0)"


section \<open>Lemmas\<close>

lemma idx_in [packet_simps]: "i < length b \<Longrightarrow> idx b i = Some (b ! i)"
  by (simp add: idx_def)

lemma slc_in [packet_simps]: "i \<le> j \<Longrightarrow> j \<le> length b \<Longrightarrow> slc b i j = Some (take (j - i) (drop i b))"
  by (simp add: slc_def)

lemma be16_at_in [packet_simps]:
  "i + 2 \<le> length b \<Longrightarrow> be16_at b i = Some (Uint16_be (take 2 (drop i b)))"
  by (simp add: be16_at_def slc_def)

lemmas decode_defs = decode_icmp_def decode_tcp_def decode_udp_def decode_ports_def set_unknown_def
  Let_def packet_simps

text \<open>What every branch of the decoder leaves alone.\<close>

definition same_frame :: "parsed \<Rightarrow> parsed \<Rightarrow> bool" where
  "same_frame q q' \<longleftrightarrow> p_b q' = p_b q \<and> IPVersion q' = IPVersion q \<and> subofs q' = subofs q
     \<and> p_length q' = p_length q \<and> ap_Addr (Src q') = ap_Addr (Src q) \<and> ap_Addr (Dst q') = ap_Addr (Dst q)"

text \<open>The bytes of the transport header that the protocol number promises, by IP version.\<close>

definition transport_min :: "byte \<Rightarrow> byte \<Rightarrow> nat" where
  "transport_min v p = (if v = 4 \<and> p = ICMPv4 \<or> v = 6 \<and> p = ICMPv6 then 4 else if v = 4 \<and> p = IGMP then 8
     else if p = TCP then 20 else if p = UDP then 8 else if p = SCTP then 12 else if p = TSMP then 7 else 0)"

definition has_ports :: "byte \<Rightarrow> bool" where "has_ports p \<longleftrightarrow> p = TCP \<or> p = UDP \<or> p = SCTP"

definition proto_ok :: "byte list \<Rightarrow> parsed \<Rightarrow> bool" where
  "proto_ok sub q \<longleftrightarrow> IPProto q \<noteq> Fragment \<and> transport_min (IPVersion q) (IPProto q) \<le> length sub \<and>
     (has_ports (IPProto q) \<longrightarrow> ap_Port (Src q) = Uint16_be (take 2 sub)
                              \<and> ap_Port (Dst q) = Uint16_be (take 2 (drop 2 sub)))"

lemma decode4_proto_ok:
  "IPVersion q = 4 \<Longrightarrow> \<exists>q'. decode4_proto m sub q = Some q' \<and> same_frame q q' \<and> proto_ok sub q'
     \<and> IPProto q' \<in> {Unknown, IPProto q}"
  by (auto simp: decode4_proto_def decode_defs same_frame_def proto_ok_def transport_min_def has_ports_def
      withPort_def)

lemma decode6_proto_ok:
  "IPVersion q = 6 \<Longrightarrow> \<exists>q'. decode6_proto sub q = Some q' \<and> same_frame q q' \<and> proto_ok sub q'
     \<and> IPProto q' \<in> {Unknown, IPProto q}"
  by (auto simp: decode6_proto_def decode_defs same_frame_def proto_ok_def transport_min_def has_ports_def
      withPort_def)

text \<open>What a decoded packet with a known protocol guarantees.\<close>

definition ip4_fragOfs :: "byte list \<Rightarrow> nat" where
  "ip4_fragOfs b = unat (Uint16_be (take 2 (drop 6 b)) AND 0x1FFF)"

definition wf_decoded :: "parsed \<Rightarrow> bool" where
  "wf_decoded q \<longleftrightarrow>
     (let b = p_b q; sub = drop (subofs q) b in
      (IPVersion q = 4 \<and> subofs q \<le> p_length q
         \<and> ap_Addr (Src q) = AddrFrom4 (take 4 (drop 12 b)) \<and> ap_Addr (Dst q) = AddrFrom4 (take 4 (drop 16 b))
         \<and> (if IPProto q = Fragment then minFragBlks \<le> ip4_fragOfs b else ip4_fragOfs b = 0)
       \<or> IPVersion q = 6 \<and> 40 \<le> subofs q
         \<and> ap_Addr (Src q) = AddrFrom16 (take 16 (drop 8 b)) \<and> ap_Addr (Dst q) = AddrFrom16 (take 16 (drop 24 b)))
      \<and> p_length q \<le> length b \<and> subofs q \<le> length b \<and> (IPProto q = Fragment \<or> proto_ok sub q))"

lemma decode4_ok:
  assumes "IPVersion q = 4" "p_b q = b"
  shows "\<exists>q'. decode4 b q = Some q' \<and> p_b q' = b \<and> IPVersion q' \<in> {0, 4}
    \<and> (IPVersion q' = 0 \<longrightarrow> IPProto q' = Unknown) \<and> (IPProto q' \<noteq> Unknown \<longrightarrow> wf_decoded q')"
proof (cases "length b < 20 \<or> length b < unat (Uint16_be (take 2 (drop 2 b)))
    \<or> unat (Uint16_be (take 2 (drop 2 b))) < unat (push_bit 2 (b ! 0 AND 0x0F))")
  case True
  then show ?thesis using assms by (cases "b = []") (auto simp: decode4_def decode_defs)
next
  case False
  let ?len = "unat (Uint16_be (take 2 (drop 2 b)))" and ?o = "unat (push_bit 2 (b ! 0 AND 0x0F))"
  let ?q = "q \<lparr> IPProto := b ! 9, p_length := ?len, Src := withIP (Src q) (AddrFrom4 (take 4 (drop 12 b))),
               Dst := withIP (Dst q) (AddrFrom4 (take 4 (drop 16 b))), subofs := ?o \<rparr>"
  let ?f = "Uint16_be (take 2 (drop 6 b))"
  have d: "decode4 b q = (if ?f AND 0x1FFF = 0 then decode4_proto (?f AND 0x2000 \<noteq> 0) (drop ?o b) ?q
       else if ip4_fragOfs b < minFragBlks then Some (set_unknown ?q) else Some (?q \<lparr> IPProto := Fragment \<rparr>))"
    using False by (cases "b = []") (simp_all add: decode4_def Let_def packet_simps ip4_fragOfs_def)
  obtain q' where q': "decode4_proto (?f AND 0x2000 \<noteq> 0) (drop ?o b) ?q = Some q'" "same_frame ?q q'"
    "proto_ok (drop ?o b) q'"
    using decode4_proto_ok [of ?q] assms(1) by auto
  show ?thesis
  proof (cases "?f AND 0x1FFF = 0")
    case True
    with d q' False assms show ?thesis
      by (simp add: wf_decoded_def same_frame_def withIP_def Let_def ip4_fragOfs_def) (simp add: proto_ok_def)
  next
    case nz: False
    then show ?thesis using d False assms
      by (simp add: set_unknown_def wf_decoded_def withIP_def Let_def not_less)
  qed
qed


lemma decode6Fragment_ok:
  assumes "subofs q = 40" "40 \<le> length b"
  obtains c q' where "decode6Fragment b q = Some (c, q')" "p_b q' = p_b q" "IPVersion q' = IPVersion q"
    "p_length q' = p_length q" "Src q' = Src q" "Dst q' = Dst q" "40 \<le> subofs q'"
    "IPProto q' \<noteq> Unknown \<or> c \<Longrightarrow> subofs q' \<le> length b" "\<not> c \<Longrightarrow> IPProto q' \<in> {Unknown, Fragment}"
proof (cases "length b < 48")
  case True
  with assms that [of False "set_unknown q"] show ?thesis by (simp add: decode6Fragment_def set_unknown_def)
next
  case False
  let ?q = "q \<lparr> subofs := 48 \<rparr>" and ?o = "drop_bit 3 (Uint16_be (take 2 (drop 42 b)))"
  have d: "decode6Fragment b q = (if ?o = 0 then Some (True, ?q \<lparr> IPProto := b ! 40 \<rparr>)
      else if unat ?o < minFragBlks then Some (False, set_unknown ?q) else Some (False, ?q \<lparr> IPProto := Fragment \<rparr>))"
    using False assms by (cases "length b = 40") (simp_all add: decode6Fragment_def Let_def packet_simps)
  consider "?o = 0" | "?o \<noteq> 0" "unat ?o < minFragBlks" | "?o \<noteq> 0" "\<not> unat ?o < minFragBlks" by blast
  then show ?thesis
  proof cases
    case 1 then show ?thesis using d False that [of True "?q \<lparr> IPProto := b ! 40 \<rparr>"] by simp
  next
    case 2 then show ?thesis using d False that [of False "set_unknown ?q"] by (simp add: set_unknown_def)
  next
    case 3 then show ?thesis using d False that [of False "?q \<lparr> IPProto := Fragment \<rparr>"] by simp
  qed
qed

lemma decode6_ok:
  assumes "IPVersion q = 6" "p_b q = b"
  shows "\<exists>q'. decode6 b q = Some q' \<and> p_b q' = b \<and> IPVersion q' \<in> {0, 6}
    \<and> (IPVersion q' = 0 \<longrightarrow> IPProto q' = Unknown) \<and> (IPProto q' \<noteq> Unknown \<longrightarrow> wf_decoded q')"
proof (cases "length b < 40 \<or> length b < unat (Uint16_be (take 2 (drop 4 b))) + 40")
  case True
  then show ?thesis using assms by (auto simp: decode6_def decode_defs)
next
  case False
  let ?q = "q \<lparr> IPProto := b ! 6, p_length := unat (Uint16_be (take 2 (drop 4 b))) + 40,
    Src := withIP (Src q) (AddrFrom16 (take 16 (drop 8 b))), Dst := withIP (Dst q) (AddrFrom16 (take 16 (drop 24 b))),
    subofs := 40 \<rparr>"
  define fr where "fr = (if b ! 6 = ip6FragHeader then decode6Fragment b ?q else Some (True, ?q))"
  have "AddrFromSlice (take 16 (drop 8 b)) = Some (AddrFrom16 (take 16 (drop 8 b)))"
    "AddrFromSlice (take 16 (drop 24 b)) = Some (AddrFrom16 (take 16 (drop 24 b)))"
    using False by (auto intro!: AddrFromSlice_16)
  then have d: "decode6 b q = do { (c, q1) \<leftarrow> fr; if \<not> c then Some q1
      else do { sub \<leftarrow> slc b (subofs q1) (length b); decode6_proto sub q1 } }"
    using False by (simp add: decode6_def Let_def packet_simps fr_def)
  have "\<exists>c q1. fr = Some (c, q1) \<and> p_b q1 = b \<and> IPVersion q1 = 6 \<and> p_length q1 = p_length ?q
     \<and> Src q1 = Src ?q \<and> Dst q1 = Dst ?q \<and> 40 \<le> subofs q1
     \<and> (IPProto q1 \<noteq> Unknown \<or> c \<longrightarrow> subofs q1 \<le> length b) \<and> (\<not> c \<longrightarrow> IPProto q1 \<in> {Unknown, Fragment})"
  proof (cases "b ! 6 = ip6FragHeader")
    case True
    obtain c q1 where "decode6Fragment b ?q = Some (c, q1)" "p_b q1 = p_b ?q" "IPVersion q1 = IPVersion ?q"
      "p_length q1 = p_length ?q" "Src q1 = Src ?q" "Dst q1 = Dst ?q" "40 \<le> subofs q1"
      "IPProto q1 \<noteq> Unknown \<or> c \<Longrightarrow> subofs q1 \<le> length b" "\<not> c \<Longrightarrow> IPProto q1 \<in> {Unknown, Fragment}"
      by (rule decode6Fragment_ok [of ?q b]) (use False in auto)
    with True assms show ?thesis unfolding fr_def by (intro exI [of _ c] exI [of _ q1]) simp
  next
    case nf: False
    show ?thesis unfolding fr_def using nf False assms by (intro exI [of _ True] exI [of _ ?q]) simp
  qed
  then obtain c q1 where fr: "fr = Some (c, q1)" "p_b q1 = b" "IPVersion q1 = 6" "p_length q1 = p_length ?q"
     "Src q1 = Src ?q" "Dst q1 = Dst ?q" "40 \<le> subofs q1"
     "IPProto q1 \<noteq> Unknown \<or> c \<longrightarrow> subofs q1 \<le> length b" "\<not> c \<longrightarrow> IPProto q1 \<in> {Unknown, Fragment}"
    by metis
  show ?thesis
  proof (cases c)
    case True
    obtain q' where "decode6_proto (drop (subofs q1) b) q1 = Some q'" "same_frame q1 q'"
      "proto_ok (drop (subofs q1) b) q'" using decode6_proto_ok [of q1] fr(3) by auto
    with True fr d False show ?thesis
      by (simp add: packet_simps wf_decoded_def same_frame_def withIP_def Let_def)
  next
    case no: False
    with fr d False show ?thesis by (auto simp: wf_decoded_def withIP_def Let_def)
  qed
qed


section \<open>Properties\<close>

text \<open>C1: Decoding is safe and sound on every buffer: \<open>Decode\<close> never indexes out of range; the
  version of the result is 0, 4 or 6, and a version of 0 means protocol Unknown; and when the
  protocol is known, the addresses are those of the header, the total length and the transport
  offset lie in the buffer, an IPv4 packet that is not marked a fragment is a first fragment while
  one marked so starts beyond every transport header, and the transport header of the reported
  protocol is entirely present, with the reported ports read from it.\<close>

theorem Decode_sound:
  "\<exists>q'. Decode b q = Some q' \<and> p_b q' = b \<and> IPVersion q' \<in> {0, 4, 6}
     \<and> (IPVersion q' = 0 \<longrightarrow> IPProto q' = Unknown) \<and> (IPProto q' \<noteq> Unknown \<longrightarrow> wf_decoded q')"
proof (cases "b = []")
  case True
  then show ?thesis by (simp add: Decode_def Let_def)
next
  case False
  let ?q = "q \<lparr> p_b := b, CaptureMeta := zero_meta, IPVersion := drop_bit 4 (b ! 0) \<rparr>"
  have d: "Decode b q = (if IPVersion ?q = 4 then decode4 b ?q else if IPVersion ?q = 6 then decode6 b ?q
      else Some (?q \<lparr> IPVersion := 0, IPProto := Unknown \<rparr>))"
    using False by (simp add: Decode_def Let_def packet_simps Suc_leI)
  consider (v4) "IPVersion ?q = 4" | (v6) "IPVersion ?q = 6" | (other) "IPVersion ?q \<notin> {4, 6}" by blast
  then show ?thesis
  proof cases
    case v4
    from decode4_ok [OF v4, of b] v4 d show ?thesis by auto
  next
    case v6
    from decode6_ok [OF v6, of b] v6 d show ?thesis by auto
  next
    case other
    with d show ?thesis by auto
  qed
qed


definition udp_example :: "byte list" where
  "udp_example = [0x45, 0, 0, 28, 0, 0, 0, 0, 64, 17, 0, 0, 100, 64, 0, 1, 100, 64, 0, 2,
                  0x30, 0x39, 0, 53, 0, 8, 0, 0]"

theorem Decode_sound_witness:
  "case Decode udp_example zero_parsed of
     Some q \<Rightarrow> IPProto q = UDP \<and> wf_decoded q | None \<Rightarrow> False"
proof -
  have "map_option IPProto (Decode udp_example zero_parsed) = Some UDP" by code_simp
  with Decode_sound [of udp_example zero_parsed] show ?thesis by auto
qed

text \<open>\<open>Payload\<close> compares the payload offset with the buffer, not with the packet length: a UDP packet
  whose total length field covers only the IP header, in a buffer that holds more, decodes as UDP
  and then makes \<open>Payload\<close> slice backwards.\<close>

definition udp_short_example :: "byte list" where "udp_short_example = udp_example[3 := 20]"

lemma Payload_panics:
  "\<exists>q. Decode udp_short_example zero_parsed = Some q \<and> IPProto q = UDP \<and> Payload q = None"
proof -
  have "map_option (\<lambda>q. (IPProto q, Payload q)) (Decode udp_short_example zero_parsed) = Some (UDP, None)"
    by code_simp
  then show ?thesis by auto
qed

end
