(* ===== verification/Checksum.thy ===== *)
theory Checksum
  imports Packet
begin

text \<open>Writes into a buffer and the Internet checksum: \<open>ip4Checksum\<close> of \<open>net/packet/ip4.go\<close> and
  \<open>checksumBytes\<close>, \<open>checksumCombine\<close> of \<open>net/packet/icmp6.go\<close>.

  The reference is the ones' complement sum of RFC 1071: the sum of the big-endian 16-bit words, an odd
  last byte padded with zero, reduced by adding the carries back (\<open>oc\<close>).  Both routines are related to it;
  a checksum is right when the reduced sum over the data with the checksum in place is all ones.\<close>


section \<open>Writes\<close>

text \<open>\<open>copy(buf[off:off+len(x)], x)\<close> and \<open>PutUint16(buf[off:], v)\<close>; \<open>None\<close> is a slice or index out of range.\<close>

definition put_at :: "nat \<Rightarrow> byte list \<Rightarrow> byte list \<Rightarrow> byte list option" where
  "put_at off x buf = (if off + length x \<le> length buf
     then Some (take off buf @ x @ drop (off + length x) buf) else None)"

named_theorems buf_simps

lemma put_at_0 [buf_simps]: "length x \<le> length buf \<Longrightarrow> put_at 0 x buf = Some (x @ drop (length x) buf)"
  by (simp add: put_at_def)

lemma put_at_skip [buf_simps]:
  "length a \<le> off \<Longrightarrow> put_at off x (a @ buf) = map_option ((@) a) (put_at (off - length a) x buf)"
  by (auto simp: put_at_def)

lemma put_at_Cons [buf_simps]: "0 < off \<Longrightarrow> put_at off x (a # buf) = map_option ((#) a) (put_at (off - 1) x buf)"
  using put_at_skip [of "[a]" off x buf] by (cases "put_at (off - 1) x buf") simp_all

lemma put_at_inside: "off + length x \<le> length a \<Longrightarrow> put_at off x (a @ buf) = map_option (\<lambda>a. a @ buf) (put_at off x a)"
  by (simp add: put_at_def)

lemma put_at_in [buf_simps]:
  "off + length x \<le> length buf \<Longrightarrow> put_at off x buf = Some (take off buf @ x @ drop (off + length x) buf)"
  by (simp add: put_at_def)

lemma put_at_length: "put_at off x buf = Some buf' \<Longrightarrow> length buf' = length buf"
  by (auto simp: put_at_def split: if_splits)


section \<open>The routines of the source\<close>

fun sum_be16 :: "byte list \<Rightarrow> u32 \<Rightarrow> u32" where
  "sum_be16 (a # b # bs) ac = sum_be16 bs (ac + ucast (Uint16_be [a, b]))"
| "sum_be16 [a] ac = ac + push_bit 8 (ucast a)"
| "sum_be16 [] ac = ac"

lemma fold_carry_unat: "unat (drop_bit 16 ac + (ac AND 0xffff) :: u32) = unat ac div 65536 + unat ac mod 65536"
proof -
  have "ac AND 0xffff = take_bit 16 ac" by (simp add: take_bit_eq_mask mask_eq_exp_minus_1)
  then have m: "unat (ac AND 0xffff) = unat ac mod 65536" by (simp add: take_bit_eq_mod unat_mod_distrib)
  have d: "unat (drop_bit 16 ac) = unat ac div 65536"
    by (simp add: drop_bit_eq_div unat_div_distrib)
  have "unat ac < 2 ^ 32" using unsigned_less [of ac, where ?'a = nat] by simp
  then have "unat ac div 65536 + unat ac mod 65536 < 2 ^ 32" by (simp add: div_less_iff_less_mult)
  then show ?thesis using m d by (simp add: unat_word_ariths)
qed

function fold_carry :: "u32 \<Rightarrow> u32" where
  "fold_carry ac = (if 0 < drop_bit 16 ac then fold_carry (drop_bit 16 ac + (ac AND 0xffff)) else ac)"
  by auto

termination fold_carry
proof (relation "measure unat")
  fix ac :: u32
  assume "0 < drop_bit 16 ac"
  then have "0 < unat ac div 65536"
    by (simp add: word_less_nat_alt drop_bit_eq_div unat_div_distrib)
  then have "unat ac div 65536 + unat ac mod 65536 < unat ac"
    using div_mult_mod_eq [of "unat ac" 65536] by linarith
  then show "(drop_bit 16 ac + (ac AND 0xffff), ac) \<in> measure unat" by (simp add: fold_carry_unat)
qed simp

declare fold_carry.simps [simp del]

definition ip4Checksum :: "byte list \<Rightarrow> u16" where
  "ip4Checksum b = ucast (NOT (fold_carry (sum_be16 b 0)))"

definition checksumCombine :: "u16 \<Rightarrow> u16 \<Rightarrow> u16" where
  "checksumCombine a b = (let v = (ucast a + ucast b :: u32) in ucast (v + drop_bit 16 v))"

fun sum_pairs :: "byte list \<Rightarrow> u32 \<Rightarrow> u32" where
  "sum_pairs (a # b # bs) v = sum_pairs bs (v + (push_bit 8 (ucast a) + ucast b))"
| "sum_pairs _ v = v"

definition checksumBytes :: "byte list \<Rightarrow> u16 \<Rightarrow> u16" where
  "checksumBytes buf initial =
     (let v = (ucast initial :: u32);
          (v, buf) = (if length buf mod 2 = 1 then (v + ucast (hd buf), tl buf) else (v, buf));
          n = length buf;
          (v, n) = (if n mod 2 = 1 then (v + push_bit 8 (ucast (buf ! (n - 1))), n - 1) else (v, n));
          v = sum_pairs (take n buf) v in
      checksumCombine (ucast v) (ucast (drop_bit 16 v)))"


section \<open>The ones' complement sum\<close>

fun sum16 :: "byte list \<Rightarrow> nat" where
  "sum16 (a # b # bs) = unat a * 256 + unat b + sum16 bs"
| "sum16 [a] = unat a * 256"
| "sum16 [] = 0"

definition oc :: "nat \<Rightarrow> nat" where
  "oc n = (if n = 0 then 0 else (n - 1) mod 65535 + 1)"

lemma oc_le: "oc n \<le> 65535"
  using mod_less_divisor [of 65535 "n - 1"] by (simp add: oc_def del: mod_less_divisor)

lemma oc_small: "n \<le> 65535 \<Longrightarrow> oc n = n"
  by (simp add: oc_def)

lemma oc_add_mult: "0 < n \<Longrightarrow> oc (n + 65535 * a) = oc n"
proof -
  assume "0 < n"
  then have "n + 65535 * a - 1 = (n - 1) + 65535 * a" by simp
  then have "(n + 65535 * a - 1) mod 65535 = (n - 1) mod 65535" by (metis mod_mult_self2)
  with \<open>0 < n\<close> show ?thesis by (simp add: oc_def)
qed

lemma oc_carry: "oc (n div 65536 + n mod 65536) = oc n"
proof (cases "n = 0")
  case False
  have n: "n = (n div 65536 + n mod 65536) + 65535 * (n div 65536)"
    using div_mult_mod_eq [of n 65536] by linarith
  have "0 < n div 65536 + n mod 65536" using False n by linarith
  from oc_add_mult [OF this] n show ?thesis by metis
qed simp

lemma oc_decomp: obtains a where "n = oc n + 65535 * a"
proof (cases "n = 0")
  case True
  then show ?thesis using that [of 0] by (simp add: oc_def)
next
  case False
  have "n = ((n - 1) mod 65535 + 1) + 65535 * ((n - 1) div 65535)"
    using mult_div_mod_eq [of 65535 "n - 1"] False by linarith
  with False have "n = oc n + 65535 * ((n - 1) div 65535)" unfolding oc_def by simp
  then show ?thesis by (rule that)
qed

lemma oc_eq_0 [simp]: "oc n = 0 \<longleftrightarrow> n = 0"
  by (simp add: oc_def)

lemma oc_add_left: "oc (oc m + n) = oc (m + n)"
proof (cases "oc m + n = 0")
  case False
  obtain a where "m = oc m + 65535 * a" by (rule oc_decomp)
  then have "m + n = (oc m + n) + 65535 * a" by linarith
  with oc_add_mult [of "oc m + n" a] False show ?thesis by (metis gr0I)
qed (simp add: oc_def)

text \<open>The complement of a sum completes it to all ones.\<close>

lemma oc_complement: "oc (n + (65535 - oc n)) = 65535"
proof -
  obtain a where a: "n = oc n + 65535 * a" by (rule oc_decomp)
  have "n + (65535 - oc n) = 65535 + 65535 * a" using a oc_le [of n] by linarith
  then show ?thesis using oc_add_mult [of 65535 a] by (simp add: oc_small)
qed


section \<open>The routines compute it\<close>

lemma unat_fold_carry: "unat (fold_carry ac) = oc (unat ac)"
proof (induction ac rule: fold_carry.induct)
  case (1 ac)
  show ?case
  proof (cases "0 < drop_bit 16 ac")
    case True
    with 1 show ?thesis by (simp add: fold_carry.simps [of ac] fold_carry_unat oc_carry)
  next
    case False
    then have "unat ac div 65536 = 0" by (simp add: word_less_nat_alt drop_bit_eq_div unat_div_distrib)
    then have "unat ac \<le> 65535" by (simp add: div_eq_0_iff)
    with False show ?thesis by (simp add: fold_carry.simps [of ac] oc_small)
  qed
qed

lemma byte_le_255: "unat (a :: byte) \<le> 255"
  using byte_lt_256 [of a] by linarith

lemma sum16_bound: "2 * sum16 bs \<le> 65535 * (length bs + 1)"
proof (induction bs rule: sum16.induct)
  case (1 a b bs)
  with byte_le_255 [of a] byte_le_255 [of b] show ?case by simp
next
  case (2 a)
  with byte_le_255 [of a] show ?case by simp
qed simp

lemma sum16_append: "even (length xs) \<Longrightarrow> sum16 (xs @ ys) = sum16 xs + sum16 ys"
  by (induction xs rule: sum16.induct) auto

lemma unat_add32: "unat x + n < 2 ^ 32 \<Longrightarrow> unat y = n \<Longrightarrow> unat (x + y :: u32) = unat x + n"
  by (simp add: unat_word_ariths)

lemma unat_ucast_byte: "unat (ucast (a :: byte) :: u32) = unat a"
  using byte_le_255 [of a] by (simp add: unsigned_ucast_eq take_bit_eq_mod)

lemma unat_byte_shift: "unat (push_bit 8 (ucast (a :: byte)) :: u32) = unat a * 256"
proof -
  have "unat a * 256 < 4294967296" using byte_le_255 [of a] by linarith
  then show ?thesis by (simp add: push_bit_eq_mult unat_word_ariths unat_ucast_byte)
qed

lemma unat_ucast_u16: "unat (ucast (a :: u16) :: u32) = unat a"
proof -
  have "unat a < 65536" using unsigned_less [of a, where ?'a = nat] by simp
  then show ?thesis by (simp add: unsigned_ucast_eq take_bit_eq_mod)
qed

lemma unat_Uint16_pair: "unat (Uint16_be [a, b]) = unat a * 256 + unat b"
proof -
  have "unat a * 256 + unat b < 65536" using byte_le_255 [of a] byte_le_255 [of b] by linarith
  then show ?thesis by (simp add: Uint16_be_def be_nat_Cons unat_of_nat del: of_nat_add of_nat_mult)
qed

lemma unat_sum_be16: "unat ac + sum16 bs < 2 ^ 32 \<Longrightarrow> unat (sum_be16 bs ac) = unat ac + sum16 bs"
proof (induction bs ac rule: sum_be16.induct)
  case (1 a b bs ac)
  have "unat (ac + ucast (Uint16_be [a, b])) = unat ac + (unat a * 256 + unat b)"
    using 1(2) by (intro unat_add32) (simp_all add: unat_ucast_u16 unat_Uint16_pair)
  with 1 show ?case by simp
next
  case (2 a ac)
  then have "unat (ac + push_bit 8 (ucast a)) = unat ac + unat a * 256"
    by (intro unat_add32) (simp_all add: unat_byte_shift)
  then show ?case by simp
qed simp

lemma unat_sum_pairs:
  "even (length bs) \<Longrightarrow> unat v + sum16 bs < 2 ^ 32 \<Longrightarrow> unat (sum_pairs bs v) = unat v + sum16 bs"
proof (induction bs v rule: sum_pairs.induct)
  case (1 a b bs v)
  have "unat a * 256 + unat b < 2 ^ 32" using byte_le_255 [of a] byte_le_255 [of b] by simp
  then have "unat (push_bit 8 (ucast a) + ucast b :: u32) = unat a * 256 + unat b"
    using unat_add32 [of "push_bit 8 (ucast a)" "unat b" "ucast b"] by (simp add: unat_byte_shift unat_ucast_byte)
  then have "unat (v + (push_bit 8 (ucast a) + ucast b)) = unat v + (unat a * 256 + unat b)"
    using 1(3) by (intro unat_add32) simp_all
  with 1 show ?case by simp
qed auto

lemma unat_not16: "unat (NOT x :: u16) = 65535 - unat x"
proof -
  have "NOT x = -1 - x" by (simp add: not_eq_complement)
  moreover have "unat (-1 :: u16) = 65535" by (simp add: unsigned_minus_1_eq_mask mask_eq_exp_minus_1)
  ultimately show ?thesis using unat_sub [of x "-1"] by simp
qed

lemma unat_ip4Checksum:
  assumes "length bs \<le> 65535"
  shows "unat (ip4Checksum bs) = 65535 - oc (sum16 bs)"
proof -
  have "unat (sum_be16 bs 0) = sum16 bs" using unat_sum_be16 [of 0 bs] sum16_bound [of bs] assms by simp
  then have f: "unat (fold_carry (sum_be16 bs 0)) = oc (sum16 bs)" by (simp add: unat_fold_carry)
  have "ip4Checksum bs = NOT (ucast (fold_carry (sum_be16 bs 0)))"
    by (simp add: ip4Checksum_def) (simp add: bit_eq_iff bit_simps)
  moreover have "unat (ucast (fold_carry (sum_be16 bs 0)) :: u16) = oc (sum16 bs)"
    using f oc_le [of "sum16 bs"] by (simp add: unsigned_ucast_eq take_bit_eq_mod)
  ultimately show ?thesis by (simp add: unat_not16)
qed

lemma unat_checksumCombine: "unat (checksumCombine a b) = oc (unat a + unat b)"
proof -
  let ?n = "unat a + unat b" and ?v = "ucast a + ucast b :: u32"
  have n: "?n \<le> 131070" using unsigned_less [of a, where ?'a = nat] unsigned_less [of b, where ?'a = nat] by simp
  then have v: "unat ?v = ?n" using unat_add32 [of "ucast a" "unat b" "ucast b"] by (simp add: unat_ucast_u16)
  then have "unat (?v + drop_bit 16 ?v) = ?n + ?n div 65536"
    using n by (intro trans [OF unat_add32 [where n = "?n div 65536"]]) (simp_all add: drop_bit_eq_div unat_div_distrib)
  then have "unat (checksumCombine a b) = (?n + ?n div 65536) mod 65536"
    unfolding checksumCombine_def Let_def by (simp add: unsigned_ucast_eq take_bit_eq_mod)
  also have "\<dots> = oc ?n"
  proof (cases "?n < 65536")
    case True
    then show ?thesis by (simp add: oc_small)
  next
    case False
    with n have "?n div 65536 = 1" by linarith
    with False n have "(?n + ?n div 65536) mod 65536 = ?n + 1 - 65536" by (simp add: mod_if)
    also have "\<dots> = oc ?n"
      using False n oc_add_mult [of "?n - 65535" 1] oc_small [of "?n - 65535"] by simp
    finally show ?thesis .
  qed
  finally show ?thesis .
qed

lemma unat_combine_halves: "unat (checksumCombine (ucast v) (ucast (drop_bit 16 (v :: u32)))) = oc (unat v)"
proof -
  have "unat (ucast v :: u16) = unat v mod 65536" by (simp add: unsigned_ucast_eq take_bit_eq_mod)
  moreover have "unat (ucast (drop_bit 16 v) :: u16) = unat v div 65536"
  proof -
    have "unat v div 65536 < 65536" using unsigned_less [of v, where ?'a = nat] by (simp add: div_less_iff_less_mult)
    then show ?thesis by (simp add: unsigned_ucast_eq take_bit_eq_mod drop_bit_eq_div unat_div_distrib)
  qed
  ultimately show ?thesis using oc_carry [of "unat v"] by (simp add: unat_checksumCombine add.commute)
qed

text \<open>On an even number of bytes \<open>checksumBytes\<close> continues the reference sum.\<close>

lemma unat_checksumBytes:
  assumes "even (length bs)" and "length bs \<le> 65535"
  shows "unat (checksumBytes bs i) = oc (unat i + sum16 bs)"
proof -
  let ?v = "sum_pairs bs (ucast i)"
  have "unat i < 65536" using unsigned_less [of i, where ?'a = nat] by simp
  then have v: "unat ?v = unat i + sum16 bs"
    using unat_sum_pairs [of bs "ucast i"] sum16_bound [of bs] assms by (simp add: unat_ucast_u16)
  have "checksumBytes bs i = checksumCombine (ucast ?v) (ucast (drop_bit 16 ?v))"
    using assms(1) by (simp add: checksumBytes_def Let_def even_iff_mod_2_eq_zero)
  with v show ?thesis by (simp add: unat_combine_halves)
qed

text \<open>On an odd number it takes the first byte as the low half of a word and pairs the rest.\<close>

lemma unat_checksumBytes_odd:
  assumes "odd (length bs)" and "length bs \<le> 65535"
  shows "unat (checksumBytes bs i) = oc (unat i + unat (hd bs) + sum16 (tl bs))"
proof -
  let ?v = "sum_pairs (tl bs) (ucast i + ucast (hd bs))"
  have i: "unat i < 65536" using unsigned_less [of i, where ?'a = nat] by simp
  then have h: "unat (ucast i + ucast (hd bs) :: u32) = unat i + unat (hd bs)"
    using byte_le_255 [of "hd bs"] by (intro unat_add32 [THEN trans]) (simp_all add: unat_ucast_u16 unat_ucast_byte)
  have t: "even (length (tl bs))" "length (tl bs) \<le> 65535" using assms by simp_all
  have "unat ?v = unat i + unat (hd bs) + sum16 (tl bs)"
    using unat_sum_pairs [OF t(1)] h i byte_le_255 [of "hd bs"] sum16_bound [of "tl bs"] t(2) by simp
  moreover have "checksumBytes bs i = checksumCombine (ucast ?v) (ucast (drop_bit 16 ?v))"
    using assms(1) t(1) by (simp add: checksumBytes_def Let_def even_iff_mod_2_eq_zero odd_iff_mod_2_eq_one)
  ultimately show ?thesis by (simp add: unat_combine_halves)
qed


section \<open>Checksums in place\<close>

lemma sum16_PutUint16: "sum16 (PutUint16_be v @ bs) = unat v + sum16 bs"
proof -
  have "unat v < 65536" using unsigned_less [of v, where ?'a = nat] by simp
  moreover from this have "unat v div 256 < 256" by (simp add: div_less_iff_less_mult)
  ultimately show ?thesis by (simp add: PutUint16_be_def numeral_2_eq_2 unsigned_ucast_eq take_bit_eq_mod)
qed

text \<open>A buffer passes the receiver's check when its reduced sum is all ones.\<close>

definition checksum_ok :: "byte list \<Rightarrow> bool" where
  "checksum_ok bs \<longleftrightarrow> oc (sum16 bs) = 65535"

lemma checksum_ok_insert:
  assumes "even (length pre)" and "unat c = 65535 - oc (sum16 (pre @ [0, 0] @ post))"
  shows "checksum_ok (pre @ PutUint16_be c @ post)"
proof -
  have "sum16 (pre @ PutUint16_be c @ post) = sum16 (pre @ [0, 0] @ post) + unat c"
    using assms(1) by (simp add: sum16_append sum16_PutUint16)
  with assms(2) show ?thesis by (simp add: checksum_ok_def oc_complement)
qed

lemma checksum_ok_ip4Checksum:
  assumes "length bs \<le> 65535"
  shows "checksum_ok bs \<longleftrightarrow> ip4Checksum bs = 0"
  using unat_ip4Checksum [OF assms] oc_le [of "sum16 bs"]
  by (auto simp: checksum_ok_def unat_eq_0 [symmetric])

text \<open>A prefix that passes the check does not change the check of the rest.\<close>

lemma oc_ones_prefix:
  assumes "checksum_ok pre" and "0 < n"
  shows "oc (sum16 pre + n) = oc n"
proof -
  have "oc (sum16 pre + n) = oc (65535 + n)" using assms(1) oc_add_left [of "sum16 pre" n] by (simp add: checksum_ok_def)
  also have "\<dots> = oc n" using oc_add_mult [OF assms(2), of 1] by (simp add: add.commute)
  finally show ?thesis .
qed



text \<open>On an odd number of bytes \<open>checksumBytes\<close> takes the first byte as the low half of a word and pairs the
  rest from the second byte on, where RFC 1071 and \<open>ip4Checksum\<close> pad the last byte: the two differ.\<close>

lemma checksumBytes_odd_differs: "NOT (checksumBytes [1, 2, 3] 0) \<noteq> ip4Checksum [1, 2, 3]"
proof -
  have "unat (NOT (checksumBytes [1, 2, 3] 0)) = 65019" by (simp add: unat_not16 unat_checksumBytes_odd oc_def)
  moreover have "unat (ip4Checksum [1, 2, 3]) = 64509" by (simp add: unat_ip4Checksum oc_def)
  ultimately show ?thesis by auto
qed

end
