(* ===== verification/Headers.thy ===== *)
theory Headers
  imports Checksum
begin

text \<open>Writing packets: \<open>net/packet/header.go\<close>, \<open>ip4.go\<close>, \<open>ip6.go\<close>, \<open>udp4.go\<close>, \<open>udp6.go\<close>, \<open>icmp4.go\<close>,
  \<open>icmp6.go\<close> and the messages of \<open>tsmp.go\<close>.

  A \<open>Marshal\<close> method gets the buffer and returns its error, if any, with the buffer as it is left;
  \<open>None\<close> is a panic (an index out of range, or \<open>As4\<close> of an address that has no IPv4 form).  Callers that
  ignore the error keep the buffer.  The interface \<open>Header\<close> is the datatype \<open>header\<close> of its implementations.\<close>

datatype header_error = SmallBuffer | LargePacket | WrongFamily | BogusSrc

type_synonym marshalled = "(header_error option \<times> byte list) option"

abbreviation maxPacketLength :: nat where "maxPacketLength \<equiv> 65535"

text \<open>\<open>Addr.As4\<close>, which panics on the zero address and on an IPv6 address that is not IPv4-mapped.\<close>

fun As4 :: "addr \<Rightarrow> byte list option" where
  "As4 AddrZero = None"
| "As4 (AddrV4 w) = Some (nat_be 4 (unat w))"
| "As4 (AddrV6 w z) = (if Is4In6 (AddrV6 w z) then Some (nat_be 4 (unat (ucast w :: 32 word))) else None)"


section \<open>IPv4\<close>

definition ip4_Marshal :: "'a ip4_header_scheme \<Rightarrow> byte list \<Rightarrow> marshalled" where
  "ip4_Marshal h buf =
     (if length buf < ip4HeaderLength then Some (Some SmallBuffer, buf)
      else if maxPacketLength < length buf then Some (Some LargePacket, buf)
      else if \<not> Is4 (h4_Src h) \<or> \<not> Is4 (h4_Dst h) then Some (Some WrongFamily, buf)
      else do {
        buf \<leftarrow> put_at 0 [0x40 OR of_nat (ip4HeaderLength div 4)] buf;
        buf \<leftarrow> put_at 1 [0] buf;
        buf \<leftarrow> put_at 2 (PutUint16_be (of_nat (length buf))) buf;
        buf \<leftarrow> put_at 4 (PutUint16_be (h4_IPID h)) buf;
        buf \<leftarrow> put_at 6 (PutUint16_be 0) buf;
        buf \<leftarrow> put_at 8 [64] buf;
        buf \<leftarrow> put_at 9 [h4_IPProto h] buf;
        buf \<leftarrow> put_at 10 (PutUint16_be 0) buf;
        src \<leftarrow> As4 (h4_Src h);
        dst \<leftarrow> As4 (h4_Dst h);
        buf \<leftarrow> put_at 12 src buf;
        buf \<leftarrow> put_at 16 dst buf;
        hdr \<leftarrow> slc buf 0 20;
        buf \<leftarrow> put_at 10 (PutUint16_be (ip4Checksum hdr)) buf;
        Some (None, buf) })"

definition ip4_ToResponse :: "'a ip4_header_scheme \<Rightarrow> 'a ip4_header_scheme" where
  "ip4_ToResponse h = h \<lparr> h4_Src := h4_Dst h, h4_Dst := h4_Src h, h4_IPID := NOT (h4_IPID h) \<rparr>"

abbreviation ip4PseudoHeaderOffset :: nat where "ip4PseudoHeaderOffset \<equiv> 8"

definition ip4_marshalPseudo :: "'a ip4_header_scheme \<Rightarrow> byte list \<Rightarrow> marshalled" where
  "ip4_marshalPseudo h buf =
     (if length buf < ip4HeaderLength then Some (Some SmallBuffer, buf)
      else if maxPacketLength < length buf then Some (Some LargePacket, buf)
      else do {
        let len = length buf - ip4HeaderLength;
        src \<leftarrow> As4 (h4_Src h);
        dst \<leftarrow> As4 (h4_Dst h);
        buf \<leftarrow> put_at 8 src buf;
        buf \<leftarrow> put_at 12 dst buf;
        buf \<leftarrow> put_at 16 [0] buf;
        buf \<leftarrow> put_at 17 [h4_IPProto h] buf;
        buf \<leftarrow> put_at 18 (PutUint16_be (of_nat len)) buf;
        Some (None, buf) })"


section \<open>IPv6\<close>

definition ip6_Marshal :: "'a ip6_header_scheme \<Rightarrow> byte list \<Rightarrow> marshalled" where
  "ip6_Marshal h buf =
     (if length buf < ip6HeaderLength then Some (Some SmallBuffer, buf)
      else if maxPacketLength < length buf then Some (Some LargePacket, buf)
      else do {
        buf \<leftarrow> put_at 0 (PutUint32_be (h6_IPID h AND 0x000FFFFF)) buf;
        buf \<leftarrow> put_at 0 [0x60] buf;
        buf \<leftarrow> put_at 4 (PutUint16_be (of_nat (length buf - ip6HeaderLength))) buf;
        buf \<leftarrow> put_at 6 [h6_IPProto h] buf;
        buf \<leftarrow> put_at 7 [64] buf;
        buf \<leftarrow> put_at 8 (As16_bytes (h6_Src h)) buf;
        buf \<leftarrow> put_at 24 (As16_bytes (h6_Dst h)) buf;
        Some (None, buf) })"

definition ip6_ToResponse :: "'a ip6_header_scheme \<Rightarrow> 'a ip6_header_scheme" where
  "ip6_ToResponse h = h \<lparr> h6_Src := h6_Dst h, h6_Dst := h6_Src h, h6_IPID := NOT (h6_IPID h) AND 0x000FFFFF \<rparr>"

definition ip6_marshalPseudo :: "'a ip6_header_scheme \<Rightarrow> byte \<Rightarrow> byte list \<Rightarrow> marshalled" where
  "ip6_marshalPseudo h proto buf =
     (if length buf < ip6HeaderLength then Some (Some SmallBuffer, buf)
      else if maxPacketLength < length buf then Some (Some LargePacket, buf)
      else do {
        buf \<leftarrow> put_at 0 (As16_bytes (h6_Src h)) buf;
        buf \<leftarrow> put_at 16 (As16_bytes (h6_Dst h)) buf;
        buf \<leftarrow> put_at 32 (PutUint32_be (of_nat (length buf - ip6HeaderLength))) buf;
        buf \<leftarrow> put_at 36 [0] buf;
        buf \<leftarrow> put_at 37 [0] buf;
        buf \<leftarrow> put_at 38 [0] buf;
        buf \<leftarrow> put_at 39 [proto] buf;
        Some (None, buf) })"


section \<open>UDP\<close>

definition udp4_Marshal :: "udp4_header \<Rightarrow> byte list \<Rightarrow> marshalled" where
  "udp4_Marshal h0 buf =
     (if length buf < ip4HeaderLength + udpHeaderLength then Some (Some SmallBuffer, buf)
      else if maxPacketLength < length buf then Some (Some LargePacket, buf)
      else do {
        let h = h0 \<lparr> h4_IPProto := UDP \<rparr>;
        let len = length buf - ip4HeaderLength;
        buf \<leftarrow> put_at 20 (PutUint16_be (u4_SrcPort h)) buf;
        buf \<leftarrow> put_at 22 (PutUint16_be (u4_DstPort h)) buf;
        buf \<leftarrow> put_at 24 (PutUint16_be (of_nat len)) buf;
        buf \<leftarrow> put_at 26 (PutUint16_be 0) buf;
        (_, buf) \<leftarrow> ip4_marshalPseudo h buf;
        data \<leftarrow> slc buf ip4PseudoHeaderOffset (length buf);
        buf \<leftarrow> put_at 26 (PutUint16_be (ip4Checksum data)) buf;
        (_, buf) \<leftarrow> ip4_Marshal h buf;
        Some (None, buf) })"

definition udp4_ToResponse :: "udp4_header \<Rightarrow> udp4_header" where
  "udp4_ToResponse h = ip4_ToResponse (h \<lparr> u4_SrcPort := u4_DstPort h, u4_DstPort := u4_SrcPort h \<rparr>)"

record udp6_header = ip6_header +
  u6_SrcPort :: u16
  u6_DstPort :: u16

definition udp6_Marshal :: "udp6_header \<Rightarrow> byte list \<Rightarrow> marshalled" where
  "udp6_Marshal h0 buf =
     (if length buf < ip6HeaderLength + udpHeaderLength then Some (Some SmallBuffer, buf)
      else if maxPacketLength < length buf then Some (Some LargePacket, buf)
      else do {
        let h = h0 \<lparr> h6_IPProto := UDP \<rparr>;
        let len = length buf - ip6HeaderLength;
        buf \<leftarrow> put_at 40 (PutUint16_be (u6_SrcPort h)) buf;
        buf \<leftarrow> put_at 42 (PutUint16_be (u6_DstPort h)) buf;
        buf \<leftarrow> put_at 44 (PutUint16_be (of_nat len)) buf;
        buf \<leftarrow> put_at 46 (PutUint16_be 0) buf;
        (_, buf) \<leftarrow> ip6_marshalPseudo h UDP buf;
        buf \<leftarrow> put_at 46 (PutUint16_be (ip4Checksum buf)) buf;
        (_, buf) \<leftarrow> ip6_Marshal h buf;
        Some (None, buf) })"

definition udp6_ToResponse :: "udp6_header \<Rightarrow> udp6_header" where
  "udp6_ToResponse h = ip6_ToResponse (h \<lparr> u6_SrcPort := u6_DstPort h, u6_DstPort := u6_SrcPort h \<rparr>)"


section \<open>ICMP\<close>

definition icmp4_Marshal :: "icmp4_header \<Rightarrow> byte list \<Rightarrow> marshalled" where
  "icmp4_Marshal h0 buf =
     (if length buf < ip4HeaderLength + icmp4HeaderLength then Some (Some SmallBuffer, buf)
      else if maxPacketLength < length buf then Some (Some LargePacket, buf)
      else do {
        let h = h0 \<lparr> h4_IPProto := ICMPv4 \<rparr>;
        buf \<leftarrow> put_at 20 [i4_Type h] buf;
        buf \<leftarrow> put_at 21 [i4_Code h] buf;
        (_, buf) \<leftarrow> ip4_Marshal h buf;
        buf \<leftarrow> put_at 22 (PutUint16_be (ip4Checksum buf)) buf;
        Some (None, buf) })"

definition icmp4_ToResponse :: "icmp4_header \<Rightarrow> icmp4_header" where
  "icmp4_ToResponse h = ip4_ToResponse (h \<lparr> i4_Type := ICMP4EchoReply, i4_Code := 0 \<rparr>)"

definition icmp6_Marshal :: "icmp6_header \<Rightarrow> byte list \<Rightarrow> marshalled" where
  "icmp6_Marshal h0 buf =
     (if length buf < ip6HeaderLength + icmp6HeaderLength then Some (Some SmallBuffer, buf)
      else if maxPacketLength < length buf then Some (Some LargePacket, buf)
      else do {
        let h = h0 \<lparr> h6_IPProto := ICMPv6 \<rparr>;
        (_, buf) \<leftarrow> ip6_Marshal h buf;
        buf \<leftarrow> put_at (ip6HeaderLength + 0) [i6_Type h] buf;
        buf \<leftarrow> put_at (ip6HeaderLength + 1) [i6_Code h] buf;
        buf \<leftarrow> put_at (ip6HeaderLength + 2) [0] buf;
        buf \<leftarrow> put_at (ip6HeaderLength + 3) [0] buf;
        Some (None, buf) })"

definition icmp6_ToResponse :: "icmp6_header \<Rightarrow> icmp6_header" where
  "icmp6_ToResponse h = ip6_ToResponse (h \<lparr> i6_Type := ICMP6EchoReply, i6_Code := 0 \<rparr>)"

text \<open>The header is four bytes long; its checksum bytes count as zero.\<close>

definition icmp6Checksum :: "byte list \<Rightarrow> byte list \<Rightarrow> byte list \<Rightarrow> byte list \<Rightarrow> u16" where
  "icmp6Checksum hdr src dst payload =
     (let xsum = checksumBytes src 0;
          xsum = checksumBytes dst xsum;
          xsum = checksumBytes (PutUint32_be (of_nat (length hdr + length payload))) xsum;
          xsum = checksumBytes [0, 0, 0, ICMPv6] xsum;
          xsum = checksumBytes payload xsum;
          hdrz = (take icmp6HeaderLength hdr @ replicate (icmp6HeaderLength - length hdr) 0)[2 := 0, 3 := 0] in
      NOT (checksumBytes hdrz xsum))"

definition icmp6_WriteChecksum :: "icmp6_header \<Rightarrow> byte list \<Rightarrow> byte list option" where
  "icmp6_WriteChecksum h p = do {
     let payOff = ip6HeaderLength + icmp6HeaderLength;
     hdr \<leftarrow> slc p ip6HeaderLength payOff;
     payload \<leftarrow> slc p payOff (length p);
     put_at (ip6HeaderLength + 2)
       (PutUint16_be (icmp6Checksum hdr (As16_bytes (h6_Src h)) (As16_bytes (h6_Dst h)) payload)) p }"


section \<open>TSMP messages\<close>

record rejected_header =
  r_IPSrc :: addr
  r_IPDst :: addr
  r_Src :: addrport
  r_Dst :: addrport
  r_Proto :: byte
  r_Reason :: byte
  r_MaybeBroken :: bool

abbreviation TSMPTypeRejectedConn :: byte where "TSMPTypeRejectedConn \<equiv> 0x21"
abbreviation TSMPTypePing :: byte where "TSMPTypePing \<equiv> 0x70"
abbreviation TSMPTypePong :: byte where "TSMPTypePong \<equiv> 0x6f"
abbreviation TSMPTypeDiscoAdvertisement :: byte where "TSMPTypeDiscoAdvertisement \<equiv> 0x61"
abbreviation rejectFlagBitMaybeBroken :: byte where "rejectFlagBitMaybeBroken \<equiv> 1"

definition hasFlags :: "rejected_header \<Rightarrow> bool" where "hasFlags h = r_MaybeBroken h"

definition rejected_Len :: "rejected_header \<Rightarrow> nat" where
  "rejected_Len h = 1 + 1 + 1 + 2 * 2
     + (if Is4 (r_IPSrc h) then ip4HeaderLength else if Is6 (r_IPSrc h) then ip6HeaderLength else 0)
     + (if hasFlags h then 1 else 0)"

text \<open>The message after the IP header, which ends at \<open>off\<close>.\<close>

definition rejected_body :: "rejected_header \<Rightarrow> nat \<Rightarrow> byte list \<Rightarrow> marshalled" where
  "rejected_body h off buf = do {
     _ \<leftarrow> slc buf off (length buf);
     buf \<leftarrow> put_at (off + 0) [TSMPTypeRejectedConn] buf;
     buf \<leftarrow> put_at (off + 1) [r_Proto h] buf;
     buf \<leftarrow> put_at (off + 2) [r_Reason h] buf;
     buf \<leftarrow> put_at (off + 3) (PutUint16_be (ap_Port (r_Src h))) buf;
     buf \<leftarrow> put_at (off + 5) (PutUint16_be (ap_Port (r_Dst h))) buf;
     if hasFlags h then do {
       let flags = (if r_MaybeBroken h then 0 OR rejectFlagBitMaybeBroken else 0);
       buf \<leftarrow> put_at (off + 7) [flags] buf;
       Some (None, buf) }
     else Some (None, buf) }"

definition rejected_Marshal :: "rejected_header \<Rightarrow> byte list \<Rightarrow> marshalled" where
  "rejected_Marshal h buf =
     (if length buf < rejected_Len h then Some (Some SmallBuffer, buf)
      else if maxPacketLength < length buf then Some (Some LargePacket, buf)
      else if Is4 (ap_Addr (r_Src h)) then do {
        (_, buf) \<leftarrow> ip4_Marshal \<lparr> h4_IPProto = TSMP, h4_IPID = 0, h4_Src = r_IPSrc h, h4_Dst = r_IPDst h \<rparr> buf;
        rejected_body h ip4HeaderLength buf }
      else if Is6 (ap_Addr (r_Src h)) then do {
        (_, buf) \<leftarrow> ip6_Marshal \<lparr> h6_IPProto = TSMP, h6_IPID = 0, h6_Src = r_IPSrc h, h6_Dst = r_IPDst h \<rparr> buf;
        rejected_body h ip6HeaderLength buf }
      else Some (Some BogusSrc, buf))"


section \<open>The header interface\<close>

text \<open>\<open>HPong\<close> carries the IP header, eight data bytes and the peer API port.\<close>

datatype header = HIP4 ip4_header | HIP6 ip6_header | HUDP4 udp4_header | HUDP6 udp6_header
  | HICMP4 icmp4_header | HICMP6 icmp6_header | HRejected rejected_header | HPong header "byte list" u16

primrec hdr_Len :: "header \<Rightarrow> nat" where
  "hdr_Len (HIP4 _) = ip4HeaderLength"
| "hdr_Len (HIP6 _) = ip6HeaderLength"
| "hdr_Len (HUDP4 _) = ip4HeaderLength + udpHeaderLength"
| "hdr_Len (HUDP6 _) = ip6HeaderLength + udpHeaderLength"
| "hdr_Len (HICMP4 _) = ip4HeaderLength + icmp4HeaderLength"
| "hdr_Len (HICMP6 _) = ip6HeaderLength + icmp6HeaderLength"
| "hdr_Len (HRejected h) = rejected_Len h"
| "hdr_Len (HPong ip _ _) = hdr_Len ip + 11"

text \<open>\<open>TSMPPongReply.Marshal\<close>, over the IP header's length and \<open>Marshal\<close>.\<close>

definition pong_Marshal :: "nat \<Rightarrow> (byte list \<Rightarrow> marshalled) \<Rightarrow> byte list \<Rightarrow> u16 \<Rightarrow> byte list \<Rightarrow> marshalled" where
  "pong_Marshal ipLen ipMarshal data port buf =
     (if length buf < ipLen + 11 then Some (Some SmallBuffer, buf)
      else do {
        (err, buf) \<leftarrow> ipMarshal buf;
        case err of Some e \<Rightarrow> Some (Some e, buf) | None \<Rightarrow> do {
          buf \<leftarrow> put_at (ipLen + 0) [TSMPTypePong] buf;
          buf \<leftarrow> put_at (ipLen + 1) data buf;
          buf \<leftarrow> put_at (ipLen + 9) (PutUint16_be port) buf;
          Some (None, buf) } })"

primrec hdr_Marshal :: "header \<Rightarrow> byte list \<Rightarrow> marshalled" where
  "hdr_Marshal (HIP4 h) = ip4_Marshal h"
| "hdr_Marshal (HIP6 h) = ip6_Marshal h"
| "hdr_Marshal (HUDP4 h) = udp4_Marshal h"
| "hdr_Marshal (HUDP6 h) = udp6_Marshal h"
| "hdr_Marshal (HICMP4 h) = icmp4_Marshal h"
| "hdr_Marshal (HICMP6 h) = icmp6_Marshal h"
| "hdr_Marshal (HRejected h) = rejected_Marshal h"
| "hdr_Marshal (HPong ip data port) = pong_Marshal (hdr_Len ip) (hdr_Marshal ip) data port"

text \<open>Only the ICMPv6 header is a \<open>HeaderChecksummer\<close>.  The error of \<open>Marshal\<close> is ignored.\<close>

definition Generate :: "header \<Rightarrow> byte list \<Rightarrow> byte list option" where
  "Generate h payload = do {
     let hlen = hdr_Len h;
     (_, buf) \<leftarrow> hdr_Marshal h (replicate hlen 0 @ payload);
     case h of HICMP6 i \<Rightarrow> icmp6_WriteChecksum i buf | _ \<Rightarrow> Some buf }"

text \<open>A disco key is its 32 raw bytes.\<close>

record disco_adv =
  da_Src :: addr
  da_Dst :: addr
  da_Key :: "byte list"

definition disco_adv_Marshal :: "disco_adv \<Rightarrow> (nat + byte list) option" where
  "disco_adv_Marshal ka =
     (let iph = (if Is4 (da_Src ka)
                 then HIP4 \<lparr> h4_IPProto = TSMP, h4_IPID = 0, h4_Src = da_Src ka, h4_Dst = da_Dst ka \<rparr>
                 else HIP6 \<lparr> h6_IPProto = TSMP, h6_IPID = 0, h6_Src = da_Src ka, h6_Dst = da_Dst ka \<rparr>);
          payload = TSMPTypeDiscoAdvertisement # da_Key ka in
      if length payload \<noteq> 33 then Some (Inl (length payload))
      else map_option Inr (Generate iph payload))"


section \<open>Reading TSMP messages\<close>

text \<open>The inner option is the \<open>ok\<close> result; the outer \<open>None\<close> is a panic of \<open>Payload\<close>.\<close>

definition AsTailscaleRejectedHeader :: "parsed \<Rightarrow> rejected_header option option" where
  "AsTailscaleRejectedHeader pp = do {
     p \<leftarrow> Payload pp;
     if length p < 7 \<or> p ! 0 \<noteq> TSMPTypeRejectedConn then Some None
     else Some (Some \<lparr>
       r_IPSrc = ap_Addr (Src pp), r_IPDst = ap_Addr (Dst pp),
       r_Src = AddrPort (ap_Addr (Dst pp)) (Uint16_be (take 2 (drop 3 p))),
       r_Dst = AddrPort (ap_Addr (Src pp)) (Uint16_be (take 2 (drop 5 p))),
       r_Proto = p ! 1, r_Reason = p ! 2,
       r_MaybeBroken = (7 < length p \<and> p ! 7 AND rejectFlagBitMaybeBroken \<noteq> 0) \<rparr>) }"

definition AsTSMPPing :: "parsed \<Rightarrow> byte list option option" where
  "AsTSMPPing pp =
     (if IPProto pp \<noteq> TSMP then Some None
      else do {
        p \<leftarrow> Payload pp;
        if length p < 9 \<or> p ! 0 \<noteq> TSMPTypePing then Some None else Some (Some (take 8 (drop 1 p))) })"

text \<open>The data bytes and the peer API port, zero when it is not there.\<close>

definition AsTSMPPong :: "parsed \<Rightarrow> (byte list \<times> u16) option option" where
  "AsTSMPPong pp =
     (if IPProto pp \<noteq> TSMP then Some None
      else do {
        p \<leftarrow> Payload pp;
        if length p < 9 \<or> p ! 0 \<noteq> TSMPTypePong then Some None
        else Some (Some (take 8 (drop 1 p), if 11 \<le> length p then Uint16_be (drop 9 p) else 0)) })"

definition AsTSMPDiscoAdvertisement :: "parsed \<Rightarrow> disco_adv option option" where
  "AsTSMPDiscoAdvertisement pp =
     (if IPProto pp \<noteq> TSMP then Some None
      else do {
        p \<leftarrow> Payload pp;
        if length p < 33 \<or> p ! 0 \<noteq> TSMPTypeDiscoAdvertisement then Some None
        else Some (Some \<lparr> da_Src = ap_Addr (Src pp), da_Dst = ap_Addr (Dst pp), da_Key = take 32 (drop 1 p) \<rparr>) })"

end
