(* ===== verification/Geneve.thy ===== *)
theory Geneve
  imports Headers
begin

text \<open>The Geneve header of relayed packets: \<open>net/packet/geneve.go\<close>.\<close>

type_synonym vni = u32

abbreviation vniSetMask :: u32 where "vniSetMask \<equiv> 0xFF000000"
abbreviation vniGetMask :: u32 where "vniGetMask \<equiv> NOT vniSetMask"
abbreviation GeneveFixedHeaderLength :: nat where "GeneveFixedHeaderLength \<equiv> 8"

definition vni_IsSet :: "vni \<Rightarrow> bool" where "vni_IsSet v \<longleftrightarrow> v AND vniSetMask \<noteq> 0"
definition vni_Set :: "u32 \<Rightarrow> vni" where "vni_Set v = v OR vniSetMask"
definition vni_Get :: "vni \<Rightarrow> u32" where "vni_Get v = v AND vniGetMask"

record geneve_header =
  g_Version :: byte
  g_Protocol :: u16
  g_VNI :: vni
  g_Control :: bool

datatype geneve_error = ErrShortBuffer | ErrGeneveVNIUnset | BadVersion

text \<open>The error or the buffer with the header in it; \<open>None\<close> is a panic.\<close>

definition geneve_Encode :: "geneve_header \<Rightarrow> byte list \<Rightarrow> (geneve_error + byte list) option" where
  "geneve_Encode h b =
     (if length b < GeneveFixedHeaderLength then Some (Inl ErrShortBuffer)
      else if \<not> vni_IsSet (g_VNI h) then Some (Inl ErrGeneveVNIUnset)
      else if 3 < g_Version h then Some (Inl BadVersion)
      else do {
        b \<leftarrow> put_at 0 [0] b;
        b \<leftarrow> put_at 1 [0] b;
        b0 \<leftarrow> idx b 0;
        b \<leftarrow> put_at 0 [b0 OR push_bit 6 (g_Version h)] b;
        b1 \<leftarrow> idx b 1;
        b \<leftarrow> (if g_Control h then put_at 1 [b1 OR 0x80] b else Some b);
        b \<leftarrow> put_at 2 (PutUint16_be (g_Protocol h)) b;
        b \<leftarrow> put_at 4 (PutUint32_be (push_bit 8 (vni_Get (g_VNI h)))) b;
        Some (Inr b) })"

text \<open>\<open>Decode\<close> writes into an existing header.\<close>

definition geneve_Decode :: "geneve_header \<Rightarrow> byte list \<Rightarrow> (geneve_error + geneve_header) option" where
  "geneve_Decode h b =
     (if length b < GeneveFixedHeaderLength then Some (Inl ErrShortBuffer)
      else do {
        b0 \<leftarrow> idx b 0;
        let h = h \<lparr> g_Version := drop_bit 6 b0 \<rparr>;
        b1 \<leftarrow> idx b 1;
        let h = (if b1 AND 0x80 \<noteq> 0 then h \<lparr> g_Control := True \<rparr> else h);
        p \<leftarrow> slc b 2 (length b);
        let h = h \<lparr> g_Protocol := Uint16_be p \<rparr>;
        v \<leftarrow> slc b 4 (length b);
        Some (Inr (h \<lparr> g_VNI := vni_Set (drop_bit 8 (Uint32_be v)) \<rparr>)) })"

definition zero_geneve :: geneve_header where
  "zero_geneve = \<lparr> g_Version = 0, g_Protocol = 0, g_VNI = 0, g_Control = False \<rparr>"


section \<open>Lemmas\<close>

lemma vni_masks: "vniSetMask = NOT (mask 24)" "vniGetMask = mask 24"
  by (simp_all add: mask_eq_exp_minus_1)

lemma vni_Get_Set: "vni_Get (vni_Set v) = take_bit 24 v"
  unfolding vni_Get_def vni_Set_def vni_masks take_bit_eq_mask by (rule bit_word_eqI) (auto simp: bit_simps)

lemma vni_Set_take: "vni_Set (take_bit 24 v) = vni_Set v"
  unfolding vni_Set_def vni_masks take_bit_eq_mask by (rule bit_word_eqI) (auto simp: bit_simps)

lemma vni_IsSet_Set [simp]: "vni_IsSet (vni_Set v)"
proof -
  have "bit (vni_Set v AND vniSetMask) 31" unfolding vni_Set_def vni_masks by (simp add: bit_simps)
  then show ?thesis unfolding vni_IsSet_def by (metis bit_0_eq bot_apply bot_bool_def)
qed

lemma vni_shift: "drop_bit 8 (push_bit 8 (take_bit 24 v)) = (take_bit 24 v :: u32)"
  by (rule bit_word_eqI) (auto simp: bit_simps)

lemma version_shift: "v \<le> 3 \<Longrightarrow> drop_bit 6 (push_bit 6 v :: byte) = v"
proof -
  assume "v \<le> 3"
  then have "unat v \<le> 3" by (simp add: word_le_nat_alt)
  then have "v = 0 \<or> v = 1 \<or> v = 2 \<or> v = 3" by (auto simp: word_unat_eq_iff)
  then show ?thesis by auto
qed

lemma geneve_Encode_bytes:
  assumes "8 \<le> length b" "vni_IsSet (g_VNI h)" "g_Version h \<le> 3"
  shows "geneve_Encode h b = Some (Inr ([push_bit 6 (g_Version h)] @ [if g_Control h then 0x80 else 0]
     @ PutUint16_be (g_Protocol h) @ PutUint32_be (push_bit 8 (vni_Get (g_VNI h))) @ drop 8 b))"
  using assms by (simp add: geneve_Encode_def put_at_0 put_at_Cons put_at_skip idx_def not_less)


section \<open>Properties\<close>

text \<open>A Geneve header is read back as written: encoding a header whose network identifier was set and whose
  version fits two bits into a buffer of at least eight bytes succeeds, leaves the bytes after the header
  alone, and decoding the buffer into a zero header gives the same header.\<close>

lemma geneve_roundtrip:
  assumes "8 \<le> length b" and "g_VNI h = vni_Set v" and "g_Version h \<le> 3"
  shows "\<exists>b'. geneve_Encode h b = Some (Inr b') \<and> length b' = length b \<and> drop 8 b' = drop 8 b
    \<and> geneve_Decode zero_geneve b' = Some (Inr h)"
proof -
  let ?b = "[push_bit 6 (g_Version h)] @ [if g_Control h then 0x80 else 0]
     @ PutUint16_be (g_Protocol h) @ PutUint32_be (push_bit 8 (vni_Get (g_VNI h))) @ drop 8 b"
  have "geneve_Encode h b = Some (Inr ?b)" using assms by (intro geneve_Encode_bytes) simp_all
  moreover have "geneve_Decode zero_geneve ?b = Some (Inr h)"
    using assms version_shift [OF assms(3)]
    by (cases h) (auto simp: geneve_Decode_def idx_def slc_def zero_geneve_def bytes_simps vni_Get_Set vni_shift vni_Set_take)
  ultimately show ?thesis using assms(1) by simp
qed

text \<open>\<open>Decode\<close> sets the control bit but never clears it: a reused header keeps it.\<close>

lemma geneve_Decode_keeps_control:
  assumes "8 \<le> length b" "g_Control h"
  shows "\<exists>h'. geneve_Decode h b = Some (Inr h') \<and> g_Control h'"
  using assms by (auto simp: geneve_Decode_def idx_def slc_def Let_def)

end
