(* ===== verification/CliParse.thy ===== *)
theory CliParse
  imports Tsaddr
begin

text \<open>The command line of \<open>tunnneji-tail\<close> (\<open>cmd/tunnneji-tail/cli/root.go\<close>): flags, port mappings, IP
  lists, and the translation of the arguments into tunnel groups.

  \<open>parseTunnelArgs\<close> is modelled in its phases: the scan of the arguments, the inheritance of the
  unnumbered group's settings, the coexistence check, the validation and the construction of the
  groups.  Every error message is a value of \<open>cli_error\<close>.  Two arguments stand for the environment:
  \<open>stat\<close> (whether \<open>os.Stat\<close> finds a file) and \<open>ord\<close>, the order in which Go's map iteration visits the
  keys of a group's entries (any permutation of them).  Go maps are association lists.\<close>

named_theorems cli_simps


section \<open>Flags\<close>

definition parseNumAndSub :: "string \<Rightarrow> int \<times> string" where
  "parseNumAndSub s =
     (if s = [] then (-1, [])
      else
        let i = length (takeWhile is_digit s) in
        if i = 0 then (-1, s)
        else case Atoi (take i s) of
          None \<Rightarrow> (-1, s)
        | Some num \<Rightarrow> if num < 0 then (-1, s) else (num, drop i s))"

definition parseFlag :: "string \<Rightarrow> string \<times> int \<times> string \<times> string" where
  "parseFlag arg =
     (if \<not> has_prefix arg ''-'' \<or> length arg < 2 then (arg, -1, [], [])
      else
        let s = drop 1 arg in
        if s ! 0 = CHR ''A'' \<or> s ! 0 = CHR ''P'' then
          (let baseChar = [s ! 0]; rest = drop 1 s in
           if rest = [] then (baseChar, -1, [], [])
           else
             let (dir, rest') = (if rest ! 0 = CHR ''S'' \<or> rest ! 0 = CHR ''C''
                                 then ([rest ! 0], drop 1 rest) else ([], rest));
                 (groupNum, sub) = parseNumAndSub rest' in
             (baseChar, groupNum, sub, dir))
        else
          let base = [s ! 0]; rest = drop 1 s; (groupNum, sub) = parseNumAndSub rest in
          (base, groupNum, sub, []))"


section \<open>Port mappings and hosts\<close>

definition trimBrackets :: "string \<Rightarrow> string" where
  "trimBrackets host =
     (if has_prefix host ''['' \<and> has_suffix host '']'' then take (length host - 2) (drop 1 host) else host)"

definition isBracketed :: "string \<Rightarrow> bool" where
  "isBracketed host \<longleftrightarrow> has_prefix host ''['' \<and> has_suffix host '']''"

datatype mapping_error =
    InvalidMapping string
  | InvalidPort string
  | MissingAddress string
  | NotBracketed string

definition parsePortMapping :: "string \<Rightarrow> mapping_error + (int \<times> string \<times> int)" where
  "parsePortMapping s =
     (case index_byte s CHR '':'' of
        None \<Rightarrow> Inl (InvalidMapping s)
      | Some first \<Rightarrow>
          (case Atoi (take first s) of
             None \<Rightarrow> Inl (InvalidPort (take first s))
           | Some p1 \<Rightarrow>
               let rest = drop (first + 1) s in
               if rest = [] then Inl (MissingAddress s)
               else (case SplitHostPort rest of
                   None \<Rightarrow>
                     if isBracketed rest then Inr (p1, trimBrackets rest, p1)
                     else if CHR '':'' \<in> set rest then Inl (NotBracketed s)
                     else Inr (p1, rest, p1)
                 | Some (host, port) \<Rightarrow>
                     (case Atoi port of
                        None \<Rightarrow> Inl (InvalidPort port)
                      | Some p2 \<Rightarrow> Inr (p1, trimBrackets host, p2)))))"

definition formatIP :: "128 word \<Rightarrow> string" where
  "formatIP ip = (if ip_To4 ip \<noteq> None then ip_String ip else ''['' @ ip_String ip @ '']'')"

text \<open>\<open>lookup\<close> is \<open>net.LookupHost\<close>, \<open>None\<close> for an error.\<close>

definition resolveHost :: "(string \<Rightarrow> string list option) \<Rightarrow> string \<Rightarrow> string" where
  "resolveHost lookup host =
     (let bare = trimBrackets host in
      case net_ParseIP bare of
        Some ip \<Rightarrow> formatIP ip
      | None \<Rightarrow>
          (case lookup bare of
             None \<Rightarrow> host
           | Some [] \<Rightarrow> host
           | Some (ip0 # _) \<Rightarrow> (case net_ParseIP ip0 of Some ip \<Rightarrow> formatIP ip | None \<Rightarrow> ip0)))"

text \<open>\<open>Inl\<close> carries the part that is neither a prefix nor an address.\<close>

definition parse_part :: "string \<Rightarrow> prefix list \<Rightarrow> string + prefix list" where
  "parse_part part prefixes =
     (if part = [] then Inr prefixes
      else case ParsePrefix part of
        Some pfx \<Rightarrow> Inr (prefixes @ [pfx])
      | None \<Rightarrow> (case ParseAddr part of
            None \<Rightarrow> Inl part
          | Some a \<Rightarrow> Inr (prefixes @ [PrefixFrom a (if Is6 a then 128 else 32)])))"

definition parseIPList :: "string \<Rightarrow> string + prefix list" where
  "parseIPList s = fold_res parse_part (split_byte CHR ''_'' s) []"


section \<open>The scan\<close>

record raw_entry =
  re_direction :: string
  re_mapping :: string

record raw_group =
  rg_authKey :: string
  rg_authKeySet :: bool
  rg_stateFile :: string
  rg_stateFileSet :: bool
  rg_hostname :: string
  rg_hostnameSet :: bool
  rg_entries :: "(string \<times> raw_entry list) list"
  rg_accepts :: "(string \<times> string) list"
  rg_passwords :: "(string \<times> string) list"

definition empty_group :: raw_group where
  "empty_group = \<lparr> rg_authKey = [], rg_authKeySet = False, rg_stateFile = [], rg_stateFileSet = False,
     rg_hostname = [], rg_hostnameSet = False, rg_entries = [], rg_accepts = [], rg_passwords = [] \<rparr>"

type_synonym raw_groups = "(int \<times> raw_group) list"

record scan =
  sc_raw :: raw_groups
  sc_lastAuthKey :: string
  sc_lastStateFile :: string
  sc_lastHostname :: string
  sc_inhPasswords :: "(string \<times> string) list"
  sc_inhAccepts :: "(string \<times> string) list"
  sc_debug :: bool

definition empty_scan :: scan where
  "empty_scan = \<lparr> sc_raw = [], sc_lastAuthKey = [], sc_lastStateFile = [], sc_lastHostname = [],
     sc_inhPasswords = [], sc_inhAccepts = [], sc_debug = False \<rparr>"

datatype cli_error =
    UnexpectedArgument string
  | UnknownFlag string
  | RequiresValue string
  | DuplicateK int
  | DuplicateT int
  | DuplicateTValue
  | DuplicateH int
  | ARequiresDirection
  | DuplicateA string string int
  | DuplicateP string string int
  | NoArguments
  | CannotCoexist
  | NoKeyOrState int
  | StateFileExists int string
  | MissingMappings int
  | StateFileNotFound int string
  | BadMapping int string string mapping_error
  | PortUsedTwice int int "string \<times> string" "string \<times> string"
  | BadAccept int string string
  | NoMappings

definition getGroup :: "int \<Rightarrow> raw_groups \<Rightarrow> raw_group" where
  "getGroup n raw = (case map_of raw n of Some g \<Rightarrow> g | None \<Rightarrow> empty_group)"

definition put_group :: "int \<Rightarrow> raw_group \<Rightarrow> scan \<Rightarrow> scan" where
  "put_group n g st = st \<lparr> sc_raw := AList.update n g (sc_raw st) \<rparr>"

definition entries_of :: "string \<Rightarrow> raw_group \<Rightarrow> raw_entry list" where
  "entries_of key g = (case map_of (rg_entries g) key of Some es \<Rightarrow> es | None \<Rightarrow> [])"

text \<open>One flag with its value.\<close>

definition flag_value ::
  "string \<Rightarrow> int \<Rightarrow> string \<Rightarrow> string \<Rightarrow> string \<Rightarrow> scan \<Rightarrow> cli_error + scan" where
  "flag_value flagName n sub dir v st =
     (let g = getGroup n (sc_raw st); key = dir @ sub in
      if flagName = ''K'' then
        (if rg_authKey g \<noteq> [] then Inl (DuplicateK n)
         else Inr ((put_group n (g \<lparr> rg_authKey := v, rg_authKeySet := True \<rparr>) st) \<lparr> sc_lastAuthKey := v \<rparr>))
      else if flagName = ''T'' then
        (if rg_stateFile g \<noteq> [] then Inl (DuplicateT n)
         else if sc_lastStateFile st \<noteq> [] \<and> v = sc_lastStateFile st then Inl DuplicateTValue
         else Inr ((put_group n (g \<lparr> rg_stateFile := v, rg_stateFileSet := True \<rparr>) st) \<lparr> sc_lastStateFile := v \<rparr>))
      else if flagName = ''H'' then
        (if rg_hostnameSet g then Inl (DuplicateH n)
         else let st' = put_group n (g \<lparr> rg_hostname := v, rg_hostnameSet := True \<rparr>) st in
              Inr (if n = -1 then st' \<lparr> sc_lastHostname := v \<rparr> else st'))
      else if flagName = ''S'' \<or> flagName = ''C'' then
        (let ekey = flagName @ sub in
         Inr (put_group n (g \<lparr> rg_entries := AList.update ekey
                (entries_of ekey g @ [\<lparr> re_direction = flagName, re_mapping = v \<rparr>]) (rg_entries g) \<rparr>) st))
      else if flagName = ''A'' then
        (if has_key (rg_accepts g) key then Inl (DuplicateA dir sub n)
         else let st' = put_group n (g \<lparr> rg_accepts := AList.update key v (rg_accepts g) \<rparr>) st in
              Inr (if n = -1 then st' \<lparr> sc_inhAccepts := AList.update key v (sc_inhAccepts st') \<rparr> else st'))
      else
        (if has_key (rg_passwords g) key then Inl (DuplicateP dir sub n)
         else let st' = put_group n (g \<lparr> rg_passwords := AList.update key v (rg_passwords g) \<rparr>) st in
              Inr (if n = -1 then st' \<lparr> sc_inhPasswords := AList.update key v (sc_inhPasswords st') \<rparr> else st')))"

fun scan_args :: "string list \<Rightarrow> scan \<Rightarrow> cli_error + scan" where
  "scan_args [] st = Inr st"
| "scan_args (arg # args) st =
     (if arg = ''-D'' then scan_args args (st \<lparr> sc_debug := True \<rparr>)
      else if \<not> has_prefix arg ''-'' then Inl (UnexpectedArgument arg)
      else
        let (flagName, n, sub, dir) = parseFlag arg in
        if flagName \<notin> set [''K'', ''S'', ''C'', ''T'', ''A'', ''P'', ''H''] then Inl (UnknownFlag arg)
        else if flagName = ''A'' \<and> dir = [] then Inl ARequiresDirection
        else case args of
          [] \<Rightarrow> Inl (RequiresValue flagName)
        | v # args' \<Rightarrow>
            (case flag_value flagName n sub dir v st of
               Inl e \<Rightarrow> Inl e
             | Inr st' \<Rightarrow> scan_args args' st'))"


section \<open>Inheritance and validation\<close>

text \<open>The numbers in ascending order, and the loops that change every group.\<close>

definition group_nums :: "raw_groups \<Rightarrow> int list" where "group_nums raw = sort (map fst raw)"

definition inherit_auth :: "scan \<Rightarrow> int \<Rightarrow> raw_group \<Rightarrow> raw_group" where
  "inherit_auth st n rg =
     (if n = 0 then
        let rg1 = (if rg_authKey rg = [] then rg \<lparr> rg_authKey := sc_lastAuthKey st \<rparr> else rg) in
        if rg_stateFile rg1 = [] then rg1 \<lparr> rg_stateFile := sc_lastStateFile st \<rparr> else rg1
      else rg)"

definition inherit_map :: "(string \<times> string) list \<Rightarrow> (string \<times> string) list \<Rightarrow> (string \<times> string) list" where
  "inherit_map inh m = fold (\<lambda>(key, v) m. if has_key m key then m else AList.update key v m) inh m"

definition inherit_group :: "scan \<Rightarrow> int \<Rightarrow> raw_group \<Rightarrow> raw_group" where
  "inherit_group st n rg0 =
     (let rg = inherit_auth st n rg0 in
      if n = -1 then rg
      else
        let rg1 = rg \<lparr> rg_passwords := inherit_map (sc_inhPasswords st) (rg_passwords rg),
                        rg_accepts := inherit_map (sc_inhAccepts st) (rg_accepts rg) \<rparr> in
        if sc_lastHostname st \<noteq> [] \<and> \<not> rg_hostnameSet rg1 then rg1 \<lparr> rg_hostname := sc_lastHostname st \<rparr>
        else rg1)"

definition inherit_all :: "scan \<Rightarrow> raw_groups" where
  "inherit_all st = map (\<lambda>n. (n, inherit_group st n (getGroup n (sc_raw st)))) (group_nums (sc_raw st))"

definition active :: "raw_group \<Rightarrow> bool" where
  "active rg \<longleftrightarrow> rg_entries rg \<noteq> [] \<or> rg_authKeySet rg \<or> rg_stateFileSet rg"

definition coexist_error :: "raw_groups \<Rightarrow> bool" where
  "coexist_error raw \<longleftrightarrow>
     (case map_of raw (-1) of Some rg \<Rightarrow> active rg | None \<Rightarrow> False)
     \<and> list_ex (\<lambda>(n, rg). 0 \<le> n \<and> active rg) raw"

definition validate_group :: "(string \<Rightarrow> bool) \<Rightarrow> int \<Rightarrow> raw_group \<Rightarrow> cli_error + raw_group" where
  "validate_group stat n rg0 =
     (if n = -1 \<and> rg_entries rg0 = [] then Inr rg0
      else
        let groupExists =
          (if 0 < n then rg_authKeySet rg0 \<or> rg_stateFileSet rg0 \<or> rg_authKey rg0 \<noteq> [] \<or> rg_stateFile rg0 \<noteq> []
           else rg_authKeySet rg0 \<or> rg_stateFileSet rg0 \<or> rg_entries rg0 \<noteq> []) in
        if \<not> groupExists then Inl (NoKeyOrState n)
        else if rg_authKeySet rg0 \<and> rg_stateFileSet rg0 \<and> stat (rg_stateFile rg0)
        then Inl (StateFileExists n (rg_stateFile rg0))
        else
          let rg = (if rg_stateFile rg0 = [] then rg0 \<lparr> rg_stateFile := ''ttstate.json'' \<rparr> else rg0) in
          if rg_entries rg = [] then Inl (MissingMappings n)
          else if rg_authKey rg = [] \<and> \<not> rg_stateFileSet rg \<and> \<not> stat (rg_stateFile rg)
          then Inl (StateFileNotFound n (rg_stateFile rg))
          else if rg_authKey rg = [] \<and> rg_stateFileSet rg \<and> \<not> stat (rg_stateFile rg)
          then Inl (StateFileNotFound n (rg_stateFile rg))
          else Inr rg)"

fun validate_all :: "(string \<Rightarrow> bool) \<Rightarrow> raw_groups \<Rightarrow> cli_error + raw_groups" where
  "validate_all stat [] = Inr []"
| "validate_all stat ((n, rg) # raw) =
     bind_res (validate_group stat n rg) (\<lambda>rg'.
     bind_res (validate_all stat raw) (\<lambda>raw'. Inr ((n, rg') # raw')))"


section \<open>The tunnel groups\<close>

record port_entry =
  IsServer :: bool
  ListenPort :: int
  TargetAddr :: string
  TargetPort :: int
  pe_Accept :: "prefix list"
  Password :: string

record tunnel_group =
  AuthKey :: string
  StateFile :: string
  Hostname :: string
  Ports :: "(string \<times> port_entry) list"
  DropICMP :: bool

text \<open>The first of the keys that is present.\<close>

fun first_key :: "(string \<times> 'v) list \<Rightarrow> string list \<Rightarrow> (string \<times> 'v) option" where
  "first_key m [] = None"
| "first_key m (k # ks) = (case map_of m k of Some v \<Rightarrow> Some (k, v) | None \<Rightarrow> first_key m ks)"

definition lookup_accept :: "int \<Rightarrow> raw_group \<Rightarrow> string \<Rightarrow> string \<Rightarrow> cli_error + prefix list" where
  "lookup_accept n rg dir sub =
     (case first_key (rg_accepts rg) [dir @ sub, dir] of
        None \<Rightarrow> Inr []
      | Some (key, ipStr) \<Rightarrow>
          (case parseIPList ipStr of
             Inl part \<Rightarrow> Inl (BadAccept n key part)
           | Inr prefixes \<Rightarrow> Inr prefixes))"

definition lookup_password :: "raw_group \<Rightarrow> string \<Rightarrow> string \<Rightarrow> string" where
  "lookup_password rg dir sub =
     (case first_key (rg_passwords rg) [dir @ sub, dir, sub, []] of None \<Rightarrow> [] | Some (_, pass) \<Rightarrow> pass)"

definition normalize_addr :: "string \<Rightarrow> string" where
  "normalize_addr addr = (case net_ParseIP (trimBrackets addr) of Some ip \<Rightarrow> formatIP ip | None \<Rightarrow> addr)"

type_synonym used_ports = "(string \<times> (string \<times> string)) list"

definition build_entry ::
  "int \<Rightarrow> raw_group \<Rightarrow> string \<times> raw_entry \<Rightarrow> used_ports \<times> (string \<times> port_entry) list
     \<Rightarrow> cli_error + (used_ports \<times> (string \<times> port_entry) list)" where
  "build_entry n rg = (\<lambda>(sub, entry) (used, ports).
     case parsePortMapping (re_mapping entry) of
       Inl err \<Rightarrow> Inl (BadMapping n (re_direction entry) sub err)
     | Inr (listenPort, addr, targetPort) \<Rightarrow>
         let dir = re_direction entry; portKey = dir @ show_int listenPort in
         case map_of used portKey of
           Some first \<Rightarrow> Inl (PortUsedTwice n listenPort first (dir, sub))
         | None \<Rightarrow>
             bind_res (lookup_accept n rg dir sub) (\<lambda>acc.
             Inr (AList.update portKey (dir, sub) used,
                  AList.update (dir @ sub @ show_int listenPort)
                    \<lparr> IsServer = (dir = ''S''), ListenPort = listenPort, TargetAddr = normalize_addr addr,
                      TargetPort = targetPort, pe_Accept = acc, Password = lookup_password rg dir sub \<rparr> ports)))"

text \<open>The entries of a group in the order of iteration, each with the sub identifier of its key.\<close>

definition group_entries :: "(int \<Rightarrow> string list \<Rightarrow> string list) \<Rightarrow> int \<Rightarrow> raw_group \<Rightarrow> (string \<times> raw_entry) list" where
  "group_entries ord n rg =
     concat (map (\<lambda>key. map (Pair (drop 1 key)) (entries_of key rg)) (ord n (map fst (rg_entries rg))))"

definition drop_icmp :: "(string \<times> port_entry) list \<Rightarrow> bool" where
  "drop_icmp ports =
     (let pes = map snd ports;
          hasServerPorts = list_ex IsServer pes;
          allServerPassworded = list_all (\<lambda>pe. IsServer pe \<longrightarrow> Password pe \<noteq> []) pes in
      \<not> hasServerPorts \<or> allServerPassworded)"

definition build_group ::
  "(int \<Rightarrow> string list \<Rightarrow> string list) \<Rightarrow> int \<Rightarrow> raw_group \<Rightarrow> cli_error + tunnel_group" where
  "build_group ord n rg =
     bind_res (fold_res (build_entry n rg) (group_entries ord n rg) ([], [])) (\<lambda>(used, ports).
     Inr \<lparr> AuthKey = rg_authKey rg, StateFile = rg_stateFile rg, Hostname = rg_hostname rg,
           Ports = ports, DropICMP = drop_icmp ports \<rparr>)"

fun build_all :: "(int \<Rightarrow> string list \<Rightarrow> string list) \<Rightarrow> raw_groups \<Rightarrow> cli_error + tunnel_group list" where
  "build_all ord [] = Inr []"
| "build_all ord ((n, rg) # raw) =
     (if rg_entries rg = [] then build_all ord raw
      else
        bind_res (build_group ord n rg) (\<lambda>g.
        bind_res (build_all ord raw) (\<lambda>gs. Inr (g # gs))))"

definition parseTunnelArgs ::
  "(string \<Rightarrow> bool) \<Rightarrow> (int \<Rightarrow> string list \<Rightarrow> string list) \<Rightarrow> string list \<Rightarrow> cli_error + tunnel_group list" where
  "parseTunnelArgs stat ord args =
     bind_res (scan_args args empty_scan) (\<lambda>st.
     if sc_raw st = [] then Inl NoArguments
     else
       let raw = inherit_all st in
       if coexist_error raw then Inl CannotCoexist
       else
         bind_res (validate_all stat raw) (\<lambda>raw'.
         bind_res (build_all ord raw') (\<lambda>groups.
         if groups = [] then Inl NoMappings else Inr groups)))"


section \<open>Flags and mappings: lemmas\<close>

text \<open>The text of a group number, empty for none, and its value.\<close>

definition num_text :: "nat option \<Rightarrow> string" where
  "num_text num = (case num of None \<Rightarrow> [] | Some n \<Rightarrow> show_nat n)"

definition num_val :: "nat option \<Rightarrow> int" where
  "num_val num = (case num of None \<Rightarrow> -1 | Some n \<Rightarrow> int n)"

definition num_ok :: "nat option \<Rightarrow> bool" where
  "num_ok num \<longleftrightarrow> (case num of None \<Rightarrow> True | Some n \<Rightarrow> n < 2 ^ 63)"

definition is_lower :: "char \<Rightarrow> bool" where
  "is_lower c \<longleftrightarrow> (97 :: nat) \<le> of_char c \<and> (of_char c :: nat) \<le> 122"

lemma lower_not_digit: "is_lower c \<Longrightarrow> \<not> is_digit c"
  by (simp add: is_lower_def is_digit_def)

lemma lower_not_dir: "is_lower c \<Longrightarrow> c \<noteq> CHR ''S'' \<and> c \<noteq> CHR ''C''"
  by (auto simp: is_lower_def)

lemma digit_not_dir: "is_digit c \<Longrightarrow> c \<noteq> CHR ''S'' \<and> c \<noteq> CHR ''C''"
  by (auto simp: is_digit_def)

lemma takeWhile_digits:
  "list_all is_digit ds \<Longrightarrow> sub = [] \<or> \<not> is_digit (hd sub) \<Longrightarrow> takeWhile is_digit (ds @ sub) = ds"
  by (cases sub) (auto simp: list_all_iff takeWhile_append2)

lemma parseNumAndSub_text [cli_simps]:
  assumes "list_all is_lower sub" "num_ok num"
  shows "parseNumAndSub (num_text num @ sub) = (num_val num, sub)"
proof -
  have sub: "sub = [] \<or> \<not> is_digit (hd sub)" using assms(1) by (cases sub) (auto simp: lower_not_digit)
  show ?thesis
  proof (cases num)
    case None
    with takeWhile_digits [of "[]" sub] sub show ?thesis
      by (auto simp: parseNumAndSub_def num_text_def num_val_def Let_def)
  next
    case (Some n)
    with assms(2) have "Atoi (show_nat n) = Some (int n)" by (simp add: num_ok_def Atoi_show_nat)
    with Some takeWhile_digits [OF show_nat_digits sub, of n] show ?thesis
      by (simp add: parseNumAndSub_def num_text_def num_val_def Let_def)
  qed
qed

lemma num_text_head:
  assumes "list_all is_lower sub" "num_text num @ sub \<noteq> []"
  shows "(num_text num @ sub) ! 0 \<noteq> CHR ''S'' \<and> (num_text num @ sub) ! 0 \<noteq> CHR ''C''"
proof (cases num)
  case None
  with assms show ?thesis by (cases sub) (auto simp: num_text_def lower_not_dir)
next
  case (Some n)
  with show_nat_digits [of n] show ?thesis
    by (cases "show_nat n") (auto simp: num_text_def digit_not_dir)
qed

lemma Atoi_nat: "0 \<le> p \<Longrightarrow> p < 2 ^ 63 \<Longrightarrow> Atoi (show_int p) = Some p"
  using Atoi_show_nat [of "nat p"] by (simp add: show_int_def nat_less_iff)

lemma show_int_nat_chars: "0 \<le> p \<Longrightarrow> \<not> is_digit c \<Longrightarrow> c \<notin> set (show_int p)"
  by (simp add: show_int_def)

lemma parsePortMapping_split:
  assumes "0 \<le> p" "p < 2 ^ 63" "rest \<noteq> []"
  shows "parsePortMapping (show_int p @ CHR '':'' # rest) =
     (case SplitHostPort rest of
        None \<Rightarrow> if isBracketed rest then Inr (p, trimBrackets rest, p)
                else if CHR '':'' \<in> set rest then Inl (NotBracketed (show_int p @ CHR '':'' # rest))
                else Inr (p, rest, p)
      | Some (host, port) \<Rightarrow> (case Atoi port of None \<Rightarrow> Inl (InvalidPort port)
          | Some p2 \<Rightarrow> Inr (p, trimBrackets host, p2)))"
proof -
  have "index_byte (show_int p @ CHR '':'' # rest) CHR '':'' = Some (length (show_int p))"
    using assms(1) by (intro index_byte_hit) (simp add: show_int_nat_chars)
  with assms show ?thesis by (simp add: parsePortMapping_def Atoi_nat Let_def)
qed

definition plain_host :: "string \<Rightarrow> bool" where
  "plain_host h \<longleftrightarrow> h \<noteq> [] \<and> CHR '':'' \<notin> set h \<and> CHR ''['' \<notin> set h \<and> CHR '']'' \<notin> set h"

definition ip6_host :: "string \<Rightarrow> bool" where
  "ip6_host h \<longleftrightarrow> CHR ''['' \<notin> set h \<and> CHR '']'' \<notin> set h"

lemma trimBrackets_plain: "CHR ''['' \<notin> set h \<Longrightarrow> trimBrackets h = h"
  by (cases h) (auto simp: trimBrackets_def has_prefix_def)

lemma trimBrackets_wrap: "trimBrackets (''['' @ h @ '']'') = h"
proof -
  have "has_suffix (CHR ''['' # h @ '']'') '']''" unfolding golib_simps by (intro exI [of _ "CHR ''['' # h"]) simp
  then show ?thesis by (simp add: trimBrackets_def has_prefix_def)
qed

lemma isBracketed_wrap: "isBracketed (''['' @ h @ '']'')"
  unfolding isBracketed_def golib_simps by (auto intro: exI [of _ "CHR ''['' # h"])

lemma SplitHostPort_wrap_only:
  assumes "ip6_host h"
  shows "SplitHostPort (''['' @ h @ '']'') = None"
proof -
  have "index_byte ((''['' @ h) @ CHR '']'' # []) (CHR '']'') = Some (length (''['' @ h))"
    by (rule index_byte_hit) (use assms in \<open>simp add: ip6_host_def\<close>)
  then show ?thesis by (simp add: SplitHostPort_def has_prefix_def split: option.split)
qed


section \<open>Properties of flags and mappings\<close>

text \<open>Every flag of the documented form is read back as written: \<open>-A\<close> and \<open>-P\<close> with an optional
  direction, and \<open>-K\<close>, \<open>-T\<close>, \<open>-H\<close>, \<open>-S\<close>, \<open>-C\<close> without one, followed by an optional group number below
  two to the 63 and a sub identifier of lower-case letters, give back exactly the base, the number (-1 for
  none), the sub identifier and the direction.\<close>

lemma parseFlag_roundtrip:
  assumes "list_all is_lower sub" and "num_ok num"
    and "base \<in> {CHR ''A'', CHR ''P''} \<and> dir \<in> {[], ''S'', ''C''}
       \<or> base \<in> {CHR ''K'', CHR ''T'', CHR ''H'', CHR ''S'', CHR ''C''} \<and> dir = []"
  shows "parseFlag (''-'' @ base # dir @ num_text num @ sub) = ([base], num_val num, sub, dir)"
proof (cases "base \<in> {CHR ''A'', CHR ''P''}")
  case False
  with assms parseNumAndSub_text [OF assms(1,2)] show ?thesis
    by (auto simp: parseFlag_def has_prefix_def Let_def)
next
  case True
  show ?thesis
  proof (cases "dir @ num_text num @ sub = []")
    case empty: True
    then have "num = None" by (cases num) (auto simp: num_text_def)
    with empty True show ?thesis by (auto simp: parseFlag_def has_prefix_def Let_def num_val_def)
  next
    case nonempty: False
    from True assms(3) have "dir \<in> {[], ''S'', ''C''}" by auto
    with nonempty True num_text_head [OF assms(1), of num] parseNumAndSub_text [OF assms(1,2)] show ?thesis
      by (auto simp: parseFlag_def has_prefix_def Let_def)
  qed
qed

text \<open>C18: Every mapping of the documented forms is read back as written: \<open>port:host:port\<close>,
  \<open>port:[ipv6]:port\<close>, and the shorthands \<open>port:host\<close> and \<open>port:[ipv6]\<close>, whose target port is the
  listen port; brackets are dropped.\<close>

theorem parsePortMapping_roundtrip:
  assumes "0 \<le> p" "p < 2 ^ 63" "0 \<le> q" "q < 2 ^ 63"
  shows "(plain_host h \<longrightarrow> parsePortMapping (show_int p @ '':'' @ h @ '':'' @ show_int q) = Inr (p, h, q)
            \<and> parsePortMapping (show_int p @ '':'' @ h) = Inr (p, h, p))
       \<and> (ip6_host h \<longrightarrow> parsePortMapping (show_int p @ '':'' @ ''['' @ h @ '']'' @ '':'' @ show_int q) = Inr (p, h, q)
            \<and> parsePortMapping (show_int p @ '':'' @ ''['' @ h @ '']'') = Inr (p, h, p))"
proof (intro conjI impI)
  assume h: "plain_host h"
  have "SplitHostPort (h @ CHR '':'' # show_int q) = Some (h, show_int q)"
    using h assms(3) by (intro SplitHostPort_plain) (auto simp: plain_host_def show_int_nat_chars)
  with h assms show "parsePortMapping (show_int p @ '':'' @ h @ '':'' @ show_int q) = Inr (p, h, q)"
    using parsePortMapping_split [OF assms(1,2), of "h @ '':'' @ show_int q"]
    by (simp add: Atoi_nat trimBrackets_plain plain_host_def)
  have "\<not> isBracketed h" using h by (auto simp: isBracketed_def golib_simps plain_host_def)
  with h show "parsePortMapping (show_int p @ '':'' @ h) = Inr (p, h, p)"
    using parsePortMapping_split [OF assms(1,2), of h] by (simp add: plain_host_def SplitHostPort_no_colon)
next
  assume h: "ip6_host h"
  have "SplitHostPort (''['' @ h @ '']:'' @ show_int q) = Some (h, show_int q)"
    using h assms(3) by (intro SplitHostPort_bracket) (auto simp: ip6_host_def show_int_nat_chars)
  with h show "parsePortMapping (show_int p @ '':'' @ ''['' @ h @ '']'' @ '':'' @ show_int q) = Inr (p, h, q)"
    using parsePortMapping_split [OF assms(1,2), of "''['' @ h @ '']:'' @ show_int q"] assms
    by (simp add: Atoi_nat trimBrackets_plain ip6_host_def)
  show "parsePortMapping (show_int p @ '':'' @ ''['' @ h @ '']'') = Inr (p, h, p)"
    using parsePortMapping_split [OF assms(1,2), of "''['' @ h @ '']''"] SplitHostPort_wrap_only [OF h]
      isBracketed_wrap [of h] trimBrackets_wrap [of h] by simp
qed

theorem parsePortMapping_roundtrip_witness:
  "parsePortMapping ''8080:[::1]:80'' = Inr (8080, ''::1'', 80) \<and> parsePortMapping ''8080:db'' = Inr (8080, ''db'', 8080)"
proof -
  have "show_int 8080 = ''8080''" "show_int 80 = ''80''" by code_simp+
  then show ?thesis
    using parsePortMapping_roundtrip [of 8080 80 "''::1''"] parsePortMapping_roundtrip [of 8080 80 "''db''"]
    by (simp add: ip6_host_def plain_host_def)
qed


lemma SplitHostPort_colons:
  assumes "CHR '':'' \<in> set a" "CHR '':'' \<notin> set b" "CHR ''['' \<notin> set a"
  shows "SplitHostPort (a @ CHR '':'' # b) = None"
proof -
  have "\<not> has_prefix (a @ CHR '':'' # b) ''[''" using assms by (cases a) (auto simp: has_prefix_def)
  with assms show ?thesis by (simp add: SplitHostPort_def last_index_byte_hit)
qed

lemma parsePortMapping_errs:
  shows "CHR '':'' \<notin> set s \<longrightarrow> parsePortMapping s = Inl (InvalidMapping s)"
    and "CHR '':'' \<notin> set l \<and> Atoi l = None \<longrightarrow> parsePortMapping (l @ '':'' @ rest) = Inl (InvalidPort l)"
    and "0 \<le> p \<and> p < 2 ^ 63 \<longrightarrow> parsePortMapping (show_int p @ '':'') = Inl (MissingAddress (show_int p @ '':''))"
    and "0 \<le> p \<and> p < 2 ^ 63 \<and> CHR '':'' \<in> set a \<and> CHR ''['' \<notin> set a \<and> CHR '':'' \<notin> set b \<longrightarrow>
      parsePortMapping (show_int p @ '':'' @ a @ '':'' @ b) = Inl (NotBracketed (show_int p @ '':'' @ a @ '':'' @ b))"
    and "0 \<le> p \<and> p < 2 ^ 63 \<and> plain_host h \<and> CHR '':'' \<notin> set b \<and> CHR ''['' \<notin> set b \<and> CHR '']'' \<notin> set b \<and> Atoi b = None \<longrightarrow>
      parsePortMapping (show_int p @ '':'' @ h @ '':'' @ b) = Inl (InvalidPort b)"
proof -
  show "CHR '':'' \<notin> set s \<longrightarrow> parsePortMapping s = Inl (InvalidMapping s)"
    by (simp add: parsePortMapping_def index_byte_def)
  show "CHR '':'' \<notin> set l \<and> Atoi l = None \<longrightarrow> parsePortMapping (l @ '':'' @ rest) = Inl (InvalidPort l)"
    by (simp add: parsePortMapping_def index_byte_hit)
  show "0 \<le> p \<and> p < 2 ^ 63 \<longrightarrow> parsePortMapping (show_int p @ '':'') = Inl (MissingAddress (show_int p @ '':''))"
    using index_byte_hit [of "CHR '':''" "show_int p" "[]"]
    by (simp add: parsePortMapping_def show_int_nat_chars Atoi_nat Let_def)
  show "0 \<le> p \<and> p < 2 ^ 63 \<and> CHR '':'' \<in> set a \<and> CHR ''['' \<notin> set a \<and> CHR '':'' \<notin> set b \<longrightarrow>
      parsePortMapping (show_int p @ '':'' @ a @ '':'' @ b) = Inl (NotBracketed (show_int p @ '':'' @ a @ '':'' @ b))"
  proof
    assume a: "0 \<le> p \<and> p < 2 ^ 63 \<and> CHR '':'' \<in> set a \<and> CHR ''['' \<notin> set a \<and> CHR '':'' \<notin> set b"
    then have "\<not> isBracketed (a @ CHR '':'' # b)" by (cases a) (auto simp: isBracketed_def has_prefix_def)
    with a show "parsePortMapping (show_int p @ '':'' @ a @ '':'' @ b) = Inl (NotBracketed (show_int p @ '':'' @ a @ '':'' @ b))"
      using parsePortMapping_split [of p "a @ CHR '':'' # b"] by (simp add: SplitHostPort_colons)
  qed
  show "0 \<le> p \<and> p < 2 ^ 63 \<and> plain_host h \<and> CHR '':'' \<notin> set b \<and> CHR ''['' \<notin> set b \<and> CHR '']'' \<notin> set b \<and> Atoi b = None \<longrightarrow>
      parsePortMapping (show_int p @ '':'' @ h @ '':'' @ b) = Inl (InvalidPort b)"
    using parsePortMapping_split [of p "h @ CHR '':'' # b"] by (auto simp: plain_host_def SplitHostPort_plain)
qed

text \<open>C19: Malformed mappings are errors, each with its own: a mapping without a colon, a listen port
  that is not a decimal number, an empty address, an IPv6 address without brackets (at least two
  colons after the listen port), and a target port that is not a number.\<close>

theorem parsePortMapping_errors:
  "(CHR '':'' \<notin> set s \<longrightarrow> parsePortMapping s = Inl (InvalidMapping s))
   \<and> (CHR '':'' \<notin> set l \<and> Atoi l = None \<longrightarrow> parsePortMapping (l @ '':'' @ rest) = Inl (InvalidPort l))
   \<and> (0 \<le> p \<and> p < 2 ^ 63 \<longrightarrow> parsePortMapping (show_int p @ '':'') = Inl (MissingAddress (show_int p @ '':'')))
   \<and> (0 \<le> p \<and> p < 2 ^ 63 \<and> CHR '':'' \<in> set a \<and> CHR ''['' \<notin> set a \<and> CHR '':'' \<notin> set b \<longrightarrow>
      parsePortMapping (show_int p @ '':'' @ a @ '':'' @ b) = Inl (NotBracketed (show_int p @ '':'' @ a @ '':'' @ b)))
   \<and> (0 \<le> p \<and> p < 2 ^ 63 \<and> plain_host h \<and> CHR '':'' \<notin> set b \<and> CHR ''['' \<notin> set b \<and> CHR '']'' \<notin> set b \<and> Atoi b = None \<longrightarrow>
      parsePortMapping (show_int p @ '':'' @ h @ '':'' @ b) = Inl (InvalidPort b))"
  by (intro conjI parsePortMapping_errs)

theorem parsePortMapping_errors_witness:
  "parsePortMapping ''80'' = Inl (InvalidMapping ''80'') \<and> parsePortMapping ''x:h'' = Inl (InvalidPort ''x'')
   \<and> parsePortMapping ''80:'' = Inl (MissingAddress ''80:'')
   \<and> parsePortMapping ''80:::1:81'' = Inl (NotBracketed ''80:::1:81'') \<and> parsePortMapping ''80:h:q'' = Inl (InvalidPort ''q'')"
proof -
  have "show_int 80 = ''80''" "Atoi ''x'' = None" "Atoi ''q'' = None" by code_simp+
  then show ?thesis
    using parsePortMapping_errors [of "''80''" "''x''" "''h''" 80 "''::1''" "''81''" "''h''"]
      parsePortMapping_errors [of "[]" "[]" "[]" 80 "[]" "''q''" "''h''"]
    by (simp add: plain_host_def)
qed

end
