(* ===== verification/CliArgs.thy ===== *)
theory CliArgs
  imports CliParse
begin

text \<open>From the arguments to the tunnel groups: what \<open>parseTunnelArgs\<close> makes of a command line.

  The scan is related to the list of flag-value pairs of the command line by an invariant; the later
  phases are followed by what they keep of a group.  The properties at the end state the result in
  terms of the arguments themselves.\<close>


section \<open>The arguments as flag-value pairs\<close>

fun flag_pairs :: "string list \<Rightarrow> (string \<times> string) list" where
  "flag_pairs [] = []"
| "flag_pairs (arg # args) =
     (if arg = ''-D'' then flag_pairs args
      else case args of [] \<Rightarrow> [] | v # args' \<Rightarrow> (arg, v) # flag_pairs args')"

text \<open>The settings \<open>-P\<close> or \<open>-A\<close> gives a group, by direction and sub identifier.\<close>

definition settings :: "string \<Rightarrow> int \<Rightarrow> (string \<times> string) list \<Rightarrow> (string \<times> string) list" where
  "settings base n ps = concat (map (\<lambda>(f, v).
     case parseFlag f of (b, m, sub, dir) \<Rightarrow> if b = base \<and> m = n then [(dir @ sub, v)] else []) ps)"

text \<open>The entries \<open>-S\<close> or \<open>-C\<close> give a group: direction, sub identifier and mapping.\<close>

definition mapping_arg :: "(string \<times> string) list \<Rightarrow> int \<Rightarrow> string \<Rightarrow> string \<Rightarrow> string \<Rightarrow> bool" where
  "mapping_arg ps n dir sub m \<longleftrightarrow> dir \<in> {''S'', ''C''}
     \<and> (\<exists>f. (f, m) \<in> set ps \<and> (\<exists>d. parseFlag f = (dir, n, sub, d)))"

definition scan_inv :: "(string \<times> string) list \<Rightarrow> scan \<Rightarrow> bool" where
  "scan_inv ps st \<longleftrightarrow>
     (\<forall>n k. map_of (rg_passwords (getGroup n (sc_raw st))) k = map_of (settings ''P'' n ps) k)
   \<and> (\<forall>n k. map_of (rg_accepts (getGroup n (sc_raw st))) k = map_of (settings ''A'' n ps) k)
   \<and> (\<forall>k. map_of (sc_inhPasswords st) k = map_of (settings ''P'' (-1) ps) k)
   \<and> (\<forall>k. map_of (sc_inhAccepts st) k = map_of (settings ''A'' (-1) ps) k)
   \<and> (\<forall>n key e. e \<in> set (entries_of key (getGroup n (sc_raw st)))
        \<longrightarrow> (\<exists>sub. key = re_direction e @ sub \<and> mapping_arg ps n (re_direction e) sub (re_mapping e)))
   \<and> (\<forall>n dir sub m. mapping_arg ps n dir sub m
        \<longrightarrow> \<lparr> re_direction = dir, re_mapping = m \<rparr> \<in> set (entries_of (dir @ sub) (getGroup n (sc_raw st))))
   \<and> distinct (map fst (sc_raw st))
   \<and> (\<forall>n. distinct (map fst (rg_entries (getGroup n (sc_raw st))))
        \<and> (\<forall>es \<in> snd ` set (rg_entries (getGroup n (sc_raw st))). es \<noteq> []))"

lemma mapping_arg_code [code]:
  "mapping_arg ps n dir sub m \<longleftrightarrow> (dir = ''S'' \<or> dir = ''C'')
     \<and> list_ex (\<lambda>(f, v). v = m \<and> (case parseFlag f of (b, k, s, _) \<Rightarrow> b = dir \<and> k = n \<and> s = sub)) ps"
proof -
  have "(case parseFlag f of (b, k, s, _) \<Rightarrow> b = dir \<and> k = n \<and> s = sub) \<longleftrightarrow> (\<exists>d. parseFlag f = (dir, n, sub, d))" for f
    by (cases "parseFlag f") auto
  then show ?thesis by (auto simp: mapping_arg_def list_ex_iff)
qed

text \<open>The sub identifiers of a group's mappings are lower-case words; the passwords are not empty.\<close>

definition clean_subs :: "int \<Rightarrow> (string \<times> string) list \<Rightarrow> bool" where
  "clean_subs n ps \<longleftrightarrow> list_all (\<lambda>(f, v). case parseFlag f of (b, k, s, _) \<Rightarrow>
     k = n \<and> (b = ''S'' \<or> b = ''C'') \<longrightarrow> list_all is_lower s) ps"

definition passwords_given :: "(string \<times> string) list \<Rightarrow> bool" where
  "passwords_given ps \<longleftrightarrow> list_all (\<lambda>(f, v). fst (parseFlag f) = ''P'' \<longrightarrow> v \<noteq> []) ps"

lemma clean_subs_mapping: "clean_subs n ps \<Longrightarrow> mapping_arg ps n d s m \<Longrightarrow> list_all is_lower s"
  unfolding clean_subs_def mapping_arg_def list_all_iff [of _ ps] by force

lemma getGroup_put [simp]:
  "getGroup m (sc_raw (put_group n g st)) = (if m = n then g else getGroup m (sc_raw st))"
  by (simp add: getGroup_def put_group_def)

lemma put_group_simps [simp]:
  "sc_lastAuthKey (put_group n g st) = sc_lastAuthKey st" "sc_lastStateFile (put_group n g st) = sc_lastStateFile st"
  "sc_inhPasswords (put_group n g st) = sc_inhPasswords st" "sc_inhAccepts (put_group n g st) = sc_inhAccepts st"
  "sc_lastHostname (put_group n g st) = sc_lastHostname st"
  "distinct (map fst (sc_raw st)) \<Longrightarrow> distinct (map fst (sc_raw (put_group n g st)))"
  by (simp_all add: put_group_def)

lemma settings_snoc:
  assumes "parseFlag f = (b, m, sub, dir)"
  shows "settings base n (ps @ [(f, v)]) = settings base n ps @ (if b = base \<and> m = n then [(dir @ sub, v)] else [])"
  using assms by (simp add: settings_def)

lemma mapping_arg_snoc:
  assumes "parseFlag f = (b, m, sub, dir)"
  shows "mapping_arg (ps @ [(f, v)]) n d s mp \<longleftrightarrow>
    mapping_arg ps n d s mp \<or> d \<in> {''S'', ''C''} \<and> b = d \<and> m = n \<and> s = sub \<and> mp = v"
  using assms by (auto simp: mapping_arg_def)

text \<open>One flag keeps the invariant, by the kind of flag.\<close>

lemma set_update_distinct:
  "distinct (map fst m) \<Longrightarrow> set (AList.update k v m) = insert (k, v) {x \<in> set m. fst x \<noteq> k}"
  by (induction m) (force split: if_splits)+

lemma set_update_subset: "set (AList.update k v m) \<subseteq> insert (k, v) (set m)"
  by (induction m) auto


definition flag_names :: "string list" where "flag_names = [''K'', ''S'', ''C'', ''T'', ''A'', ''P'', ''H'']"

lemma flag_name_cases:
  assumes "b \<in> set flag_names"
  obtains "b = ''K''" | "b = ''T''" | "b = ''H''" | "b = ''S'' \<or> b = ''C''" | "b = ''A''" | "b = ''P''"
  using assms by (auto simp: flag_names_def)

text \<open>The flags one by one, so that the lemmas below do not compare names again.\<close>

lemma flag_value_K: "flag_value ''K'' n sub dir v st = (let g = getGroup n (sc_raw st) in
    if rg_authKey g \<noteq> [] then Inl (DuplicateK n)
    else Inr ((put_group n (g \<lparr> rg_authKey := v, rg_authKeySet := True \<rparr>) st) \<lparr> sc_lastAuthKey := v \<rparr>))"
  and flag_value_T: "flag_value ''T'' n sub dir v st = (let g = getGroup n (sc_raw st) in
    if rg_stateFile g \<noteq> [] then Inl (DuplicateT n)
    else if sc_lastStateFile st \<noteq> [] \<and> v = sc_lastStateFile st then Inl DuplicateTValue
    else Inr ((put_group n (g \<lparr> rg_stateFile := v, rg_stateFileSet := True \<rparr>) st) \<lparr> sc_lastStateFile := v \<rparr>))"
  and flag_value_H: "flag_value ''H'' n sub dir v st = (let g = getGroup n (sc_raw st) in
    if rg_hostnameSet g then Inl (DuplicateH n)
    else let st' = put_group n (g \<lparr> rg_hostname := v, rg_hostnameSet := True \<rparr>) st in
         Inr (if n = -1 then st' \<lparr> sc_lastHostname := v \<rparr> else st'))"
  and flag_value_SC: "b = ''S'' \<or> b = ''C'' \<Longrightarrow> flag_value b n sub dir v st = (let g = getGroup n (sc_raw st); ekey = b @ sub in
    Inr (put_group n (g \<lparr> rg_entries := AList.update ekey
           (entries_of ekey g @ [\<lparr> re_direction = b, re_mapping = v \<rparr>]) (rg_entries g) \<rparr>) st))"
  and flag_value_A: "flag_value ''A'' n sub dir v st = (let g = getGroup n (sc_raw st); key = dir @ sub in
    if has_key (rg_accepts g) key then Inl (DuplicateA dir sub n)
    else let st' = put_group n (g \<lparr> rg_accepts := AList.update key v (rg_accepts g) \<rparr>) st in
         Inr (if n = -1 then st' \<lparr> sc_inhAccepts := AList.update key v (sc_inhAccepts st') \<rparr> else st'))"
  and flag_value_P: "flag_value ''P'' n sub dir v st = (let g = getGroup n (sc_raw st); key = dir @ sub in
    if has_key (rg_passwords g) key then Inl (DuplicateP dir sub n)
    else let st' = put_group n (g \<lparr> rg_passwords := AList.update key v (rg_passwords g) \<rparr>) st in
         Inr (if n = -1 then st' \<lparr> sc_inhPasswords := AList.update key v (sc_inhPasswords st') \<rparr> else st'))"
  by (auto simp: flag_value_def Let_def)

lemmas flag_value_simps = flag_value_K flag_value_T flag_value_H flag_value_SC flag_value_A flag_value_P Let_def

lemma flag_value_passwords:
  assumes "flag_value b n sub dir v st = Inr st'" "b \<in> set flag_names"
  shows "map_of (rg_passwords (getGroup m (sc_raw st'))) k =
      (if b = ''P'' \<and> m = n \<and> k = dir @ sub then Some v else map_of (rg_passwords (getGroup m (sc_raw st))) k)"
    and "b = ''P'' \<Longrightarrow> map_of (rg_passwords (getGroup n (sc_raw st))) (dir @ sub) = None"
    and "map_of (sc_inhPasswords st') k = (if b = ''P'' \<and> n = -1 \<and> k = dir @ sub then Some v else map_of (sc_inhPasswords st) k)"
  by (use assms(2) in \<open>cases rule: flag_name_cases\<close>; use assms(1) in \<open>auto simp: flag_value_simps split: if_splits\<close>)+

lemma flag_value_accepts:
  assumes "flag_value b n sub dir v st = Inr st'" "b \<in> set flag_names"
  shows "map_of (rg_accepts (getGroup m (sc_raw st'))) k =
      (if b = ''A'' \<and> m = n \<and> k = dir @ sub then Some v else map_of (rg_accepts (getGroup m (sc_raw st))) k)"
    and "b = ''A'' \<Longrightarrow> map_of (rg_accepts (getGroup n (sc_raw st))) (dir @ sub) = None"
    and "map_of (sc_inhAccepts st') k = (if b = ''A'' \<and> n = -1 \<and> k = dir @ sub then Some v else map_of (sc_inhAccepts st) k)"
  by (use assms(2) in \<open>cases rule: flag_name_cases\<close>; use assms(1) in \<open>auto simp: flag_value_simps split: if_splits\<close>)+

lemma flag_value_entries:
  assumes "flag_value b n sub dir v st = Inr st'" "b \<in> set flag_names"
  shows "rg_entries (getGroup m (sc_raw st')) =
      (if (b = ''S'' \<or> b = ''C'') \<and> m = n
       then AList.update (b @ sub) (entries_of (b @ sub) (getGroup n (sc_raw st)) @ [\<lparr> re_direction = b, re_mapping = v \<rparr>])
              (rg_entries (getGroup n (sc_raw st)))
       else rg_entries (getGroup m (sc_raw st)))"
    and "distinct (map fst (sc_raw st)) \<Longrightarrow> distinct (map fst (sc_raw st'))"
  by (use assms(2) in \<open>cases rule: flag_name_cases\<close>; use assms(1) in \<open>auto simp: flag_value_simps split: if_splits\<close>)+

lemma flag_value_entries_of:
  assumes "flag_value b n sub dir v st = Inr st'" "b \<in> set flag_names"
  shows "entries_of key (getGroup m (sc_raw st')) = entries_of key (getGroup m (sc_raw st))
    @ (if (b = ''S'' \<or> b = ''C'') \<and> m = n \<and> key = b @ sub then [\<lparr> re_direction = b, re_mapping = v \<rparr>] else [])"
  using flag_value_entries(1) [OF assms, of m] by (auto simp: entries_of_def split: option.split)

lemma scan_invD:
  assumes "scan_inv ps st"
  shows "map_of (rg_passwords (getGroup n (sc_raw st))) k = map_of (settings ''P'' n ps) k"
    and "map_of (rg_accepts (getGroup n (sc_raw st))) k = map_of (settings ''A'' n ps) k"
    and "map_of (sc_inhPasswords st) k = map_of (settings ''P'' (-1) ps) k"
    and "map_of (sc_inhAccepts st) k = map_of (settings ''A'' (-1) ps) k"
    and "e \<in> set (entries_of key (getGroup n (sc_raw st)))
        \<Longrightarrow> \<exists>sub. key = re_direction e @ sub \<and> mapping_arg ps n (re_direction e) sub (re_mapping e)"
    and "mapping_arg ps n dir sub m
        \<Longrightarrow> \<lparr> re_direction = dir, re_mapping = m \<rparr> \<in> set (entries_of (dir @ sub) (getGroup n (sc_raw st)))"
    and "distinct (map fst (sc_raw st))"
    and "distinct (map fst (rg_entries (getGroup n (sc_raw st))))"
    and "x \<in> set (rg_entries (getGroup n (sc_raw st))) \<Longrightarrow> snd x \<noteq> []"
  using assms by (auto simp: scan_inv_def)

lemma scan_inv_step:
  assumes inv: "scan_inv ps st" and fv: "flag_value b n sub dir v st = Inr st'" and b: "b \<in> set flag_names"
    and f: "parseFlag f = (b, n, sub, dir)"
  shows "scan_inv (ps @ [(f, v)]) st'"
proof -
  note pw = flag_value_passwords [OF fv b] and ac = flag_value_accepts [OF fv b]
    and en = flag_value_entries [OF fv b] and eo = flag_value_entries_of [OF fv b]
    and i = scan_invD [OF inv]
  have "map_of (rg_passwords (getGroup m (sc_raw st'))) k = map_of (settings ''P'' m (ps @ [(f, v)])) k" for m k
    using pw(2) unfolding pw(1) settings_snoc [OF f] i(1) by (auto simp: map_add_def split: option.split)
  moreover have "map_of (rg_accepts (getGroup m (sc_raw st'))) k = map_of (settings ''A'' m (ps @ [(f, v)])) k" for m k
    using ac(2) unfolding ac(1) settings_snoc [OF f] i(2) by (auto simp: map_add_def split: option.split)
  moreover have "map_of (sc_inhPasswords st') k = map_of (settings ''P'' (-1) (ps @ [(f, v)])) k" for k
    using pw(2) unfolding pw(3) settings_snoc [OF f] i(1,3) by (auto simp: map_add_def split: option.split)
  moreover have "map_of (sc_inhAccepts st') k = map_of (settings ''A'' (-1) (ps @ [(f, v)])) k" for k
    using ac(2) unfolding ac(3) settings_snoc [OF f] i(2,4) by (auto simp: map_add_def split: option.split)
  moreover have "\<exists>s. key = re_direction e @ s \<and> mapping_arg (ps @ [(f, v)]) m (re_direction e) s (re_mapping e)"
    if "e \<in> set (entries_of key (getGroup m (sc_raw st')))" for m key e
  proof -
    from that have "e \<in> set (entries_of key (getGroup m (sc_raw st)))
        \<or> (b = ''S'' \<or> b = ''C'') \<and> m = n \<and> key = b @ sub \<and> e = \<lparr> re_direction = b, re_mapping = v \<rparr>"
      unfolding eo by (auto split: if_splits)
    then show ?thesis unfolding mapping_arg_snoc [OF f] using i(5) [of e key m] by (elim disjE) (blast, auto)
  qed
  moreover have "\<lparr> re_direction = d, re_mapping = mp \<rparr> \<in> set (entries_of (d @ s) (getGroup m (sc_raw st')))"
    if "mapping_arg (ps @ [(f, v)]) m d s mp" for m d s mp
    using that i(6) [of m d s mp] unfolding eo mapping_arg_snoc [OF f] by auto
  moreover have "distinct (map fst (sc_raw st'))" using i(7) en(2) by simp
  moreover have "distinct (map fst (rg_entries (getGroup m (sc_raw st'))))" for m
    using i(8) unfolding en(1) by simp
  moreover have "snd x \<noteq> []" if "x \<in> set (rg_entries (getGroup m (sc_raw st')))" for m x
    using that i(9) [of x m] unfolding en(1) by (auto split: if_splits dest!: subsetD [OF set_update_subset])
  ultimately show ?thesis unfolding scan_inv_def by auto
qed

lemma scan_inv_empty: "scan_inv [] empty_scan"
  by (simp add: scan_inv_def empty_scan_def getGroup_def empty_group_def settings_def mapping_arg_def entries_of_def)

lemma scan_args_inv:
  "scan_inv ps st \<Longrightarrow> scan_args args st = Inr st' \<Longrightarrow> scan_inv (ps @ flag_pairs args) st'"
proof (induction args st arbitrary: ps rule: scan_args.induct)
  case (2 arg args st)
  show ?case
  proof (cases "arg = ''-D''")
    case True
    have "scan_inv ps (st \<lparr> sc_debug := True \<rparr>)" using 2(3) by (simp add: scan_inv_def)
    with True 2 show ?thesis by simp
  next
    case False
    obtain b n sub dir where f: "parseFlag arg = (b, n, sub, dir)" by (cases "parseFlag arg")
    from False 2(4) f obtain v args' st1 where a: "args = v # args'" "flag_value b n sub dir v st = Inr st1"
      "scan_args args' st1 = Inr st'" and b: "b \<in> set flag_names"
      by (auto simp: flag_names_def split: if_splits list.splits sum.splits)
    have "scan_inv (ps @ [(arg, v)]) st1" by (rule scan_inv_step [OF 2(3) a(2) b f])
    moreover have "has_prefix arg ''-''" "\<not> (b = ''A'' \<and> dir = [])" using False 2(4) f by (auto split: if_splits)
    ultimately show ?thesis
      using 2(2) [OF False _ f [symmetric] refl refl refl _ _ a(1) a(2), of "ps @ [(arg, v)]"] a False f b
      by (simp add: flag_names_def)
  qed
qed simp


section \<open>The later phases\<close>

lemma map_of_inherit_map:
  "map_of (inherit_map inh m) k = (case map_of m k of Some v \<Rightarrow> Some v | None \<Rightarrow> map_of inh k)"
proof (induction inh arbitrary: m)
  case (Cons kv inh)
  then show ?case
    by (cases kv) (auto simp: inherit_map_def update_conv' split: option.splits)
qed (simp add: inherit_map_def split: option.split)

lemma inherit_group_simps [simp]:
  "rg_entries (inherit_group st n rg) = rg_entries rg"
  "rg_authKeySet (inherit_group st n rg) = rg_authKeySet rg"
  "rg_stateFileSet (inherit_group st n rg) = rg_stateFileSet rg"
  "rg_passwords (inherit_group st n rg) = (if n = -1 then rg_passwords rg else inherit_map (sc_inhPasswords st) (rg_passwords rg))"
  "rg_accepts (inherit_group st n rg) = (if n = -1 then rg_accepts rg else inherit_map (sc_inhAccepts st) (rg_accepts rg))"
  by (simp_all add: inherit_group_def inherit_auth_def Let_def)

lemma validate_group_keeps:
  assumes "validate_group stat n rg = Inr rg'"
  shows "rg_entries rg' = rg_entries rg" "rg_passwords rg' = rg_passwords rg" "rg_accepts rg' = rg_accepts rg"
    "rg_entries rg \<noteq> [] \<Longrightarrow> rg_stateFile rg' \<noteq> []"
    "rg_entries rg \<noteq> [] \<Longrightarrow> rg_authKey rg' \<noteq> [] \<or> stat (rg_stateFile rg')"
    "rg_entries rg \<noteq> [] \<Longrightarrow> rg_authKeySet rg \<Longrightarrow> rg_stateFileSet rg \<Longrightarrow> \<not> stat (rg_stateFile rg)"
proof -
  let ?rg = "if rg_stateFile rg = [] then rg \<lparr> rg_stateFile := ''ttstate.json'' \<rparr> else rg"
  have "rg' = (if n = -1 \<and> rg_entries rg = [] then rg else ?rg) \<and>
      (rg_entries rg \<noteq> [] \<longrightarrow> (rg_authKey ?rg \<noteq> [] \<or> stat (rg_stateFile ?rg))
         \<and> \<not> (rg_authKeySet rg \<and> rg_stateFileSet rg \<and> stat (rg_stateFile rg)))"
    using assms unfolding validate_group_def Let_def by (simp split: if_split_asm) (blast+)?
  then show "rg_entries rg' = rg_entries rg" "rg_passwords rg' = rg_passwords rg" "rg_accepts rg' = rg_accepts rg"
    "rg_entries rg \<noteq> [] \<Longrightarrow> rg_stateFile rg' \<noteq> []"
    "rg_entries rg \<noteq> [] \<Longrightarrow> rg_authKey rg' \<noteq> [] \<or> stat (rg_stateFile rg')"
    "rg_entries rg \<noteq> [] \<Longrightarrow> rg_authKeySet rg \<Longrightarrow> rg_stateFileSet rg \<Longrightarrow> \<not> stat (rg_stateFile rg)"
    by simp_all
qed

lemma validate_all_groups:
  "validate_all stat raw = Inr raw' \<Longrightarrow>
   (\<forall>(n, rg) \<in> set raw. \<exists>rg'. validate_group stat n rg = Inr rg' \<and> (n, rg') \<in> set raw')
   \<and> (\<forall>(n, rg') \<in> set raw'. \<exists>rg. (n, rg) \<in> set raw \<and> validate_group stat n rg = Inr rg')"
proof (induction raw arbitrary: raw')
  case (Cons x raw)
  obtain n rg where x: "x = (n, rg)" by (cases x)
  from Cons.prems x obtain rg' raw1 where "validate_group stat n rg = Inr rg'" "validate_all stat raw = Inr raw1"
    "raw' = (n, rg') # raw1" by (auto simp: result_simps)
  with Cons.IH [of raw1] x show ?case by (simp add: case_prod_beta) blast
qed simp

lemma build_all_groups:
  "build_all ord raw = Inr gs \<Longrightarrow>
   (\<forall>(n, rg) \<in> set raw. rg_entries rg \<noteq> [] \<longrightarrow> (\<exists>g \<in> set gs. build_group ord n rg = Inr g))
   \<and> (\<forall>g \<in> set gs. \<exists>n rg. (n, rg) \<in> set raw \<and> rg_entries rg \<noteq> [] \<and> build_group ord n rg = Inr g)"
proof (induction raw arbitrary: gs)
  case (Cons x raw)
  obtain n rg where x: "x = (n, rg)" by (cases x)
  show ?case
  proof (cases "rg_entries rg = []")
    case True
    with Cons.prems x have "build_all ord raw = Inr gs" by simp
    with Cons.IH [of gs] x True show ?thesis by (simp add: case_prod_beta) blast
  next
    case False
    with Cons.prems x obtain g gs1 where "build_group ord n rg = Inr g" "build_all ord raw = Inr gs1" "gs = g # gs1"
      by (auto simp: result_simps)
    with Cons.IH [of gs1] x False show ?thesis by (simp add: case_prod_beta) blast
  qed
qed simp

lemma inherit_all_groups:
  "(n, rg) \<in> set (inherit_all st) \<longleftrightarrow> n \<in> fst ` set (sc_raw st) \<and> rg = inherit_group st n (getGroup n (sc_raw st))"
  by (auto simp: inherit_all_def group_nums_def)

lemma getGroup_absent: "rg_entries (getGroup n raw) \<noteq> [] \<Longrightarrow> n \<in> fst ` set raw"
  by (auto simp: getGroup_def empty_group_def map_of_eq_None_iff [symmetric] split: option.splits)
     (metis image_eqI fst_conv map_of_SomeD)

text \<open>A group of the result is a group of the scan, inherited, validated and built.\<close>

definition checked_group :: "(string \<Rightarrow> bool) \<Rightarrow> scan \<Rightarrow> int \<Rightarrow> cli_error + raw_group" where
  "checked_group stat st n = validate_group stat n (inherit_group st n (getGroup n (sc_raw st)))"

lemma parseTunnelArgs_groups:
  assumes "parseTunnelArgs stat ord args = Inr gs"
  obtains st where "scan_args args empty_scan = Inr st" "gs \<noteq> []"
    "\<And>g. g \<in> set gs \<Longrightarrow> \<exists>n rg. checked_group stat st n = Inr rg \<and> rg_entries rg \<noteq> [] \<and> build_group ord n rg = Inr g"
    "\<And>n. rg_entries (getGroup n (sc_raw st)) \<noteq> [] \<Longrightarrow>
       \<exists>rg g. checked_group stat st n = Inr rg \<and> build_group ord n rg = Inr g \<and> g \<in> set gs"
proof -
  from assms obtain st raw' where st: "scan_args args empty_scan = Inr st" and v: "validate_all stat (inherit_all st) = Inr raw'"
    and b: "build_all ord raw' = Inr gs" and ne: "gs \<noteq> []"
    by (auto simp: parseTunnelArgs_def result_simps Let_def split: if_splits)
  note V = validate_all_groups [OF v] and B = build_all_groups [OF b]
  have "\<exists>n rg. checked_group stat st n = Inr rg \<and> rg_entries rg \<noteq> [] \<and> build_group ord n rg = Inr g" if "g \<in> set gs" for g
  proof -
    from B that obtain n rg' where g: "(n, rg') \<in> set raw'" "rg_entries rg' \<noteq> []" "build_group ord n rg' = Inr g" by blast
    with V obtain rg where "(n, rg) \<in> set (inherit_all st)" "validate_group stat n rg = Inr rg'" by blast
    with g show ?thesis by (auto simp: inherit_all_groups checked_group_def)
  qed
  moreover have "\<exists>rg g. checked_group stat st n = Inr rg \<and> build_group ord n rg = Inr g \<and> g \<in> set gs"
    if e: "rg_entries (getGroup n (sc_raw st)) \<noteq> []" for n
  proof -
    let ?rg = "inherit_group st n (getGroup n (sc_raw st))"
    have "(n, ?rg) \<in> set (inherit_all st)" using getGroup_absent [OF e] by (simp add: inherit_all_groups)
    with V obtain rg' where r: "validate_group stat n ?rg = Inr rg'" "(n, rg') \<in> set raw'" by blast
    with e have "rg_entries rg' \<noteq> []" by (simp add: validate_group_keeps(1))
    with B r obtain g where "g \<in> set gs" "build_group ord n rg' = Inr g" by blast
    with r show ?thesis by (auto simp: checked_group_def)
  qed
  ultimately show ?thesis using that [OF st ne] by blast
qed


section \<open>The ports of a group\<close>

text \<open>The port an entry stands for, with its key in \<open>Ports\<close>.\<close>

definition port_of :: "int \<Rightarrow> raw_group \<Rightarrow> string \<times> raw_entry \<Rightarrow> (string \<times> port_entry) option" where
  "port_of n rg = (\<lambda>(sub, e). case parsePortMapping (re_mapping e) of
       Inl _ \<Rightarrow> None
     | Inr (p, addr, q) \<Rightarrow> (case lookup_accept n rg (re_direction e) sub of
           Inl _ \<Rightarrow> None
         | Inr acc \<Rightarrow> Some (re_direction e @ sub @ show_int p,
             \<lparr> IsServer = (re_direction e = ''S''), ListenPort = p, TargetAddr = normalize_addr addr,
               TargetPort = q, pe_Accept = acc, Password = lookup_password rg (re_direction e) sub \<rparr>)))"

definition dir_of :: "port_entry \<Rightarrow> string" where
  "dir_of pe = (if IsServer pe then ''S'' else ''C'')"

lemma build_entry_Inr:
  assumes "build_entry n rg (sub, e) (used, ports) = Inr r" and "re_direction e \<in> {''S'', ''C''}"
  obtains pe where "port_of n rg (sub, e) = Some (re_direction e @ sub @ show_int (ListenPort pe), pe)"
    "dir_of pe = re_direction e" "map_of used (dir_of pe @ show_int (ListenPort pe)) = None"
    "r = (AList.update (dir_of pe @ show_int (ListenPort pe)) (re_direction e, sub) used,
          AList.update (re_direction e @ sub @ show_int (ListenPort pe)) pe ports)"
proof -
  from assms obtain p addr q acc where *: "parsePortMapping (re_mapping e) = Inr (p, addr, q)"
    "lookup_accept n rg (re_direction e) sub = Inr acc" "map_of used (re_direction e @ show_int p) = None"
    by (auto simp: build_entry_def result_simps Let_def split: sum.splits option.splits)
  show ?thesis
    by (rule that [of "\<lparr> IsServer = (re_direction e = ''S''), ListenPort = p, TargetAddr = normalize_addr addr,
               TargetPort = q, pe_Accept = acc, Password = lookup_password rg (re_direction e) sub \<rparr>"])
       (use * assms in \<open>auto simp: build_entry_def port_of_def dir_of_def Let_def\<close>)
qed

text \<open>What the loop over the entries keeps: every port belongs to an entry, every entry occupies its
  direction and port, no two ports share them, and with clean sub identifiers no port is lost.\<close>

definition ports_inv ::
  "int \<Rightarrow> raw_group \<Rightarrow> (string \<times> raw_entry) list \<Rightarrow> used_ports \<times> (string \<times> port_entry) list \<Rightarrow> bool" where
  "ports_inv n rg es = (\<lambda>(used, ports).
     distinct (map fst ports)
   \<and> (\<forall>kp \<in> set ports. (\<exists>x \<in> set es. port_of n rg x = Some kp)
         \<and> has_key used (dir_of (snd kp) @ show_int (ListenPort (snd kp))))
   \<and> distinct (map (\<lambda>(k, pe). dir_of pe @ show_int (ListenPort pe)) ports)
   \<and> (es \<noteq> [] \<longrightarrow> ports \<noteq> [])
   \<and> (list_all (\<lambda>(sub, e). list_all is_lower sub) es \<longrightarrow> (\<forall>x \<in> set es. \<exists>kp \<in> set ports. port_of n rg x = Some kp)))"

lemma fold_res_prefix_invariant:
  assumes "fold_res f xs s = Inr s'" and "P [] s"
    and "\<And>ys x s s'. set ys \<subseteq> set xs \<Longrightarrow> x \<in> set xs \<Longrightarrow> P ys s \<Longrightarrow> f x s = Inr s' \<Longrightarrow> P (ys @ [x]) s'"
  shows "P xs s'"
  using assms
proof (induction xs arbitrary: s' rule: rev_induct)
  case (snoc x xs)
  from snoc.prems(1) obtain t where t: "fold_res f xs s = Inr t" "f x t = Inr s'"
    by (auto simp: fold_res_append result_simps)
  have "P xs t" by (rule snoc.IH [OF t(1) snoc.prems(2)]) (auto intro!: snoc.prems(3))
  with t(2) snoc.prems(3) [of xs x t s'] show ?case by auto
qed simp

lemma show_int_inject [simp]: "show_int a = show_int b \<longleftrightarrow> a = b"
proof
  assume h: "show_int a = show_int b"
  have "CHR ''-'' # xs \<noteq> show_nat m" for m xs
  proof
    assume "CHR ''-'' # xs = show_nat m"
    then have "list_all is_digit (CHR ''-'' # xs)" by simp
    then have "is_digit (CHR ''-'')" by (simp only: list.pred_inject)
    then show False by (simp add: is_digit_def)
  qed
  with h show "a = b" unfolding show_int_def by (simp add: show_nat_inject not_less split: if_split_asm) metis+
qed simp

lemma show_int_head: "\<not> is_lower (hd (show_int p))" "show_int p \<noteq> []"
proof -
  have "is_digit (hd (show_nat m))" for m using show_nat_digits [of m] by (cases "show_nat m") auto
  then show "\<not> is_lower (hd (show_int p))" using lower_not_digit by (auto simp: show_int_def is_lower_def)
qed (simp add: show_int_def)

lemma port_key_inject:
  assumes "list_all is_lower s1" "list_all is_lower s2" "s1 @ show_int p1 = s2 @ show_int p2"
  shows "s1 = s2 \<and> p1 = p2"
proof -
  have *: "takeWhile is_lower (s @ show_int p) = s" if "list_all is_lower s" for s p
    using that show_int_head [of p] by (cases "show_int p") (auto simp: takeWhile_append2 list_all_iff)
  from * [OF assms(1), of p1] * [OF assms(2), of p2] assms(3) have "s1 = s2" by simp
  with assms(3) show ?thesis by simp
qed

lemma ports_inv_step:
  assumes inv: "ports_inv n rg es (used, ports)" and b: "build_entry n rg (sub, e) (used, ports) = Inr r"
    and dir: "re_direction e \<in> {''S'', ''C''}" and dirs: "\<forall>(s, e) \<in> set es. re_direction e \<in> {''S'', ''C''}"
  shows "ports_inv n rg (es @ [(sub, e)]) r"
proof -
  from build_entry_Inr [OF b dir] obtain pe where
    pe: "port_of n rg (sub, e) = Some (re_direction e @ sub @ show_int (ListenPort pe), pe)"
    and d: "dir_of pe = re_direction e" and new: "map_of used (dir_of pe @ show_int (ListenPort pe)) = None"
    and r: "r = (AList.update (dir_of pe @ show_int (ListenPort pe)) (re_direction e, sub) used,
          AList.update (re_direction e @ sub @ show_int (ListenPort pe)) pe ports)" by metis
  let ?u = "dir_of pe @ show_int (ListenPort pe)" and ?k = "re_direction e @ sub @ show_int (ListenPort pe)"
  let ?ports = "AList.update ?k pe ports"
  from inv have dist: "distinct (map fst ports)"
    and src: "\<And>kp. kp \<in> set ports \<Longrightarrow> (\<exists>x \<in> set es. port_of n rg x = Some kp)
         \<and> has_key used (dir_of (snd kp) @ show_int (ListenPort (snd kp)))"
    and du: "distinct (map (\<lambda>(k, pe). dir_of pe @ show_int (ListenPort pe)) ports)"
    and compl: "list_all (\<lambda>(sub, e). list_all is_lower sub) es \<Longrightarrow> \<forall>x \<in> set es. \<exists>kp \<in> set ports. port_of n rg x = Some kp"
    unfolding ports_inv_def by auto
  have sub: "set ?ports \<subseteq> insert (?k, pe) (set ports)" by (rule set_update_subset)
  have "?u \<notin> (\<lambda>(k, pe). dir_of pe @ show_int (ListenPort pe)) ` set ports"
    using src new by force
  then have "distinct (map (\<lambda>(k, pe). dir_of pe @ show_int (ListenPort pe)) ?ports)"
    using du by (induction ports) (auto dest!: subsetD [OF set_update_subset])
  moreover have "(\<exists>x \<in> set (es @ [(sub, e)]). port_of n rg x = Some kp)
      \<and> has_key (fst r) (dir_of (snd kp) @ show_int (ListenPort (snd kp)))" if "kp \<in> set ?ports" for kp
    using subsetD [OF sub that] src [of kp] pe d by (auto simp: r update_conv')
  moreover have "\<exists>kp \<in> set ?ports. port_of n rg x = Some kp"
    if clean: "list_all (\<lambda>(sub, e). list_all is_lower sub) (es @ [(sub, e)])" and x: "x \<in> set (es @ [(sub, e)])" for x
  proof (cases "x = (sub, e)")
    case True
    then show ?thesis using pe by (auto simp: set_update_distinct [OF dist])
  next
    case False
    then have x: "x \<in> set es" using that by auto
    from compl clean x obtain kp where kp: "kp \<in> set ports" "port_of n rg x = Some kp" by fastforce
    obtain s' e' where x': "x = (s', e')" by (cases x)
    from kp(2) x' have "fst kp = re_direction e' @ s' @ show_int (ListenPort (snd kp))"
        "re_direction e' \<in> {''S'', ''C''} \<Longrightarrow> dir_of (snd kp) = re_direction e'"
      by (auto simp: port_of_def dir_of_def split: sum.splits)
    moreover have "re_direction e' \<in> {''S'', ''C''}" "list_all is_lower s'" "list_all is_lower sub"
      using x x' dirs clean by (auto simp: list_all_iff)
    moreover have "map_of used (dir_of (snd kp) @ show_int (ListenPort (snd kp))) \<noteq> None" using src [OF kp(1)] by simp
    ultimately have "fst kp \<noteq> ?k" using dir d new port_key_inject [of s' sub "ListenPort (snd kp)" "ListenPort pe"] by auto
    with kp(1) have "kp \<in> set ?ports" by (auto simp: set_update_distinct [OF dist])
    with kp(2) show ?thesis by blast
  qed
  ultimately show ?thesis unfolding ports_inv_def r using dist by auto
qed

text \<open>The order of iteration only permutes the keys.\<close>

definition ord_ok :: "(int \<Rightarrow> string list \<Rightarrow> string list) \<Rightarrow> bool" where
  "ord_ok ord \<longleftrightarrow> (\<forall>n ks. set (ord n ks) = set ks \<and> length (ord n ks) = length ks)"

lemma group_entries_iff:
  assumes "ord_ok ord"
  shows "x \<in> set (group_entries ord n rg) \<longleftrightarrow>
    (\<exists>key. key \<in> fst ` set (rg_entries rg) \<and> fst x = drop 1 key \<and> snd x \<in> set (entries_of key rg))"
  using assms by (cases x) (auto simp: group_entries_def ord_ok_def)

lemma build_group_inv:
  assumes "build_group ord n rg = Inr g" and "\<forall>(s, e) \<in> set (group_entries ord n rg). re_direction e \<in> {''S'', ''C''}"
  shows "\<exists>used. ports_inv n rg (group_entries ord n rg) (used, Ports g)"
    and "StateFile g = rg_stateFile rg" "AuthKey g = rg_authKey rg" "DropICMP g = drop_icmp (Ports g)"
proof -
  from assms(1) obtain used where f: "fold_res (build_entry n rg) (group_entries ord n rg) ([], []) = Inr (used, Ports g)"
    by (auto simp: build_group_def result_simps)
  have "ports_inv n rg (group_entries ord n rg) (used, Ports g)"
  proof (rule fold_res_prefix_invariant [OF f])
    show "ports_inv n rg [] ([], [])" by (simp add: ports_inv_def)
  next
    fix ys x s s'
    assume ys: "set ys \<subseteq> set (group_entries ord n rg)" and x: "x \<in> set (group_entries ord n rg)"
      and i: "ports_inv n rg ys s" and b: "build_entry n rg x s = Inr s'"
    obtain sub e where xe: "x = (sub, e)" by (cases x)
    obtain u p where s: "s = (u, p)" by (cases s)
    show "ports_inv n rg (ys @ [x]) s'" unfolding xe
      by (rule ports_inv_step [OF i [unfolded s] b [unfolded s xe]]) (use assms(2) ys x xe in auto)
  qed
  then show "\<exists>used. ports_inv n rg (group_entries ord n rg) (used, Ports g)" ..
  show "StateFile g = rg_stateFile rg" "AuthKey g = rg_authKey rg" "DropICMP g = drop_icmp (Ports g)"
    using assms(1) by (auto simp: build_group_def result_simps)
qed

text \<open>The value \<open>-P\<close> or \<open>-A\<close> gives a key of a group: the group's own, or else the one without a number.\<close>

definition effective :: "string \<Rightarrow> int \<Rightarrow> (string \<times> string) list \<Rightarrow> string \<Rightarrow> string option" where
  "effective base n ps k =
     (case map_of (settings base n ps) k of Some v \<Rightarrow> Some v | None \<Rightarrow> map_of (settings base (-1) ps) k)"

text \<open>The first of the keys that has a value.\<close>

definition first_effective :: "string \<Rightarrow> int \<Rightarrow> (string \<times> string) list \<Rightarrow> string list \<Rightarrow> string option" where
  "first_effective base n ps ks = (case dropWhile (\<lambda>k. effective base n ps k = None) ks of
     [] \<Rightarrow> None | k # _ \<Rightarrow> effective base n ps k)"

lemma first_key_effective:
  assumes "\<And>k. map_of m k = effective base n ps k"
  shows "map_option snd (first_key m ks) = first_effective base n ps ks"
  by (induction ks) (auto simp: first_effective_def assms split: option.splits)

lemma checked_group_settings:
  assumes inv: "scan_inv ps st" and c: "checked_group stat st n = Inr rg"
  shows "map_of (rg_passwords rg) k = effective ''P'' n ps k" "map_of (rg_accepts rg) k = effective ''A'' n ps k"
    "rg_entries rg = rg_entries (getGroup n (sc_raw st))" "entries_of key rg = entries_of key (getGroup n (sc_raw st))"
proof -
  note v = validate_group_keeps(1-3) [OF c [unfolded checked_group_def]]
  show "map_of (rg_passwords rg) k = effective ''P'' n ps k" "map_of (rg_accepts rg) k = effective ''A'' n ps k"
    unfolding v effective_def using scan_invD(1-4) [OF inv]
    by (auto simp: map_of_inherit_map split: option.split)
  show "rg_entries rg = rg_entries (getGroup n (sc_raw st))" using v by simp
  then show "entries_of key rg = entries_of key (getGroup n (sc_raw st))" by (simp add: entries_of_def)
qed

lemma group_entries_args:
  assumes inv: "scan_inv ps st" and c: "checked_group stat st n = Inr rg" and o: "ord_ok ord"
  shows "(sub, e) \<in> set (group_entries ord n rg) \<longleftrightarrow> mapping_arg ps n (re_direction e) sub (re_mapping e)"
proof
  note eo = checked_group_settings(4) [OF inv c]
  {
    assume "(sub, e) \<in> set (group_entries ord n rg)"
    then obtain key where k: "sub = drop 1 key" "e \<in> set (entries_of key (getGroup n (sc_raw st)))"
      by (auto simp: group_entries_iff [OF o] eo)
    from scan_invD(5) [OF inv k(2)] obtain s where s: "key = re_direction e @ s"
      "mapping_arg ps n (re_direction e) s (re_mapping e)" by auto
    from s(2) have "length (re_direction e) = 1" by (auto simp: mapping_arg_def)
    with s k(1) show "mapping_arg ps n (re_direction e) sub (re_mapping e)" by simp
  }
  assume m: "mapping_arg ps n (re_direction e) sub (re_mapping e)"
  have e: "e \<in> set (entries_of (re_direction e @ sub) rg)" using scan_invD(6) [OF inv m] unfolding eo by (cases e) simp
  then have "map_of (rg_entries rg) (re_direction e @ sub) \<noteq> None"
    by (cases "map_of (rg_entries rg) (re_direction e @ sub)") (simp_all add: entries_of_def)
  then have "re_direction e @ sub \<in> fst ` set (rg_entries rg)" by (simp only: map_of_eq_None_iff not_not)
  moreover have "length (re_direction e) = 1" using m by (auto simp: mapping_arg_def)
  ultimately show "(sub, e) \<in> set (group_entries ord n rg)"
    using e unfolding group_entries_iff [OF o] by (intro exI [of _ "re_direction e @ sub"]) simp
qed

text \<open>A group of the result, with everything known of it.\<close>

lemma result_group:
  assumes inv: "scan_inv ps st" and c: "checked_group stat st n = Inr rg" and o: "ord_ok ord"
    and b: "build_group ord n rg = Inr g"
  obtains used where "ports_inv n rg (group_entries ord n rg) (used, Ports g)"
  using build_group_inv(1) [OF b] group_entries_args [OF inv c o] by (auto simp: mapping_arg_def)

lemma port_of_args:
  assumes inv: "scan_inv ps st" and c: "checked_group stat st n = Inr rg"
    and p: "port_of n rg (sub, e) = Some (k, pe)" and d: "re_direction e \<in> {''S'', ''C''}"
  obtains addr where "dir_of pe = re_direction e" "parsePortMapping (re_mapping e) = Inr (ListenPort pe, addr, TargetPort pe)"
    "TargetAddr pe = normalize_addr addr"
    "Password pe = (case first_effective ''P'' n ps [dir_of pe @ sub, dir_of pe, sub, []] of None \<Rightarrow> [] | Some v \<Rightarrow> v)"
    "(case first_effective ''A'' n ps [dir_of pe @ sub, dir_of pe] of None \<Rightarrow> Inr [] | Some v \<Rightarrow> parseIPList v) = Inr (pe_Accept pe)"
proof -
  from p obtain p' addr q where m: "parsePortMapping (re_mapping e) = Inr (p', addr, q)"
    and a: "lookup_accept n rg (re_direction e) sub = Inr (pe_Accept pe)"
    and pe: "IsServer pe = (re_direction e = ''S'')" "ListenPort pe = p'" "TargetAddr pe = normalize_addr addr" "TargetPort pe = q"
      "Password pe = lookup_password rg (re_direction e) sub"
    by (auto simp: port_of_def split: sum.splits)
  have dir: "dir_of pe = re_direction e" using pe(1) d by (auto simp: dir_of_def)
  note fe = first_key_effective [where ps = ps, OF checked_group_settings(1) [OF inv c], symmetric]
    first_key_effective [where ps = ps, OF checked_group_settings(2) [OF inv c], symmetric]
  show ?thesis
  proof (rule that [OF dir _ pe(3)])
    show "parsePortMapping (re_mapping e) = Inr (ListenPort pe, addr, TargetPort pe)" using m pe by simp
    show "Password pe = (case first_effective ''P'' n ps [dir_of pe @ sub, dir_of pe, sub, []] of None \<Rightarrow> [] | Some v \<Rightarrow> v)"
      unfolding fe dir pe(5) lookup_password_def by (simp del: first_key.simps split: option.split prod.split)
    show "(case first_effective ''A'' n ps [dir_of pe @ sub, dir_of pe] of None \<Rightarrow> Inr [] | Some v \<Rightarrow> parseIPList v) = Inr (pe_Accept pe)"
      unfolding fe dir using a by (auto simp: lookup_accept_def simp del: first_key.simps split: option.splits sum.splits)
  qed
qed

lemma group_entries_nonempty:
  assumes "scan_inv ps st" "checked_group stat st n = Inr rg" "rg_entries rg \<noteq> []" "ord_ok ord"
  shows "group_entries ord n rg \<noteq> []"
proof -
  note r = checked_group_settings(3) [OF assms(1,2)]
  from assms(3) obtain x where x: "x \<in> set (rg_entries rg)" by (cases "rg_entries rg") auto
  then have "map_of (rg_entries rg) (fst x) = Some (snd x)" "snd x \<noteq> []"
    using scan_invD(8) [OF assms(1), of n] scan_invD(9) [OF assms(1), of x n] r by (auto intro: map_of_is_SomeI)
  with x have "(drop 1 (fst x), hd (snd x)) \<in> set (group_entries ord n rg)"
    unfolding group_entries_iff [OF assms(4)] by (intro exI [of _ "fst x"]) (simp add: entries_of_def)
  then show ?thesis by auto
qed

lemma scan_of:
  assumes "scan_args args empty_scan = Inr st"
  shows "scan_inv (flag_pairs args) st"
  using scan_args_inv [OF scan_inv_empty assms] by simp


text \<open>A port of the result, followed back to its entry and group.\<close>

lemma result_port:
  assumes "parseTunnelArgs stat ord args = Inr gs" and "ord_ok ord" and "g \<in> set gs" and "(k, pe) \<in> set (Ports g)"
  obtains st n rg sub e where "scan_inv (flag_pairs args) st" "checked_group stat st n = Inr rg"
    "port_of n rg (sub, e) = Some (k, pe)" "re_direction e \<in> {''S'', ''C''}"
    "mapping_arg (flag_pairs args) n (re_direction e) sub (re_mapping e)"
proof -
  from assms obtain st n rg where "scan_args args empty_scan = Inr st" and c: "checked_group stat st n = Inr rg"
    and b: "build_group ord n rg = Inr g" by (metis parseTunnelArgs_groups)
  then have inv: "scan_inv (flag_pairs args) st" by (intro scan_of)
  obtain used where "ports_inv n rg (group_entries ord n rg) (used, Ports g)" using result_group [OF inv c assms(2) b] .
  with assms(4) obtain sub e where e: "(sub, e) \<in> set (group_entries ord n rg)" "port_of n rg (sub, e) = Some (k, pe)"
    by (auto simp: ports_inv_def)
  from e(1) have m: "mapping_arg (flag_pairs args) n (re_direction e) sub (re_mapping e)"
    by (simp add: group_entries_args [OF inv c assms(2)])
  then have "re_direction e \<in> {''S'', ''C''}" by (simp add: mapping_arg_def)
  from that [OF inv c e(2) this m] show ?thesis .
qed

lemma result_drop:
  assumes "parseTunnelArgs stat ord args = Inr gs" and "g \<in> set gs"
  shows "DropICMP g = drop_icmp (Ports g)"
proof -
  from assms obtain n rg where "build_group ord n rg = Inr g" by (metis parseTunnelArgs_groups)
  then show ?thesis by (auto simp: build_group_def result_simps)
qed

lemma settings_mem: "(k, w) \<in> set (settings base n ps) \<Longrightarrow> \<exists>f. (f, w) \<in> set ps \<and> fst (parseFlag f) = base"
  by (auto simp: settings_def split: prod.splits if_splits) (metis fst_conv)

lemma effective_mem: "effective base n ps k = Some w \<Longrightarrow> \<exists>f. (f, w) \<in> set ps \<and> fst (parseFlag f) = base"
  by (auto simp: effective_def split: option.splits dest!: map_of_SomeD settings_mem)

lemma first_effective_last:
  assumes "effective base n ps k \<noteq> None"
  shows "\<exists>k' v. first_effective base n ps (ks @ [k]) = Some v \<and> effective base n ps k' = Some v"
  using assms by (induction ks) (auto simp: first_effective_def)

lemma parseFlag_roundtrip_P: "parseFlag ''-P'' = (''P'', -1, [], [])"
  by code_simp

text \<open>A command line for the witnesses: one server port, one client port and a password for all.\<close>

definition demo_args :: "string list" where
  "demo_args = [''-K'', ''key'', ''-S'', ''80:h'', ''-P'', ''pw'', ''-Ca'', ''70:h:7'']"

definition demo_groups :: "tunnel_group list" where
  "demo_groups = [\<lparr> AuthKey = ''key'', StateFile = ''ttstate.json'', Hostname = [],
     Ports = [(''S80'', \<lparr> IsServer = True, ListenPort = 80, TargetAddr = ''h'', TargetPort = 80, pe_Accept = [], Password = ''pw'' \<rparr>),
              (''Ca70'', \<lparr> IsServer = False, ListenPort = 70, TargetAddr = ''h'', TargetPort = 7, pe_Accept = [], Password = ''pw'' \<rparr>)],
     DropICMP = True \<rparr>]"

lemma demo_ok: "parseTunnelArgs (\<lambda>_. False) (\<lambda>_ ks. ks) demo_args = Inr demo_groups"
  by code_simp

lemma demo_ord: "ord_ok (\<lambda>_ ks. ks)"
  by (simp add: ord_ok_def)

lemma demo_pairs: "flag_pairs demo_args = [(''-K'', ''key''), (''-S'', ''80:h''), (''-P'', ''pw''), (''-Ca'', ''70:h:7'')]"
  by code_simp

lemma demo_mapping: "mapping_arg (flag_pairs demo_args) (-1) ''C'' ''a'' ''70:h:7''"
  and demo_clean: "clean_subs (-1) (flag_pairs demo_args)"
  and demo_passwords: "passwords_given (flag_pairs demo_args)"
  by code_simp+


section \<open>Properties of the argument parser\<close>

text \<open>C13: Every port of every group \<open>parseTunnelArgs\<close> returns stems from a \<open>-S\<close> or \<open>-C\<close> argument of the
  command line: its direction, listen port, target host and target port are those of the argument's
  mapping; its password is the value of the first key among direction with sub identifier, direction, sub
  identifier and none for which the group, or else the flags without a number, give one; and its accept
  list is the parsed value of the first key among direction with sub identifier and direction.\<close>

theorem parseTunnelArgs_ports:
  assumes "parseTunnelArgs stat ord args = Inr gs" and "ord_ok ord" and "g \<in> set gs" and "(k, pe) \<in> set (Ports g)"
  shows "\<exists>n sub m addr. mapping_arg (flag_pairs args) n (dir_of pe) sub m
    \<and> parsePortMapping m = Inr (ListenPort pe, addr, TargetPort pe) \<and> TargetAddr pe = normalize_addr addr
    \<and> Password pe = (case first_effective ''P'' n (flag_pairs args) [dir_of pe @ sub, dir_of pe, sub, []] of
                        None \<Rightarrow> [] | Some v \<Rightarrow> v)
    \<and> (case first_effective ''A'' n (flag_pairs args) [dir_of pe @ sub, dir_of pe] of
         None \<Rightarrow> Inr [] | Some v \<Rightarrow> parseIPList v) = Inr (pe_Accept pe)"
proof -
  from result_port [OF assms] obtain st n rg sub e where inv: "scan_inv (flag_pairs args) st" "checked_group stat st n = Inr rg"
    and e: "port_of n rg (sub, e) = Some (k, pe)" "re_direction e \<in> {''S'', ''C''}"
    and m: "mapping_arg (flag_pairs args) n (re_direction e) sub (re_mapping e)" .
  from port_of_args [OF inv e] m show ?thesis by metis
qed

theorem parseTunnelArgs_ports_witness:
  "\<exists>n sub m. mapping_arg (flag_pairs demo_args) n ''S'' sub m \<and> (\<exists>addr. parsePortMapping m = Inr (80, addr, 80))"
proof -
  define pe where "pe = snd (hd (Ports (hd demo_groups)))"
  have "hd demo_groups \<in> set demo_groups" "(''S80'', pe) \<in> set (Ports (hd demo_groups))"
    "dir_of pe = ''S''" "ListenPort pe = 80" "TargetPort pe = 80"
    unfolding pe_def by (simp_all add: demo_groups_def dir_of_def)
  with parseTunnelArgs_ports [OF demo_ok demo_ord, of "hd demo_groups" "''S80''" pe] show ?thesis by auto
qed

text \<open>C14: No argument is lost: when the sub identifiers of a group consist of lower-case letters, as
  documented, every \<open>-S\<close> and \<open>-C\<close> argument of the group has a port with its direction and mapping in one
  of the returned groups.\<close>

theorem parseTunnelArgs_complete:
  assumes "parseTunnelArgs stat ord args = Inr gs" and "ord_ok ord"
    and "mapping_arg (flag_pairs args) n d sub m"
    and "clean_subs n (flag_pairs args)"
  shows "\<exists>g \<in> set gs. \<exists>pe \<in> snd ` set (Ports g). \<exists>addr. dir_of pe = d
    \<and> parsePortMapping m = Inr (ListenPort pe, addr, TargetPort pe) \<and> TargetAddr pe = normalize_addr addr"
proof -
  obtain st where st: "scan_args args empty_scan = Inr st"
    and all: "\<And>n. rg_entries (getGroup n (sc_raw st)) \<noteq> [] \<Longrightarrow>
       \<exists>rg g. checked_group stat st n = Inr rg \<and> build_group ord n rg = Inr g \<and> g \<in> set gs"
    using parseTunnelArgs_groups [OF assms(1)] by metis
  have inv: "scan_inv (flag_pairs args) st" by (rule scan_of [OF st])
  have "entries_of (d @ sub) (getGroup n (sc_raw st)) \<noteq> []" using scan_invD(6) [OF inv assms(3)] by auto
  then have "rg_entries (getGroup n (sc_raw st)) \<noteq> []" by (auto simp: entries_of_def)
  with all obtain rg g where c: "checked_group stat st n = Inr rg" and b: "build_group ord n rg = Inr g" and g: "g \<in> set gs"
    by blast
  note ge = group_entries_args [OF inv c assms(2)]
  obtain used where i: "ports_inv n rg (group_entries ord n rg) (used, Ports g)" using result_group [OF inv c assms(2) b] .
  have x: "(sub, \<lparr> re_direction = d, re_mapping = m \<rparr>) \<in> set (group_entries ord n rg)" using assms(3) by (simp add: ge)
  have "list_all (\<lambda>(sub, e). list_all is_lower sub) (group_entries ord n rg)"
    using clean_subs_mapping [OF assms(4)] by (auto simp: list_all_iff [of _ "group_entries ord n rg"] ge)
  with i x obtain k pe where p: "(k, pe) \<in> set (Ports g)" "port_of n rg (sub, \<lparr> re_direction = d, re_mapping = m \<rparr>) = Some (k, pe)"
    by (fastforce simp: ports_inv_def)
  have "d \<in> {''S'', ''C''}" using assms(3) by (simp add: mapping_arg_def)
  with port_of_args [OF inv c p(2)] obtain addr where "dir_of pe = d"
    "parsePortMapping m = Inr (ListenPort pe, addr, TargetPort pe)" "TargetAddr pe = normalize_addr addr" by auto
  then show ?thesis using g p(1) by force
qed

theorem parseTunnelArgs_complete_witness:
  "\<exists>g \<in> set demo_groups. \<exists>pe \<in> snd ` set (Ports g). dir_of pe = ''C'' \<and> (\<exists>addr. parsePortMapping ''70:h:7'' = Inr (ListenPort pe, addr, TargetPort pe))"
  using parseTunnelArgs_complete [OF demo_ok demo_ord demo_mapping demo_clean] by blast

text \<open>C15: Every group of a successful run is well formed: there is at least one group; each has at least one
  port, a state file name, and an auth key or an existing state file; no two of its ports share direction and
  listen port; and \<open>DropICMP\<close> is set exactly when every server port has a password.\<close>

theorem parseTunnelArgs_wf:
  assumes "parseTunnelArgs stat ord args = Inr gs" and "ord_ok ord"
  shows "gs \<noteq> [] \<and> (\<forall>g \<in> set gs. Ports g \<noteq> [] \<and> StateFile g \<noteq> [] \<and> (AuthKey g \<noteq> [] \<or> stat (StateFile g))
    \<and> distinct (map fst (Ports g)) \<and> distinct (map (\<lambda>(k, pe). (IsServer pe, ListenPort pe)) (Ports g))
    \<and> (DropICMP g \<longleftrightarrow> (\<forall>pe \<in> snd ` set (Ports g). IsServer pe \<longrightarrow> Password pe \<noteq> [])))"
proof -
  from parseTunnelArgs_groups [OF assms(1)] obtain st where st: "scan_args args empty_scan = Inr st" "gs \<noteq> []"
    and gs: "\<And>g. g \<in> set gs \<Longrightarrow> \<exists>n rg. checked_group stat st n = Inr rg \<and> rg_entries rg \<noteq> [] \<and> build_group ord n rg = Inr g"
    by metis
  have inv: "scan_inv (flag_pairs args) st" by (rule scan_of [OF st(1)])
  have "Ports g \<noteq> [] \<and> StateFile g \<noteq> [] \<and> (AuthKey g \<noteq> [] \<or> stat (StateFile g))
    \<and> distinct (map fst (Ports g)) \<and> distinct (map (\<lambda>(k, pe). (IsServer pe, ListenPort pe)) (Ports g))
    \<and> (DropICMP g \<longleftrightarrow> (\<forall>pe \<in> snd ` set (Ports g). IsServer pe \<longrightarrow> Password pe \<noteq> []))" if "g \<in> set gs" for g
  proof -
    from gs [OF that] obtain n rg where c: "checked_group stat st n = Inr rg" "rg_entries rg \<noteq> []"
      and b: "build_group ord n rg = Inr g" by blast
    have dirs: "\<forall>(s, e) \<in> set (group_entries ord n rg). re_direction e \<in> {''S'', ''C''}"
      using group_entries_args [OF inv c(1) assms(2)] by (auto simp: mapping_arg_def)
    note B = build_group_inv [OF b dirs]
    from B(1) obtain used where i: "ports_inv n rg (group_entries ord n rg) (used, Ports g)" ..
    have ent: "group_entries ord n rg \<noteq> []" by (rule group_entries_nonempty [OF inv c assms(2)])
    have "distinct (map ((\<lambda>(s, p). (if s then ''S'' else ''C'') @ show_int p) \<circ> (\<lambda>(k, pe). (IsServer pe, ListenPort pe))) (Ports g))"
      using i by (simp add: ports_inv_def dir_of_def comp_def case_prod_unfold)
    then have "distinct (map (\<lambda>(k, pe). (IsServer pe, ListenPort pe)) (Ports g))"
      by (simp only: map_map [symmetric] distinct_map)
    then show ?thesis using i ent B(2-4) validate_group_keeps(4,5) [OF c(1) [unfolded checked_group_def]] c(2)
        validate_group_keeps(1) [OF c(1) [unfolded checked_group_def]]
      by (auto simp: ports_inv_def drop_icmp_def list_ex_iff list_all_iff)
  qed
  with st(2) show ?thesis by blast
qed

theorem parseTunnelArgs_wf_witness:
  "Ports (hd demo_groups) \<noteq> [] \<and> StateFile (hd demo_groups) \<noteq> [] \<and> distinct (map fst (Ports (hd demo_groups)))"
  using parseTunnelArgs_wf [OF demo_ok demo_ord] by simp

text \<open>C16: A \<open>-P\<close> without direction, sub identifier and number protects everything: when no \<open>-P\<close> flag has
  an empty value, every port of every group has a password, and every group drops ICMP.\<close>

theorem global_password_protects:
  assumes "parseTunnelArgs stat ord args = Inr gs" and "ord_ok ord"
    and "(''-P'', v) \<in> set (flag_pairs args)"
    and "passwords_given (flag_pairs args)"
  shows "\<forall>g \<in> set gs. DropICMP g \<and> (\<forall>pe \<in> snd ` set (Ports g). Password pe \<noteq> [])"
proof
  let ?ps = "flag_pairs args"
  fix g assume g: "g \<in> set gs"
  have nonempty: "w \<noteq> []" if "effective ''P'' n ?ps k = Some w" for n k w
    using effective_mem [OF that] assms(4) by (auto simp: passwords_given_def list_all_iff)
  have "([], v) \<in> set (settings ''P'' (-1) ?ps)"
    using assms(3) parseFlag_roundtrip_P by (force simp: settings_def)
  then have "map_of (settings ''P'' (-1) ?ps) [] \<noteq> None" unfolding map_of_eq_None_iff by force
  then have last: "effective ''P'' n ?ps [] \<noteq> None" for n by (auto simp: effective_def split: option.split)
  have "Password pe \<noteq> []" if pe: "(k, pe) \<in> set (Ports g)" for k pe
  proof -
    from result_port [OF assms(1,2) g pe] obtain st n rg sub e where inv: "scan_inv ?ps st" "checked_group stat st n = Inr rg"
      and e: "port_of n rg (sub, e) = Some (k, pe)" "re_direction e \<in> {''S'', ''C''}"
      and "mapping_arg ?ps n (re_direction e) sub (re_mapping e)" .
    have p: "Password pe = (case first_effective ''P'' n ?ps ([dir_of pe @ sub, dir_of pe, sub] @ [[]]) of None \<Rightarrow> [] | Some v \<Rightarrow> v)"
      by (rule port_of_args [OF inv e]) simp
    from first_effective_last [OF last, of n "[dir_of pe @ sub, dir_of pe, sub]"] obtain k' w where
      "first_effective ''P'' n ?ps ([dir_of pe @ sub, dir_of pe, sub] @ [[]]) = Some w" "effective ''P'' n ?ps k' = Some w" by blast
    with p nonempty show ?thesis by simp
  qed
  then have pw: "\<forall>pe \<in> snd ` set (Ports g). Password pe \<noteq> []" by auto
  with result_drop [OF assms(1) g] show "DropICMP g \<and> (\<forall>pe \<in> snd ` set (Ports g). Password pe \<noteq> [])"
    by (auto simp: drop_icmp_def list_all_iff)
qed

theorem global_password_protects_witness:
  "DropICMP (hd demo_groups) \<and> Password (snd (hd (Ports (hd demo_groups)))) \<noteq> []"
proof -
  have "(''-P'', ''pw'') \<in> set (flag_pairs demo_args)" by (simp add: demo_pairs)
  from global_password_protects [OF demo_ok demo_ord this demo_passwords] show ?thesis by (simp add: demo_groups_def)
qed

text \<open>C17: Mappings with and without a group number exclude each other: a command line with a \<open>-S\<close> or \<open>-C\<close>
  of each kind is always rejected.\<close>

theorem parseTunnelArgs_coexist:
  assumes "mapping_arg (flag_pairs args) (-1) d s m" and "mapping_arg (flag_pairs args) n d' s' m'" and "0 \<le> n"
  shows "\<exists>e. parseTunnelArgs stat ord args = Inl e"
proof (rule ccontr)
  assume "\<nexists>e. parseTunnelArgs stat ord args = Inl e"
  then obtain gs where gs: "parseTunnelArgs stat ord args = Inr gs" by (cases "parseTunnelArgs stat ord args") auto
  then obtain st where st: "scan_args args empty_scan = Inr st" and co: "\<not> coexist_error (inherit_all st)"
    by (auto simp: parseTunnelArgs_def result_simps Let_def split: if_splits)
  have inv: "scan_inv (flag_pairs args) st" by (rule scan_of [OF st])
  have act: "(k, inherit_group st k (getGroup k (sc_raw st))) \<in> set (inherit_all st)"
      "active (inherit_group st k (getGroup k (sc_raw st)))"
    if "mapping_arg (flag_pairs args) k a b c" for k a b c
  proof -
    have "entries_of (a @ b) (getGroup k (sc_raw st)) \<noteq> []" using scan_invD(6) [OF inv that] by auto
    then have "rg_entries (getGroup k (sc_raw st)) \<noteq> []" by (auto simp: entries_of_def)
    then show "(k, inherit_group st k (getGroup k (sc_raw st))) \<in> set (inherit_all st)"
      "active (inherit_group st k (getGroup k (sc_raw st)))"
      using getGroup_absent by (auto simp: inherit_all_groups active_def)
  qed
  have "distinct (map fst (inherit_all st))"
    using scan_invD(7) [OF inv] by (simp add: inherit_all_def group_nums_def comp_def)
  then have "map_of (inherit_all st) (-1) = Some (inherit_group st (-1) (getGroup (-1) (sc_raw st)))"
    by (rule map_of_is_SomeI) (rule act(1) [OF assms(1)])
  with act [OF assms(1)] act [OF assms(2)] assms(3) have "coexist_error (inherit_all st)"
    by (auto simp: coexist_error_def list_ex_iff)
  with co show False ..
qed

theorem parseTunnelArgs_coexist_witness:
  "\<exists>e. parseTunnelArgs (\<lambda>_. True) (\<lambda>_ ks. ks) [''-S'', ''80:h'', ''-C2'', ''70:h:7''] = Inl e"
proof (rule parseTunnelArgs_coexist)
  show "mapping_arg (flag_pairs [''-S'', ''80:h'', ''-C2'', ''70:h:7'']) (-1) ''S'' [] ''80:h''" by code_simp
  show "mapping_arg (flag_pairs [''-S'', ''80:h'', ''-C2'', ''70:h:7'']) 2 ''C'' [] ''70:h:7''" by code_simp
qed simp

text \<open>Sub identifiers with digits can collide: in \<open>Ports\<close> the key of sub identifier \<open>a1\<close> with port 80 is that
  of sub identifier \<open>a\<close> with port 180, so one of the two ports silently disappears.\<close>

lemma port_key_collision:
  "map_sum id (map (map fst \<circ> Ports)) (parseTunnelArgs (\<lambda>_. False) (\<lambda>_ ks. ks)
      [''-K'', ''k'', ''-Sa1'', ''80:h'', ''-Sa'', ''180:h'']) = Inr [[''Sa180'']]"
  by code_simp

end
