(* ===== verification/Ipset.thy ===== *)
theory Ipset
  imports Tsaddr
begin

text \<open>IP-in-set lookup functions (\<open>net/ipset/ipset.go\<close>).

  \<open>NewContainsIPFunc\<close> chooses one of six implementations by the length and the contents of the
  prefix list.  The type \<open>bart.Lite\<close> is a third-party routing table: its zero value, \<open>Insert\<close> and
  \<open>Contains\<close> are the fields of the record argument \<open>bt\<close> of the definition.  The locale \<open>prefix_table\<close> states what such a table promises; the linear scan and the address set of
  the package itself are interpretations of it.\<close>


section \<open>The lookup functions\<close>

definition emptySet :: "addr \<Rightarrow> bool" where "emptySet ip = False"

fun prefixContainsLoop :: "prefix list \<Rightarrow> addr \<Rightarrow> bool" where
  "prefixContainsLoop [] ip = False"
| "prefixContainsLoop (p # addrs) ip = (if pfx_Contains p ip then True else prefixContainsLoop addrs ip)"

definition oneIP :: "addr \<Rightarrow> addr \<Rightarrow> bool" where "oneIP ip1 ip = (ip = ip1)"

definition twoIP :: "addr \<Rightarrow> addr \<Rightarrow> addr \<Rightarrow> bool" where
  "twoIP ip1 ip2 ip = (ip = ip1 \<or> ip = ip2)"

definition ipInMap :: "addr set \<Rightarrow> addr \<Rightarrow> bool" where "ipInMap m ip = (ip \<in> m)"

record 't bart_ops =
  bart_empty :: 't
  bart_insert :: "prefix \<Rightarrow> 't \<Rightarrow> 't"
  bart_contains :: "'t \<Rightarrow> addr \<Rightarrow> bool"

definition NewContainsIPFunc :: "'t bart_ops \<Rightarrow> prefix list \<Rightarrow> addr \<Rightarrow> bool" where
  "NewContainsIPFunc bt addrs =
     (if length addrs = 0 then emptySet
      else if \<exists>p \<in> set addrs. \<not> IsSingleIP p then
        (if length addrs = 1 then pfx_Contains (addrs ! 0)
         else if length addrs \<le> 6 then prefixContainsLoop addrs
         else bart_contains bt (fold (bart_insert bt) addrs (bart_empty bt)))
      else if length addrs = 1 then oneIP (pfx_Addr (addrs ! 0))
      else if length addrs = 2 then twoIP (pfx_Addr (addrs ! 0)) (pfx_Addr (addrs ! 1))
      else ipInMap (fold (\<lambda>p. insert (pfx_Addr p)) addrs {}))"


section \<open>The contract of a prefix table\<close>

text \<open>A table built by insertions answers for an address without a zone whether an inserted prefix
  contains it, for the prefixes the table accepts.\<close>

locale prefix_table =
  fixes t_empty :: 't
    and t_insert :: "prefix \<Rightarrow> 't \<Rightarrow> 't"
    and t_contains :: "'t \<Rightarrow> addr \<Rightarrow> bool"
    and accepts :: "prefix \<Rightarrow> bool"
  assumes contains_empty: "\<not> t_contains t_empty ip"
    and contains_insert: "accepts p \<Longrightarrow> addr_Zone ip = [] \<Longrightarrow>
      t_contains (t_insert p t) ip \<longleftrightarrow> pfx_Contains p ip \<or> t_contains t ip"
begin

lemma contains_fold:
  "\<forall>p \<in> set ps. accepts p \<Longrightarrow> addr_Zone ip = [] \<Longrightarrow>
   t_contains (fold t_insert ps t) ip \<longleftrightarrow> (\<exists>p \<in> set ps. pfx_Contains p ip) \<or> t_contains t ip"
  by (induction ps arbitrary: t) (auto simp: contains_insert)

lemma contains_built:
  "\<forall>p \<in> set ps. accepts p \<Longrightarrow> addr_Zone ip = [] \<Longrightarrow>
   t_contains (fold t_insert ps t_empty) ip \<longleftrightarrow> PrefixesContainsIP ps ip"
  by (simp add: contains_fold contains_empty PrefixesContainsIP_iff)

end

lemma prefixContainsLoop_iff: "prefixContainsLoop ps ip \<longleftrightarrow> PrefixesContainsIP ps ip"
  by (induction ps) auto

interpretation linear: prefix_table "[]" "\<lambda>p ps. p # ps" prefixContainsLoop "\<lambda>_. True"
  by unfold_locales auto

interpretation addr_map: prefix_table "{}" "\<lambda>p. insert (pfx_Addr p)" ipInMap
    "\<lambda>p. wf_prefix p \<and> IsSingleIP p"
  by unfold_locales (auto simp: ipInMap_def pfx_Contains_single)


text \<open>The library's contract, as the code relies on it: an empty table contains nothing; after an
  insertion it contains what it did and the addresses of the prefix (a zone is not looked at, so the
  law is about addresses without one).\<close>

definition bart_ok :: "'t bart_ops \<Rightarrow> bool" where
  "bart_ok bt \<longleftrightarrow> (\<forall>ip. \<not> bart_contains bt (bart_empty bt) ip)
     \<and> (\<forall>p t ip. addr_Zone ip = [] \<longrightarrow>
          bart_contains bt (bart_insert bt p t) ip = (pfx_Contains p ip \<or> bart_contains bt t ip))"

text \<open>A table that keeps the prefixes in a list meets it.\<close>

definition list_bart :: "prefix list bart_ops" where
  "list_bart = \<lparr> bart_empty = [], bart_insert = (\<lambda>p ps. p # ps), bart_contains = prefixContainsLoop \<rparr>"

lemma list_bart_ok [simp]: "bart_ok list_bart"
  using linear.contains_empty linear.contains_insert by (simp add: bart_ok_def list_bart_def)

lemma NewContainsIPFunc_iff:
  assumes bart: "bart_ok bt" and wf: "\<forall>p \<in> set addrs. wf_prefix p" and z: "addr_Zone ip = []"
  shows "NewContainsIPFunc bt addrs ip = PrefixesContainsIP addrs ip"
proof -
  have table: "prefix_table (bart_empty bt) (bart_insert bt) (bart_contains bt) (\<lambda>_. True)"
    using bart by unfold_locales (auto simp: bart_ok_def)
  show ?thesis
  proof (cases "\<exists>p \<in> set addrs. \<not> IsSingleIP p")
    case True
    then show ?thesis
      using prefix_table.contains_built [OF table _ z, of addrs]
      by (cases addrs rule: remdups_adj.cases)
        (auto simp: NewContainsIPFunc_def prefixContainsLoop_iff)
  next
    case False
    then show ?thesis using addr_map.contains_built [OF _ z, of addrs] wf
      by (cases addrs rule: remdups_adj.cases)
        (auto simp: NewContainsIPFunc_def emptySet_def oneIP_def twoIP_def pfx_Contains_single)
  qed
qed


section \<open>Properties\<close>

text \<open>C4: The optimised lookup function is equivalent to the reference scan
  \<^const>\<open>PrefixesContainsIP\<close>: whichever of the six implementations \<open>NewContainsIPFunc\<close> picks, the
  function it returns reports, for an address without a zone, whether some prefix of the list
  contains the address, provided the routing table library meets its contract.\<close>

theorem NewContainsIPFunc_scan:
  assumes "bart_ok bt" and "\<forall>p \<in> set addrs. wf_prefix p" and "addr_Zone ip = []"
  shows "NewContainsIPFunc bt addrs ip = PrefixesContainsIP addrs ip"
  using assms by (rule NewContainsIPFunc_iff)

theorem NewContainsIPFunc_scan_witness:
  "NewContainsIPFunc list_bart
     [Prefix (AddrV4 0x0a000000) 8, Prefix (AddrV4 0x64400001) 32, Prefix (AddrV6 1 []) 128,
      Prefix (AddrV4 1) 32, Prefix (AddrV4 2) 32, Prefix (AddrV4 3) 32, Prefix (AddrV4 4) 32]
     (AddrV4 0x0a010203)"
proof -
  let ?l = "[Prefix (AddrV4 0x0a000000) 8, Prefix (AddrV4 0x64400001) 32, Prefix (AddrV6 1 []) 128,
      Prefix (AddrV4 1) 32, Prefix (AddrV4 2) 32, Prefix (AddrV4 3) 32, Prefix (AddrV4 4) 32]"
  have "\<forall>p \<in> set ?l. wf_prefix p" by (simp add: wf_prefix_def)
  moreover have "PrefixesContainsIP ?l (AddrV4 0x0a010203)" by code_simp
  ultimately show ?thesis by (subst NewContainsIPFunc_scan) simp_all
qed

end
