(* ===== verification/Flowtrack.thy ===== *)
theory Flowtrack
  imports Tsaddr
begin

text \<open>Flow tuples and the LRU cache keyed by them (\<open>net/flowtrack/flowtrack.go\<close>).

  The cache keeps a doubly linked list of entries, most recently used first, and a map from the key
  to the list element.  A list element is modelled by an identifier (the pointer) paired with its
  entry, so that the map holds identifiers as the code's map holds pointers; \<open>c_next\<close> is the
  allocator.  The zero value of the cache has neither list nor map.  The locale \<open>lru\<close> is the
  contract of an LRU cache over its abstract content, a list of key-value pairs in order of use.\<close>

named_theorems lru_simps


section \<open>Tuples\<close>

record flow_tuple =
  t_src :: "128 word"
  t_dst :: "128 word"
  t_srcPort :: u16
  t_dstPort :: u16
  t_proto :: byte

definition MakeTuple :: "byte \<Rightarrow> addrport \<Rightarrow> addrport \<Rightarrow> flow_tuple" where
  "MakeTuple proto src dst =
     \<lparr> t_src = As16 (ap_Addr src), t_dst = As16 (ap_Addr dst),
       t_srcPort = ap_Port src, t_dstPort = ap_Port dst, t_proto = proto \<rparr>"

definition SrcAddr :: "flow_tuple \<Rightarrow> addr" where "SrcAddr t = Unmap (AddrV6 (t_src t) [])"
definition DstAddr :: "flow_tuple \<Rightarrow> addr" where "DstAddr t = Unmap (AddrV6 (t_dst t) [])"

text \<open>The adapter record of the JSON representation: \<open>MarshalJSON\<close> encodes it, \<open>UnmarshalJSON\<close>
  rebuilds the tuple from it (the JSON text itself is the standard library's).\<close>

record tupleOld =
  to_Proto :: byte
  to_Src :: addrport
  to_Dst :: addrport

definition tuple_MarshalJSON :: "flow_tuple \<Rightarrow> tupleOld" where
  "tuple_MarshalJSON t =
     \<lparr> to_Proto = t_proto t, to_Src = AddrPort (SrcAddr t) (t_srcPort t),
       to_Dst = AddrPort (DstAddr t) (t_dstPort t) \<rparr>"

definition tuple_UnmarshalJSON :: "tupleOld \<Rightarrow> flow_tuple" where
  "tuple_UnmarshalJSON ot = MakeTuple (to_Proto ot) (to_Src ot) (to_Dst ot)"


section \<open>The cache\<close>

record 'v entry =
  e_key :: flow_tuple
  e_value :: 'v

type_synonym 'v element = "nat \<times> 'v entry"

record 'v cache =
  MaxEntries :: int
  c_ll :: "'v element list option"
  c_m :: "(flow_tuple \<times> nat) list option"
  c_next :: nat

text \<open>\<open>container/list\<close>: the operations the cache uses.\<close>

definition list_Remove :: "nat \<Rightarrow> 'v element list \<Rightarrow> 'v element list" where
  "list_Remove i ll = filter (\<lambda>e. fst e \<noteq> i) ll"

definition list_MoveToFront :: "nat \<Rightarrow> 'v element list \<Rightarrow> 'v element list" where
  "list_MoveToFront i ll = filter (\<lambda>e. fst e = i) ll @ filter (\<lambda>e. fst e \<noteq> i) ll"

definition set_value :: "nat \<Rightarrow> 'v \<Rightarrow> 'v element list \<Rightarrow> 'v element list" where
  "set_value i v ll = map (\<lambda>(j, e). (j, if j = i then e \<lparr> e_value := v \<rparr> else e)) ll"

definition c_lookup :: "'v cache \<Rightarrow> flow_tuple \<Rightarrow> nat option" where
  "c_lookup c key = (case c_m c of None \<Rightarrow> None | Some m \<Rightarrow> map_of m key)"

definition cache_Len :: "'v cache \<Rightarrow> int" where
  "cache_Len c = (case c_m c of None \<Rightarrow> 0 | Some m \<Rightarrow> int (length m))"

definition removeElement :: "'v element \<Rightarrow> 'v cache \<Rightarrow> 'v cache" where
  "removeElement e c =
     c \<lparr> c_ll := map_option (list_Remove (fst e)) (c_ll c),
         c_m := map_option (AList.delete (e_key (snd e))) (c_m c) \<rparr>"

definition RemoveOldest :: "'v cache \<Rightarrow> 'v cache" where
  "RemoveOldest c = (case c_ll c of
       None \<Rightarrow> c
     | Some ll \<Rightarrow> if ll = [] then c else removeElement (last ll) c)"

definition cache_init :: "'v cache \<Rightarrow> 'v cache" where
  "cache_init c = (if c_m c = None then c \<lparr> c_m := Some [], c_ll := Some [] \<rparr> else c)"

definition cache_Add :: "flow_tuple \<Rightarrow> 'v \<Rightarrow> 'v cache \<Rightarrow> 'v cache" where
  "cache_Add key val c0 =
     (let c = cache_init c0 in
      case c_lookup c key of
        Some ee \<Rightarrow> c \<lparr> c_ll := map_option (\<lambda>ll. set_value ee val (list_MoveToFront ee ll)) (c_ll c) \<rparr>
      | None \<Rightarrow>
          let c' = c \<lparr> c_ll := map_option (\<lambda>ll. (c_next c, \<lparr> e_key = key, e_value = val \<rparr>) # ll) (c_ll c),
                       c_m := map_option (AList.update key (c_next c)) (c_m c),
                       c_next := c_next c + 1 \<rparr> in
          if MaxEntries c' \<noteq> 0 \<and> cache_Len c' > MaxEntries c' then RemoveOldest c' else c')"

definition cache_Get :: "flow_tuple \<Rightarrow> 'v cache \<Rightarrow> 'v option \<times> 'v cache" where
  "cache_Get key c = (case c_lookup c key of
       None \<Rightarrow> (None, c)
     | Some ele \<Rightarrow>
         let ll = list_MoveToFront ele (the (c_ll c)) in
         (map_option e_value (map_of ll ele), c \<lparr> c_ll := Some ll \<rparr>))"

definition cache_Remove :: "flow_tuple \<Rightarrow> 'v cache \<Rightarrow> 'v cache" where
  "cache_Remove key c = (case c_lookup c key of
       None \<Rightarrow> c
     | Some ele \<Rightarrow> (case map_of (the (c_ll c)) ele of
           None \<Rightarrow> c
         | Some e \<Rightarrow> removeElement (ele, e) c))"

definition new_cache :: "int \<Rightarrow> 'v cache" where
  "new_cache n = \<lparr> MaxEntries = n, c_ll = None, c_m = None, c_next = 0 \<rparr>"


section \<open>The contract\<close>

definition lru_touch :: "'k \<Rightarrow> ('k \<times> 'v) list \<Rightarrow> ('k \<times> 'v) list" where
  "lru_touch k xs = (case map_of xs k of None \<Rightarrow> xs | Some v \<Rightarrow> (k, v) # AList.delete k xs)"

definition lru_add :: "int \<Rightarrow> 'k \<Rightarrow> 'v \<Rightarrow> ('k \<times> 'v) list \<Rightarrow> ('k \<times> 'v) list" where
  "lru_add n k v xs =
     (if has_key xs k then (k, v) # AList.delete k xs
      else if n \<noteq> 0 \<and> int (length xs) + 1 > n then butlast ((k, v) # xs) else (k, v) # xs)"

lemma key_take_delete:
  "k \<in> fst ` set (take j xs) \<Longrightarrow> k \<noteq> k' \<Longrightarrow> k \<in> fst ` set (take j (AList.delete k' xs))"
proof (induction xs arbitrary: j)
  case (Cons x xs)
  show ?case
  proof (cases j)
    case (Suc i)
    have "set (take i ys) \<subseteq> set (take (Suc i) ys)" for ys :: "('a \<times> 'b) list"
      by (rule set_take_subset_set_take) simp
    with Suc Cons show ?thesis by (cases x) (fastforce simp: AList.delete_eq)
  qed (use Cons in simp)
qed simp

text \<open>The position of a key in the order of use grows by at most one per addition.\<close>

lemma lru_add_keeps:
  assumes "k \<in> fst ` set (take j xs)" and "int j < n"
  shows "k \<in> fst ` set (take (Suc j) (lru_add n k' v xs))"
proof (cases "has_key xs k'")
  case True
  with assms key_take_delete [of k j xs k'] show ?thesis
    by (cases "k = k'") (auto simp: lru_add_def)
next
  case False
  show ?thesis
  proof (cases "n \<noteq> 0 \<and> int (length xs) + 1 > n")
    case True
    then have "take j (butlast xs) = take j xs" "xs \<noteq> []" using assms(2) by (auto simp: take_butlast)
    with False True assms show ?thesis by (auto simp: lru_add_def)
  next
    case not_full: False
    with False have "lru_add n k' v xs = (k', v) # xs" unfolding lru_add_def by (simp only: if_False) 
    with assms(1) show ?thesis by simp
  qed
qed

lemma lru_touch_keeps:
  assumes "k \<in> fst ` set (take j xs)"
  shows "k \<in> fst ` set (take (Suc j) (lru_touch k' xs))"
proof (cases "map_of xs k'")
  case None
  have "set (take j xs) \<subseteq> set (take (Suc j) xs)" by (rule set_take_subset_set_take) simp
  with None assms show ?thesis by (auto simp: lru_touch_def)
next
  case (Some v)
  with assms key_take_delete [of k j xs k'] show ?thesis
    by (cases "k = k'") (auto simp: lru_touch_def)
qed

lemma length_lru_add:
  assumes "0 < n" and "int (length xs) \<le> n"
  shows "int (length (lru_add n k v xs)) \<le> n"
proof -
  have "has_key xs k \<Longrightarrow> length (AList.delete k xs) < length xs"
    by (auto simp: AList.delete_eq map_of_eq_None_iff intro!: length_filter_less)
  with assms show ?thesis by (auto simp: lru_add_def)
qed

locale lru =
  fixes limit :: "'c \<Rightarrow> int"
    and get :: "'k \<Rightarrow> 'c \<Rightarrow> 'v option \<times> 'c"
    and add :: "'k \<Rightarrow> 'v \<Rightarrow> 'c \<Rightarrow> 'c"
    and remove :: "'k \<Rightarrow> 'c \<Rightarrow> 'c"
    and content :: "'c \<Rightarrow> ('k \<times> 'v) list"
    and invar :: "'c \<Rightarrow> bool"
  assumes invar_get: "invar c \<Longrightarrow> invar (snd (get k c))"
    and invar_add: "invar c \<Longrightarrow> invar (add k v c)"
    and invar_remove: "invar c \<Longrightarrow> invar (remove k c)"
    and limit_get: "limit (snd (get k c)) = limit c"
    and limit_add: "limit (add k v c) = limit c"
    and limit_remove: "limit (remove k c) = limit c"
    and distinct_content: "invar c \<Longrightarrow> distinct (map fst (content c))"
    and get_result: "invar c \<Longrightarrow> fst (get k c) = map_of (content c) k"
    and get_content: "invar c \<Longrightarrow> content (snd (get k c)) = lru_touch k (content c)"
    and add_content: "invar c \<Longrightarrow> content (add k v c) = lru_add (limit c) k v (content c)"
    and remove_content: "invar c \<Longrightarrow> content (remove k c) = AList.delete k (content c)"
begin

lemma get_keeps:
  assumes "invar c"
  shows "fst (get k' (snd (get k c))) = fst (get k' c)"
  using assms distinct_content [OF assms]
  by (auto simp: get_result invar_get get_content lru_touch_def map_of_delete split: option.split)

lemma get_add_same:
  assumes "invar c" and "0 \<le> limit c"
  shows "fst (get k (add k v c)) = Some v"
  using assms by (auto simp: get_result invar_add add_content lru_add_def)

lemma get_add_other_unbounded:
  assumes "invar c" and "limit c = 0" and "k' \<noteq> k"
  shows "fst (get k' (add k v c)) = fst (get k' c)"
  using assms by (simp add: get_result invar_add add_content lru_add_def map_of_delete)

lemma recent_get:
  assumes "invar c" and "k \<in> fst ` set (take j (content c))"
  shows "k \<in> fst ` set (take (Suc j) (content (snd (get k' c))))"
  using lru_touch_keeps [OF assms(2)] assms(1) by (simp add: get_content)

lemma recent_add:
  assumes "invar c" and "k \<in> fst ` set (take j (content c))" and "int j < limit c"
  shows "k \<in> fst ` set (take (Suc j) (content (add k' v c)))"
  using lru_add_keeps [OF assms(2,3)] assms(1) by (simp add: add_content)

lemma recent_new:
  assumes "invar c" and "0 < limit c"
  shows "k \<in> fst ` set (take 1 (content (add k v c)))"
  using assms by (auto simp: add_content lru_add_def)

lemma recent_found:
  assumes "invar c" and "k \<in> fst ` set (take j (content c))"
  shows "fst (get k c) \<noteq> None"
  using assms by (auto simp: get_result map_of_eq_None_iff dest: in_set_takeD)

lemma get_fold_adds:
  assumes "invar c" and "k \<in> fst ` set (take j (content c))" and "int (j + length kvs) \<le> limit c"
  shows "fst (get k (fold (\<lambda>(k', v). add k' v) kvs c)) \<noteq> None"
  using assms
proof (induction kvs arbitrary: j c)
  case Nil
  then show ?case by (simp add: recent_found)
next
  case (Cons kv kvs)
  have "k \<in> fst ` set (take (Suc j) (content (add (fst kv) (snd kv) c)))"
    using Cons.prems by (intro recent_add) auto
  with Cons.IH [of "add (fst kv) (snd kv) c" "Suc j"] Cons.prems show ?case
    by (simp add: invar_add limit_add case_prod_beta)
qed

text \<open>A key just added survives as many further additions as the limit leaves room for.\<close>

lemma get_recent:
  assumes "invar c" and "int (length kvs) < limit c"
  shows "fst (get k (fold (\<lambda>(k', v). add k' v) kvs (add k v0 c))) \<noteq> None"
proof -
  have "k \<in> fst ` set (take 1 (content (add k v0 c)))" using assms by (intro recent_new) simp_all
  from get_fold_adds [OF _ this, of kvs] assms show ?thesis
    by (simp add: invar_add limit_add)
qed

lemma get_remove:
  assumes "invar c"
  shows "fst (get k' (remove k c)) = (if k' = k then None else fst (get k' c))"
  using assms by (simp add: get_result invar_remove remove_content map_of_delete)

end


section \<open>The cache meets the contract\<close>

definition elem_kv :: "'v element \<Rightarrow> flow_tuple \<times> 'v" where
  "elem_kv x = (e_key (snd x), e_value (snd x))"

definition cache_content :: "'v cache \<Rightarrow> (flow_tuple \<times> 'v) list" where
  "cache_content c = (case c_ll c of None \<Rightarrow> [] | Some ll \<Rightarrow> map elem_kv ll)"

text \<open>The map and the list hold the same elements, each once, under the key of the entry.\<close>

definition linked :: "'v element list \<Rightarrow> (flow_tuple \<times> nat) list \<Rightarrow> bool" where
  "linked ll m \<longleftrightarrow> distinct (map fst ll) \<and> distinct (map fst m) \<and> distinct (map (e_key \<circ> snd) ll)
     \<and> set m = (\<lambda>x. (e_key (snd x), fst x)) ` set ll"

definition cache_inv :: "'v cache \<Rightarrow> bool" where
  "cache_inv c = (case (c_ll c, c_m c) of
      (None, None) \<Rightarrow> True
    | (Some ll, Some m) \<Rightarrow> linked ll m \<and> (\<forall>x \<in> set ll. fst x < c_next c)
    | _ \<Rightarrow> False)"

lemma find_NoneD: "find P xs = None \<Longrightarrow> \<forall>x \<in> set xs. \<not> P x"
  by (induction xs) (auto split: if_splits)

lemma linked_lookup:
  assumes "linked ll m"
  shows "map_of m k = map_option fst (find (\<lambda>x. e_key (snd x) = k) ll)"
proof (cases "find (\<lambda>x. e_key (snd x) = k) ll")
  case None
  then have "\<forall>x \<in> set ll. e_key (snd x) \<noteq> k" by (rule find_NoneD)
  with assms None show ?thesis by (auto simp: linked_def map_of_eq_None_iff)
next
  case (Some x)
  then have "x \<in> set ll" "e_key (snd x) = k" by (auto simp: find_Some_iff)
  with assms Some show ?thesis by (auto simp: linked_def intro!: map_of_is_SomeI)
qed

lemma linked_length: "linked ll m \<Longrightarrow> length m = length ll"
proof -
  assume l: "linked ll m"
  then have "length m = card (set m)" by (metis linked_def distinct_card distinct_map)
  also have "\<dots> = card (set ll)"
    using l by (auto simp: linked_def distinct_map intro!: card_image inj_onI dest: inj_onD)
  also have "\<dots> = length ll" using l by (metis linked_def distinct_card distinct_map)
  finally show ?thesis .
qed

lemma find_first:
  "find P xs = Some x \<Longrightarrow> \<exists>as bs. xs = as @ x # bs \<and> (\<forall>y \<in> set as. \<not> P y) \<and> P x"
proof (induction xs)
  case (Cons a xs)
  show ?case
  proof (cases "P a")
    case True
    with Cons.prems show ?thesis by (intro exI [of _ "[]"] exI [of _ xs]) simp
  next
    case False
    with Cons obtain as bs where "xs = as @ x # bs \<and> (\<forall>y \<in> set as. \<not> P y) \<and> P x" by auto
    with False show ?thesis by (intro exI [of _ "a # as"] exI [of _ bs]) simp
  qed
qed simp

lemma find_split:
  assumes "distinct (map fst ll)" "find P ll = Some x"
  obtains as bs where "ll = as @ x # bs" "\<forall>y \<in> set as. \<not> P y" "P x"
    "list_MoveToFront (fst x) ll = x # as @ bs" "list_Remove (fst x) ll = as @ bs"
proof -
  from assms(2) obtain as bs where ll: "ll = as @ x # bs" "\<forall>y \<in> set as. \<not> P y" "P x"
    using find_first by metis
  moreover have "\<forall>y \<in> set as \<union> set bs. fst y \<noteq> fst x" using assms(1) ll(1) by (auto simp: rev_image_eqI)
  then have "filter (\<lambda>e. fst e = fst x) as = []" "filter (\<lambda>e. fst e = fst x) bs = []"
    "filter (\<lambda>e. fst e \<noteq> fst x) as = as" "filter (\<lambda>e. fst e \<noteq> fst x) bs = bs"
    by (auto simp: filter_empty_conv filter_id_conv)
  ultimately show ?thesis using that by (simp add: list_MoveToFront_def list_Remove_def)
qed


lemma absent_content: "\<forall>y \<in> set ys. e_key (snd y) \<noteq> k \<Longrightarrow> map_of (map elem_kv ys) k = None"
  by (induction ys) (auto simp: elem_kv_def)

lemma find_none_content:
  "find (\<lambda>x. e_key (snd x) = k) ll = None \<Longrightarrow> map_of (map elem_kv ll) k = None"
  by (intro absent_content find_NoneD)

lemma set_delete_key:
  "set m = insert (k, i) S \<Longrightarrow> \<forall>p \<in> S. fst p \<noteq> k \<Longrightarrow> set (AList.delete k m) = S"
  by (auto simp: AList.delete_eq)

text \<open>The view of a cached key that the proofs share: the element, its neighbours, and what the
  cache's operations and the abstract ones make of them.\<close>

lemma linked_found:
  assumes l: "linked ll m" and x: "find (\<lambda>x. e_key (snd x) = k) ll = Some x"
  obtains as bs where "ll = as @ x # bs" "e_key (snd x) = k" "map_of ll (fst x) = Some (snd x)"
    "list_MoveToFront (fst x) ll = x # as @ bs" "list_Remove (fst x) ll = as @ bs"
    "map_of (map elem_kv ll) k = Some (e_value (snd x))"
    "AList.delete k (map elem_kv ll) = map elem_kv (as @ bs)"
    "linked (as @ bs) (AList.delete k m)" "linked (x # as @ bs) m"
    "\<forall>y \<in> set as \<union> set bs. fst y \<noteq> fst x \<and> e_key (snd y) \<noteq> k"
proof -
  from l have d: "distinct (map fst ll)" by (simp add: linked_def)
  obtain as bs where ab: "ll = as @ x # bs" "e_key (snd x) = k"
    "list_MoveToFront (fst x) ll = x # as @ bs" "list_Remove (fst x) ll = as @ bs"
    by (rule find_split [OF d x])
  have other: "\<forall>y \<in> set as \<union> set bs. fst y \<noteq> fst x \<and> e_key (snd y) \<noteq> k"
  proof
    fix y assume y: "y \<in> set as \<union> set bs"
    have "fst x \<notin> fst ` (set as \<union> set bs)" "(e_key \<circ> snd) x \<notin> (e_key \<circ> snd) ` (set as \<union> set bs)"
      using l ab(1) by (auto simp only: linked_def map_append list.map distinct_append distinct.simps
          set_append list.set set_map image_Un)
    with imageI [OF y, of fst] imageI [OF y, of "e_key \<circ> snd"] ab(2)
    show "fst y \<noteq> fst x \<and> e_key (snd y) \<noteq> k" by (metis comp_apply)
  qed
  have "AList.delete k (map elem_kv as) = map elem_kv as" "AList.delete k (map elem_kv bs) = map elem_kv bs"
    using other by (auto intro!: delete_absent absent_content)
  then have del: "AList.delete k (map elem_kv ll) = map elem_kv (as @ bs)"
    using ab(1,2) by (simp add: AList.delete_eq elem_kv_def)
  let ?f = "\<lambda>x. (e_key (snd x), fst x)"
  have "set m = insert (?f x) (?f ` (set as \<union> set bs))" using l ab(1) by (auto simp: linked_def)
  then have "set (AList.delete k m) = ?f ` (set as \<union> set bs)"
    using ab(2) other by (intro set_delete_key) (simp, simp only: ball_simps fst_conv, blast)
  moreover have "distinct (map fst (as @ bs))" "distinct (map (e_key \<circ> snd) (as @ bs))" "distinct (map fst m)"
    using l ab(1) by (auto simp only: linked_def map_append list.map distinct_append distinct.simps
          set_append list.set set_map)
  ultimately have "linked (as @ bs) (AList.delete k m)"
    by (simp add: linked_def distinct_keys_delete)
  moreover have "linked (x # as @ bs) m" using l ab(1)
    by (simp only: linked_def) auto
  moreover have "map_of (map elem_kv ll) k = Some (e_value (snd x))"
  proof -
    have "map_of (map elem_kv as) k = None" using other by (intro absent_content) simp
    with ab(1,2) show ?thesis by (simp add: elem_kv_def map_add_def)
  qed
  moreover have "map_of ll (fst x) = Some (snd x)" using d ab(1) by (intro map_of_is_SomeI) simp_all
  ultimately show ?thesis using that ab del other by blast
qed


lemma cache_inv_cases:
  assumes "cache_inv c"
  obtains (zero) "c_ll c = None" "c_m c = None"
  | (live) ll m where "c_ll c = Some ll" "c_m c = Some m" "linked ll m" "\<forall>x \<in> set ll. fst x < c_next c"
  using assms by (auto simp: cache_inv_def split: option.splits)

lemma cache_Get_refines:
  assumes "cache_inv c"
  shows "cache_inv (snd (cache_Get k c)) \<and> fst (cache_Get k c) = map_of (cache_content c) k
    \<and> cache_content (snd (cache_Get k c)) = lru_touch k (cache_content c)"
  using assms
proof (cases rule: cache_inv_cases)
  case (live ll m)
  show ?thesis
  proof (cases "find (\<lambda>x. e_key (snd x) = k) ll")
    case None
    with live assms find_none_content [OF None] show ?thesis
      by (simp add: cache_Get_def c_lookup_def linked_lookup cache_content_def cache_inv_def lru_touch_def)
  next
    case (Some x)
    from live(3) Some show ?thesis
      by (rule linked_found) (use live Some in \<open>simp add: cache_Get_def c_lookup_def linked_lookup
          cache_content_def cache_inv_def lru_touch_def elem_kv_def\<close>)
  qed
qed (simp add: cache_Get_def c_lookup_def cache_content_def cache_inv_def lru_touch_def)

lemma cache_Remove_refines:
  assumes "cache_inv c"
  shows "cache_inv (cache_Remove k c) \<and> cache_content (cache_Remove k c) = AList.delete k (cache_content c)"
  using assms
proof (cases rule: cache_inv_cases)
  case (live ll m)
  show ?thesis
  proof (cases "find (\<lambda>x. e_key (snd x) = k) ll")
    case None
    with live assms find_none_content [OF None] show ?thesis
      by (simp add: cache_Remove_def c_lookup_def linked_lookup cache_content_def cache_inv_def delete_absent)
  next
    case (Some x)
    from live(3) Some show ?thesis
      by (rule linked_found) (use live Some in \<open>simp add: cache_Remove_def removeElement_def c_lookup_def
          linked_lookup cache_content_def cache_inv_def\<close>)
  qed
qed (simp add: cache_Remove_def c_lookup_def cache_content_def cache_inv_def)


lemma cache_init_live:
  assumes "cache_inv c"
  obtains ll m where "c_ll (cache_init c) = Some ll" "c_m (cache_init c) = Some m" "linked ll m"
    "\<forall>x \<in> set ll. fst x < c_next c" "c_next (cache_init c) = c_next c"
    "cache_content c = map elem_kv ll" "MaxEntries (cache_init c) = MaxEntries c"
  using assms
proof (cases rule: cache_inv_cases)
  case zero
  then show ?thesis by (intro that [of "[]" "[]"]) (simp_all add: cache_init_def linked_def cache_content_def cache_inv_def)
next
  case (live ll m)
  then show ?thesis by (intro that [of ll m]) (simp_all add: cache_init_def cache_content_def cache_inv_def)
qed

lemma set_value_front:
  assumes "\<forall>y \<in> set ys. fst y \<noteq> fst x"
  shows "set_value (fst x) v (x # ys) = (fst x, (snd x) \<lparr> e_value := v \<rparr>) # ys"
  using assms by (cases x) (auto simp: set_value_def intro!: map_idI)

lemma linked_push:
  assumes "linked ll m" "\<forall>x \<in> set ll. fst x < n" "map_of m k = None"
  shows "linked ((n, \<lparr> e_key = k, e_value = v \<rparr>) # ll) (AList.update k n m)"
proof -
  have k: "k \<notin> fst ` set m" using assms(3) by (simp add: map_of_eq_None_iff)
  moreover have "fst ` set m = (e_key \<circ> snd) ` set ll" using assms(1) by (simp add: linked_def image_image)
  moreover have "AList.update k n m = m @ [(k, n)]" using k by (induction m) auto
  ultimately show ?thesis using assms by (auto simp: linked_def)
qed

lemma RemoveOldest_live:
  assumes "c_ll c = Some ll" "c_m c = Some m" "linked ll m" "ll \<noteq> []"
  obtains m' where "c_ll (RemoveOldest c) = Some (butlast ll)" "c_m (RemoveOldest c) = Some m'"
    "linked (butlast ll) m'" "c_next (RemoveOldest c) = c_next c" "MaxEntries (RemoveOldest c) = MaxEntries c"
proof -
  obtain ys x where ll: "ll = ys @ [x]" using assms(4) by (cases ll rule: rev_cases) auto
  have "find (\<lambda>y. e_key (snd y) = e_key (snd x)) ll = Some x"
  proof -
    have "\<forall>y \<in> set ys. e_key (snd y) \<noteq> e_key (snd x)" using assms(3) ll by (auto simp: linked_def rev_image_eqI)
    then show ?thesis unfolding ll by (induction ys) auto
  qed
  from linked_found [OF assms(3) this] obtain as bs where
    "list_Remove (fst x) ll = as @ bs" "ll = as @ x # bs" "linked (as @ bs) (AList.delete (e_key (snd x)) m)"
    "\<forall>y \<in> set as \<union> set bs. fst y \<noteq> fst x \<and> e_key (snd y) \<noteq> e_key (snd x)" by metis
  moreover from this ll have "bs = []" by (cases bs rule: rev_cases) auto
  ultimately show ?thesis using assms ll
    by (intro that [of "AList.delete (e_key (snd x)) m"]) (simp_all add: RemoveOldest_def removeElement_def)
qed


lemma cache_Add_refines:
  assumes "cache_inv c"
  shows "cache_inv (cache_Add k v c) \<and> MaxEntries (cache_Add k v c) = MaxEntries c
    \<and> cache_content (cache_Add k v c) = lru_add (MaxEntries c) k v (cache_content c)"
proof -
  obtain ll m where i: "c_ll (cache_init c) = Some ll" "c_m (cache_init c) = Some m" "linked ll m"
    "\<forall>x \<in> set ll. fst x < c_next c" "c_next (cache_init c) = c_next c"
    "cache_content c = map elem_kv ll" "MaxEntries (cache_init c) = MaxEntries c"
    by (rule cache_init_live [OF assms])
  show ?thesis
  proof (cases "find (\<lambda>x. e_key (snd x) = k) ll")
    case (Some x)
    from linked_found [OF i(3) Some] obtain as bs where f: "ll = as @ x # bs" "e_key (snd x) = k"
      "list_MoveToFront (fst x) ll = x # as @ bs" "map_of (map elem_kv ll) k = Some (e_value (snd x))"
      "AList.delete k (map elem_kv ll) = map elem_kv (as @ bs)" "linked (x # as @ bs) m"
      "\<forall>y \<in> set as \<union> set bs. fst y \<noteq> fst x \<and> e_key (snd y) \<noteq> k" by metis
    let ?x = "(fst x, (snd x) \<lparr> e_value := v \<rparr>)"
    have "set_value (fst x) v (x # as @ bs) = ?x # as @ bs" using f(7) by (intro set_value_front) simp
    moreover have "linked (?x # as @ bs) m" using f(6) by (simp add: linked_def)
    ultimately show ?thesis using i Some f
      by (simp add: cache_Add_def c_lookup_def linked_lookup Let_def cache_content_def cache_inv_def lru_add_def elem_kv_def)
  next
    case None
    then have k: "map_of m k = None" using i(3) by (simp add: linked_lookup)
    let ?x = "(c_next c, \<lparr> e_key = k, e_value = v \<rparr>)"
    let ?m = "AList.update k (c_next c) m"
    define c' where "c' = (cache_init c) \<lparr> c_ll := Some (?x # ll), c_m := Some ?m, c_next := c_next c + 1 \<rparr>"
    have l: "linked (?x # ll) ?m" by (rule linked_push [OF i(3,4) k])
    have add: "cache_Add k v c = (if MaxEntries c \<noteq> 0 \<and> int (length ll) + 1 > MaxEntries c then RemoveOldest c' else c')"
      using i k linked_length [OF l] by (simp add: cache_Add_def c_lookup_def Let_def c'_def cache_Len_def add.commute)
    have c': "c_ll c' = Some (?x # ll)" "c_m c' = Some ?m" "\<forall>x \<in> set (?x # ll). fst x < c_next c'" "MaxEntries c' = MaxEntries c"
      using i(4,7) by (auto simp: c'_def less_Suc_eq)
    obtain m' where "c_ll (RemoveOldest c') = Some (butlast (?x # ll))" "c_m (RemoveOldest c') = Some m'"
      "linked (butlast (?x # ll)) m'" "c_next (RemoveOldest c') = c_next c'" "MaxEntries (RemoveOldest c') = MaxEntries c'"
      by (rule RemoveOldest_live [OF c'(1,2) l]) auto
    moreover have "\<forall>x \<in> set (butlast (?x # ll)). fst x < c_next c'" using c'(3) in_set_butlastD by metis
    ultimately show ?thesis using add c' l i(6) find_none_content [OF None]
      by (auto simp: cache_content_def cache_inv_def lru_add_def elem_kv_def map_butlast simp del: butlast.simps)
  qed
qed

interpretation flow_cache: lru MaxEntries cache_Get cache_Add cache_Remove cache_content cache_inv
proof
  fix c :: "'v cache" and k v
  show "MaxEntries (snd (cache_Get k c)) = MaxEntries c"
    by (simp add: cache_Get_def Let_def split: option.split)
  show "MaxEntries (cache_Remove k c) = MaxEntries c"
    by (simp add: cache_Remove_def removeElement_def split: option.split)
  show "MaxEntries (cache_Add k v c) = MaxEntries c"
    by (simp add: cache_Add_def Let_def cache_init_def RemoveOldest_def removeElement_def split: option.split)
  assume "cache_inv c"
  then show "distinct (map fst (cache_content c))"
    by (rule cache_inv_cases) (simp_all add: cache_content_def linked_def elem_kv_def o_def)
qed (simp_all only: cache_Get_refines cache_Add_refines cache_Remove_refines)


lemma RemoveOldest_refines:
  assumes "cache_inv c"
  shows "cache_inv (RemoveOldest c) \<and> MaxEntries (RemoveOldest c) = MaxEntries c
    \<and> cache_content (RemoveOldest c) = butlast (cache_content c)"
  using assms
proof (cases rule: cache_inv_cases)
  case (live ll m)
  show ?thesis
  proof (cases "ll = []")
    case False
    obtain m' where "c_ll (RemoveOldest c) = Some (butlast ll)" "c_m (RemoveOldest c) = Some m'"
      "linked (butlast ll) m'" "c_next (RemoveOldest c) = c_next c" "MaxEntries (RemoveOldest c) = MaxEntries c"
      by (rule RemoveOldest_live [OF live(1,2,3) False])
    moreover have "\<forall>x \<in> set (butlast ll). fst x < c_next c" using live(4) in_set_butlastD by metis
    ultimately show ?thesis using live by (simp add: cache_content_def cache_inv_def map_butlast)
  qed (use live assms in \<open>simp add: RemoveOldest_def cache_content_def cache_inv_def\<close>)
qed (simp add: RemoveOldest_def cache_content_def cache_inv_def)

lemma cache_Len_content: "cache_inv c \<Longrightarrow> cache_Len c = int (length (cache_content c))"
  by (erule cache_inv_cases) (simp_all add: cache_Len_def cache_content_def linked_length)

text \<open>The caches that the exported operations can produce from a fresh one.\<close>

inductive cache_reach :: "int \<Rightarrow> 'v cache \<Rightarrow> bool" for n where
  new: "cache_reach n (new_cache n)"
| add: "cache_reach n c \<Longrightarrow> cache_reach n (cache_Add k v c)"
| get: "cache_reach n c \<Longrightarrow> cache_reach n (snd (cache_Get k c))"
| remove: "cache_reach n c \<Longrightarrow> cache_reach n (cache_Remove k c)"
| oldest: "cache_reach n c \<Longrightarrow> cache_reach n (RemoveOldest c)"

lemma new_cache_inv [simp]: "cache_inv (new_cache n)" "cache_content (new_cache n) = []"
    "MaxEntries (new_cache n) = n"
  by (simp_all add: new_cache_def cache_content_def cache_inv_def)

lemma length_lru_touch:
  "distinct (map fst xs) \<Longrightarrow> length (lru_touch k xs) = length xs"
proof -
  assume d: "distinct (map fst xs)"
  have "distinct (map fst xs) \<Longrightarrow> map_of xs k = Some v \<Longrightarrow> Suc (length (AList.delete k xs)) = length xs" for v
    by (induction xs) (auto split: if_splits simp: delete_absent map_of_eq_None_iff)
  with d show ?thesis by (auto simp: lru_touch_def split: option.split)
qed

lemma cache_reach_inv:
  "cache_reach n c \<Longrightarrow> cache_inv c \<and> MaxEntries c = n \<and> (0 < n \<longrightarrow> int (length (cache_content c)) \<le> n)"
proof (induction rule: cache_reach.induct)
  case (get c k)
  then show ?case
    by (simp add: cache_Get_refines flow_cache.limit_get length_lru_touch flow_cache.distinct_content)
next
  case (remove c k)
  moreover have "int (length (AList.delete k (cache_content c))) \<le> int (length (cache_content c))"
    by (simp add: length_delete_le)
  ultimately show ?case by (auto simp: cache_Remove_refines flow_cache.limit_remove)
next
  case (add c k v)
  then show ?case by (simp add: cache_Add_refines length_lru_add)
next
  case (oldest c)
  then show ?case by (simp add: RemoveOldest_refines) arith
qed simp


section \<open>Properties\<close>

text \<open>C2: The flow cache implements the abstract LRU list: on every cache whose list and map are
  linked, \<open>Get\<close>, \<open>Add\<close>, \<open>Remove\<close> and \<open>RemoveOldest\<close> keep the linkage, \<open>Get\<close> answers as the abstract
  content does and moves the entry to the front, \<open>Add\<close> sets or inserts at the front and evicts the
  least recently used entry only above the limit, \<open>Remove\<close> deletes exactly the key, and \<open>Len\<close> is
  the number of entries.\<close>

theorem flow_cache_refinement:
  assumes "cache_inv c"
  shows "fst (cache_Get k c) = map_of (cache_content c) k
    \<and> cache_content (snd (cache_Get k c)) = lru_touch k (cache_content c)
    \<and> cache_content (cache_Add k v c) = lru_add (MaxEntries c) k v (cache_content c)
    \<and> cache_content (cache_Remove k c) = AList.delete k (cache_content c)
    \<and> cache_content (RemoveOldest c) = butlast (cache_content c)
    \<and> cache_Len c = int (length (cache_content c))
    \<and> cache_inv (snd (cache_Get k c)) \<and> cache_inv (cache_Add k v c) \<and> cache_inv (cache_Remove k c)
    \<and> cache_inv (RemoveOldest c)"
  by (simp add: assms cache_Get_refines cache_Add_refines cache_Remove_refines RemoveOldest_refines cache_Len_content)

definition flow_example :: "u16 \<Rightarrow> flow_tuple" where
  "flow_example p = MakeTuple 17 (AddrPort (AddrV4 0x64400001) p) (AddrPort (AddrV4 0x64400002) 53)"

theorem flow_cache_refinement_witness:
  "cache_content (cache_Add (flow_example 3) True (cache_Add (flow_example 2) True
      (cache_Add (flow_example 1) True (new_cache 2)))) = [(flow_example 3, True), (flow_example 2, True)]
   \<and> fst (cache_Get (flow_example 1) (cache_Add (flow_example 1) True (new_cache 2))) = Some True"
proof -
  have ne: "flow_example 1 \<noteq> flow_example 2" "flow_example 2 \<noteq> flow_example 3" "flow_example 1 \<noteq> flow_example 3"
    by (simp_all add: flow_example_def MakeTuple_def)
  have i: "cache_inv (new_cache 2 :: bool cache)" by simp
  let ?c1 = "cache_Add (flow_example 1) True (new_cache 2)"
  let ?c2 = "cache_Add (flow_example 2) True ?c1"
  have c1: "cache_inv ?c1" "cache_content ?c1 = [(flow_example 1, True)]"
    using flow_cache_refinement [OF i, of "flow_example 1" True] by (simp_all add: lru_add_def)
  have c2: "cache_inv ?c2" "cache_content ?c2 = [(flow_example 2, True), (flow_example 1, True)]"
    using flow_cache_refinement [OF c1(1), of "flow_example 2" True] c1(2) ne
    by (simp_all add: lru_add_def flow_cache.limit_add)
  show ?thesis
    using flow_cache_refinement [OF c2(1), of "flow_example 3" True] c2(2) ne
      flow_cache_refinement [OF c1(1), of "flow_example 1"] c1(2)
    by (simp add: lru_add_def flow_cache.limit_add)
qed

text \<open>C3: The cache never outgrows its limit and never loses a fresh entry: every cache the exported
  operations produce from a fresh cache with limit \<open>n > 0\<close> holds at most \<open>n\<close> entries, and a flow
  just added is still found after any further additions fewer than \<open>n\<close>.\<close>

theorem cache_bounded_recent:
  assumes "cache_reach n c" and "0 < n" and "int (length kvs) < n"
  shows "cache_Len c \<le> n
    \<and> fst (cache_Get k (fold (\<lambda>(k', v). cache_Add k' v) kvs (cache_Add k v0 c))) \<noteq> None"
  using cache_reach_inv [OF assms(1)] assms(2,3) flow_cache.get_recent [of c kvs k v0]
  by (simp add: cache_Len_content)

theorem cache_bounded_recent_witness:
  "fst (cache_Get (flow_example 1) (cache_Add (flow_example 2) True (cache_Add (flow_example 1) True
     (new_cache 2)))) \<noteq> None"
  using cache_bounded_recent [OF cache_reach.new [of 2], of "[(flow_example 2, True)]" "flow_example 1" True]
  by simp

end
