(* ===== verification/PacketFilter.thy ===== *)
theory PacketFilter
  imports Ipset Flowtrack Packet
begin

text \<open>The stateful packet filter (\<open>wgengine/filter\<close>): match rules (\<open>match.go\<close>, \<open>filtertype.go\<close>), the
  translation of control-plane rules (\<open>tailcfg.go\<close>), and the filter itself (\<open>filter.go\<close>).

  A filter points to its connection-tracking state, which a later filter may share.  The states live
  in a store, a list of flow caches; a filter holds the index of its own (\<open>f_state\<close>), and the
  operations take and return the store.  Logging is not modelled beyond the predicates that decide
  whether a packet may be logged; the routing table of \<open>Ipset\<close> and the IP ranges of \<open>netipx\<close> are
  arguments.\<close>

named_theorems filter_simps


section \<open>Rules\<close>

record port_range =
  pr_First :: u16
  pr_Last :: u16

definition AllPorts :: port_range where "AllPorts = \<lparr> pr_First = 0, pr_Last = 0xffff \<rparr>"

definition pr_Contains :: "port_range \<Rightarrow> u16 \<Rightarrow> bool" where
  "pr_Contains pr port \<longleftrightarrow> pr_First pr \<le> port \<and> port \<le> pr_Last pr"

record net_port_range =
  npr_Net :: prefix
  npr_Ports :: port_range

record cap_match =
  cm_Dst :: prefix
  cm_Cap :: string
  cm_Values :: "string list"

record match =
  m_IPProto :: "byte list"
  m_Srcs :: "prefix list"
  m_SrcsContains :: "addr \<Rightarrow> bool"
  m_SrcCaps :: "string list"
  m_Dsts :: "net_port_range list"
  m_Caps :: "cap_match list"

type_synonym cap_test = "(addr \<Rightarrow> string \<Rightarrow> bool) option"

definition srcMatches :: "match \<Rightarrow> addr \<Rightarrow> cap_test \<Rightarrow> bool" where
  "srcMatches m srcAddr hasCap =
     (if m_SrcsContains m srcAddr then True
      else case hasCap of
        Some h \<Rightarrow> list_ex (h srcAddr) (m_SrcCaps m)
      | None \<Rightarrow> False)"

fun matches_match :: "match list \<Rightarrow> parsed \<Rightarrow> cap_test \<Rightarrow> bool" where
  "matches_match [] q hasCap = False"
| "matches_match (m # ms) q hasCap =
     (if IPProto q \<notin> set (m_IPProto m) then matches_match ms q hasCap
      else if \<not> srcMatches m (ap_Addr (Src q)) hasCap then matches_match ms q hasCap
      else if list_ex (\<lambda>dst. pfx_Contains (npr_Net dst) (ap_Addr (Dst q))
                           \<and> pr_Contains (npr_Ports dst) (ap_Port (Dst q))) (m_Dsts m) then True
      else matches_match ms q hasCap)"

definition matchIPsOnly :: "match list \<Rightarrow> parsed \<Rightarrow> cap_test \<Rightarrow> bool" where
  "matchIPsOnly ms q hasCap =
     (let srcAddr = ap_Addr (Src q) in
      if list_ex (\<lambda>m. m_SrcsContains m srcAddr
                    \<and> list_ex (\<lambda>dst. pfx_Contains (npr_Net dst) (ap_Addr (Dst q))) (m_Dsts m)) ms then True
      else case hasCap of
        Some h \<Rightarrow> list_ex (\<lambda>m. list_ex (h srcAddr) (m_SrcCaps m)) ms
      | None \<Rightarrow> False)"

definition matchProtoAndIPsOnlyIfAllPorts :: "match list \<Rightarrow> parsed \<Rightarrow> bool" where
  "matchProtoAndIPsOnlyIfAllPorts ms q =
     list_ex (\<lambda>m. IPProto q \<in> set (m_IPProto m) \<and> m_SrcsContains m (ap_Addr (Src q))
        \<and> list_ex (\<lambda>dst. npr_Ports dst = AllPorts \<and> pfx_Contains (npr_Net dst) (ap_Addr (Dst q))) (m_Dsts m)) ms"


section \<open>Control-plane rules\<close>

record tc_net_port_range =
  tn_IP :: string
  tn_Bits :: "int option"
  tn_Ports :: port_range

record cap_grant =
  cg_Dsts :: "prefix list"
  cg_Caps :: "string list"
  cg_CapMap :: "(string \<times> string list) list"

record filter_rule =
  r_SrcIPs :: "string list"
  r_SrcBits :: "int list"
  r_DstPorts :: "tc_net_port_range list"
  r_IPProto :: "int list"
  r_CapGrant :: "cap_grant list"

datatype rule_error =
    UnexpectedSrcBits
  | UnexpectedDstBits
  | ErrParsePrefix string
  | NonNetworkBits prefix
  | ErrParseAddr string
  | InvalidRange string
  | InvalidIP string
  | UnexpectedCapability string

definition defaultProtos :: "byte list" where "defaultProtos = [TCP, UDP, ICMPv4, ICMPv6]"

text \<open>The argument \<open>range_pfx\<close> is \<open>netipx.IPRangeFrom\<close> followed by \<open>IsValid\<close> and \<open>Prefixes\<close>: \<open>None\<close> for an
  invalid range.\<close>

definition parseIPSet ::
  "(addr \<Rightarrow> addr \<Rightarrow> prefix list option) \<Rightarrow> string \<Rightarrow> rule_error + (prefix list \<times> string)" where
  "parseIPSet range_pfx arg =
     (if arg = ''*'' then
        Inr ([PrefixFrom (IPv4 0 0 0 0) 0, PrefixFrom (AddrFrom16 (replicate 16 0)) 0], [])
      else if has_prefix arg ''cap:'' then Inr ([], drop 4 arg)
      else if CHR ''/'' \<in> set arg then
        (case ParsePrefix arg of
           None \<Rightarrow> Inl (ErrParsePrefix arg)
         | Some pfx \<Rightarrow> if pfx \<noteq> Masked pfx then Inl (NonNetworkBits pfx) else Inr ([pfx], []))
      else if length (filter (\<lambda>c. c = CHR ''-'') arg) = 1 then
        (let i = the (index_byte arg CHR ''-''); ip1s = take i arg; ip2s = drop (i + 1) arg in
         case ParseAddr ip1s of
           None \<Rightarrow> Inl (ErrParseAddr ip1s)
         | Some ip1 \<Rightarrow> (case ParseAddr ip2s of
             None \<Rightarrow> Inl (ErrParseAddr ip2s)
           | Some ip2 \<Rightarrow> (case range_pfx ip1 ip2 of
               None \<Rightarrow> Inl (InvalidRange arg)
             | Some ps \<Rightarrow> Inr (ps, []))))
      else (case ParseAddr arg of
          None \<Rightarrow> Inl (InvalidIP arg)
        | Some ip \<Rightarrow> Inr ([PrefixFrom ip (int (BitLen ip))], [])))"


text \<open>The loops over one rule's sources and destinations.  An error is remembered the first time; a
  failed entry adds nothing.\<close>

definition add_src ::
  "(addr \<Rightarrow> addr \<Rightarrow> prefix list option) \<Rightarrow> string \<Rightarrow> match \<times> rule_error option \<Rightarrow> match \<times> rule_error option" where
  "add_src range_pfx s = (\<lambda>(m, erracc).
     case parseIPSet range_pfx s of
       Inl err \<Rightarrow> (m, if erracc = None then Some err else erracc)
     | Inr (nets, cap) \<Rightarrow>
         (m \<lparr> m_Srcs := m_Srcs m @ nets, m_SrcCaps := (if cap \<noteq> [] then m_SrcCaps m @ [cap] else m_SrcCaps m) \<rparr>,
          erracc))"

definition add_dst ::
  "(addr \<Rightarrow> addr \<Rightarrow> prefix list option) \<Rightarrow> tc_net_port_range \<Rightarrow> match \<times> rule_error option
     \<Rightarrow> rule_error + (match \<times> rule_error option)" where
  "add_dst range_pfx d = (\<lambda>(m, erracc).
     if tn_Bits d \<noteq> None then Inl UnexpectedDstBits
     else case parseIPSet range_pfx (tn_IP d) of
       Inl err \<Rightarrow> Inr (m, if erracc = None then Some err else erracc)
     | Inr (nets, cap) \<Rightarrow>
         if cap \<noteq> [] then Inr (m, Some (UnexpectedCapability cap))
         else Inr (m \<lparr> m_Dsts := m_Dsts m @ map (\<lambda>n. \<lparr> npr_Net = n, npr_Ports = tn_Ports d \<rparr>) nets \<rparr>, erracc))"

text \<open>The capability map is a list in the order the loop visits it.\<close>

definition grant_caps :: "cap_grant \<Rightarrow> cap_match list" where
  "grant_caps cm = concat (map (\<lambda>dstNet.
       map (\<lambda>cap. \<lparr> cm_Dst = dstNet, cm_Cap = cap, cm_Values = [] \<rparr>) (cg_Caps cm)
     @ map (\<lambda>(cap, val). \<lparr> cm_Dst = dstNet, cm_Cap = cap, cm_Values = val \<rparr>) (cg_CapMap cm)) (cg_Dsts cm))"

definition empty_match :: match where
  "empty_match = \<lparr> m_IPProto = [], m_Srcs = [], m_SrcsContains = emptySet, m_SrcCaps = [], m_Dsts = [], m_Caps = [] \<rparr>"

definition rule_match ::
  "'t bart_ops \<Rightarrow> (addr \<Rightarrow> addr \<Rightarrow> prefix list option) \<Rightarrow> filter_rule \<Rightarrow> rule_error option
     \<Rightarrow> rule_error + (match \<times> rule_error option)" where
  "rule_match bt range_pfx r erracc =
     (if r_SrcBits r \<noteq> [] then Inl UnexpectedSrcBits
      else
        let m0 = empty_match \<lparr> m_IPProto :=
              (if r_IPProto r = [] then defaultProtos
               else map word_of_int (filter (\<lambda>n. 0 \<le> n \<and> n \<le> 0xff) (r_IPProto r))) \<rparr>;
            (m1, e1) = fold (add_src range_pfx) (r_SrcIPs r) (m0, erracc);
            m2 = m1 \<lparr> m_SrcsContains := NewContainsIPFunc bt (m_Srcs m1) \<rparr> in
        bind_res (fold_res (add_dst range_pfx) (r_DstPorts r) (m2, e1)) (\<lambda>(m3, e2).
        Inr (m3 \<lparr> m_Caps := concat (map grant_caps (r_CapGrant r)) \<rparr>, e2)))"

fun rule_matches ::
  "'t bart_ops \<Rightarrow> (addr \<Rightarrow> addr \<Rightarrow> prefix list option) \<Rightarrow> filter_rule list \<Rightarrow> rule_error option
     \<Rightarrow> rule_error + (match list \<times> rule_error option)" where
  "rule_matches bt range_pfx [] erracc = Inr ([], erracc)"
| "rule_matches bt range_pfx (r # pf) erracc =
     bind_res (rule_match bt range_pfx r erracc) (\<lambda>(m, e1).
     bind_res (rule_matches bt range_pfx pf e1) (\<lambda>(mm, e2). Inr (m # mm, e2)))"

definition MatchesFromFilterRules ::
  "'t bart_ops \<Rightarrow> (addr \<Rightarrow> addr \<Rightarrow> prefix list option) \<Rightarrow> filter_rule list \<Rightarrow> match list \<times> rule_error option" where
  "MatchesFromFilterRules bt range_pfx pf =
     (case rule_matches bt range_pfx pf None of Inl err \<Rightarrow> ([], Some err) | Inr r \<Rightarrow> r)"


section \<open>The filter\<close>

datatype response = Drop | DropSilently | Accept | noVerdict

definition IsDrop :: "response \<Rightarrow> bool" where "IsDrop r \<longleftrightarrow> r = Drop \<or> r = DropSilently"

type_synonym packet_match = "parsed \<Rightarrow> bool \<times> string"

type_synonym filter_states = "unit cache list"

record pfilter =
  f_local4 :: "addr \<Rightarrow> bool"
  f_local6 :: "addr \<Rightarrow> bool"
  f_logIPs4 :: "addr \<Rightarrow> bool"
  f_logIPs6 :: "addr \<Rightarrow> bool"
  f_srcIPHasCap :: cap_test
  f_matches4 :: "match list"
  f_matches6 :: "match list"
  f_cap4 :: "match list"
  f_cap6 :: "match list"
  f_state :: nat
  f_shieldsUp :: bool
  IngressAllowHooks :: "packet_match list"
  LinkLocalAllowHooks :: "packet_match list"

definition lruMax :: int where "lruMax = 512"

definition matchesFamily :: "'t bart_ops \<Rightarrow> match list \<Rightarrow> (addr \<Rightarrow> bool) \<Rightarrow> match list" where
  "matchesFamily bt ms keep =
     concat (map (\<lambda>m.
       let srcs = filter (\<lambda>src. keep (pfx_Addr src)) (m_Srcs m);
           dsts = filter (\<lambda>dst. keep (pfx_Addr (npr_Net dst))) (m_Dsts m) in
       if (srcs \<noteq> [] \<or> m_SrcCaps m \<noteq> []) \<and> dsts \<noteq> [] then
         [empty_match \<lparr> m_IPProto := m_IPProto m, m_SrcCaps := m_SrcCaps m, m_Srcs := srcs, m_Dsts := dsts,
                        m_SrcsContains := NewContainsIPFunc bt srcs \<rparr>]
       else []) ms)"

definition capMatchesFunc :: "'t bart_ops \<Rightarrow> match list \<Rightarrow> (addr \<Rightarrow> bool) \<Rightarrow> match list" where
  "capMatchesFunc bt ms keep =
     concat (map (\<lambda>m.
       if m_Caps m = [] then []
       else
         let srcs = filter (\<lambda>src. keep (pfx_Addr src)) (m_Srcs m) in
         if srcs \<noteq> [] then
           [empty_match \<lparr> m_Caps := m_Caps m, m_Srcs := srcs, m_SrcsContains := NewContainsIPFunc bt srcs \<rparr>]
         else []) ms)"

text \<open>\<open>localNets\<close> and \<open>logIPs\<close> are the prefixes of the given IP sets, \<open>None\<close> for a nil set.  The store
  gains a fresh state unless the state of a previous filter is shared.\<close>

definition New ::
  "'t bart_ops \<Rightarrow> match list \<Rightarrow> cap_test \<Rightarrow> prefix list option \<Rightarrow> prefix list option \<Rightarrow> pfilter option
     \<Rightarrow> filter_states \<Rightarrow> pfilter \<times> filter_states" where
  "New bt ms capTest localNets logIPs shareStateWith sts =
     (let (state, sts') = (case shareStateWith of
             Some f \<Rightarrow> (f_state f, sts)
           | None \<Rightarrow> (length sts, sts @ [new_cache lruMax]));
          only = (\<lambda>nets is. case nets of
             None \<Rightarrow> emptySet
           | Some p \<Rightarrow> NewContainsIPFunc bt (filter (\<lambda>p. is (Is4 (pfx_Addr p))) p)) in
      (\<lparr> f_local4 = only localNets id, f_local6 = only localNets Not,
         f_logIPs4 = only logIPs id, f_logIPs6 = only logIPs Not,
         f_srcIPHasCap = capTest,
         f_matches4 = matchesFamily bt ms Is4, f_matches6 = matchesFamily bt ms Is6,
         f_cap4 = capMatchesFunc bt ms Is4, f_cap6 = capMatchesFunc bt ms Is6,
         f_state = state, f_shieldsUp = False, IngressAllowHooks = [], LinkLocalAllowHooks = [] \<rparr>, sts'))"

definition NewAllowNone :: "'t bart_ops \<Rightarrow> prefix list option \<Rightarrow> filter_states \<Rightarrow> pfilter \<times> filter_states" where
  "NewAllowNone bt logIPs sts = New bt [] None (Some []) logIPs None sts"

definition NewShieldsUpFilter ::
  "'t bart_ops \<Rightarrow> prefix list option \<Rightarrow> prefix list option \<Rightarrow> pfilter option \<Rightarrow> filter_states
     \<Rightarrow> pfilter \<times> filter_states" where
  "NewShieldsUpFilter bt localNets logIPs shareStateWith sts =
     (let share = (case shareStateWith of
             Some f \<Rightarrow> if \<not> f_shieldsUp f then None else Some f
           | None \<Rightarrow> None);
          (f, sts') = New bt [] None localNets logIPs share sts in
      (f \<lparr> f_shieldsUp := True \<rparr>, sts'))"


definition gcpDNSAddr :: addr where "gcpDNSAddr = IPv4 169 254 169 254"

definition isAllowedLinkLocal :: "pfilter \<Rightarrow> parsed \<Rightarrow> bool" where
  "isAllowedLinkLocal f q =
     (if ap_Addr (Dst q) = gcpDNSAddr then True
      else list_ex (\<lambda>pm. fst (pm q)) (LinkLocalAllowHooks f))"

text \<open>The drop reasons are the strings of \<open>util/usermetric\<close>.\<close>

definition pre :: "pfilter \<Rightarrow> parsed \<Rightarrow> response \<times> string" where
  "pre f q =
     (if length (p_b q) = 0 then (Accept, [])
      else if length (p_b q) < 20 then (Drop, ''too_short'')
      else if IPProto q = Unknown then (Drop, ''unknown_protocol'')
      else if IsMulticast (ap_Addr (Dst q)) then (Drop, ''multicast'')
      else if IsLinkLocalUnicast (ap_Addr (Dst q)) \<and> \<not> isAllowedLinkLocal f q then (Drop, ''link_local_unicast'')
      else if IPProto q = Fragment then (Accept, [])
      else (noVerdict, []))"

definition unknownProtoString :: "byte \<Rightarrow> string" where
  "unknownProtoString proto = ''unknown-protocol-'' @ show_nat (unat proto)"

definition state_Get :: "pfilter \<Rightarrow> flow_tuple \<Rightarrow> filter_states \<Rightarrow> bool \<times> filter_states" where
  "state_Get f t sts = (let (r, c) = cache_Get t (sts ! f_state f) in (r \<noteq> None, sts[f_state f := c]))"

definition state_Add :: "pfilter \<Rightarrow> flow_tuple \<Rightarrow> filter_states \<Rightarrow> filter_states" where
  "state_Add f t sts = sts[f_state f := cache_Add t () (sts ! f_state f)]"

definition runIn4 :: "pfilter \<Rightarrow> parsed \<Rightarrow> filter_states \<Rightarrow> (response \<times> string) \<times> filter_states" where
  "runIn4 f q sts =
     (if \<not> f_local4 f (ap_Addr (Dst q)) then ((noVerdict, ''destination not allowed''), sts)
      else if IPProto q = ICMPv4 then
        (if IsEchoResponse q \<or> IsError q then ((Accept, ''icmp response ok''), sts)
         else if matchIPsOnly (f_matches4 f) q (f_srcIPHasCap f) then ((Accept, ''icmp ok''), sts)
         else ((noVerdict, ''no rules matched''), sts))
      else if IPProto q = TCP then
        (if \<not> IsTCPSyn q then ((Accept, ''tcp non-syn''), sts)
         else if matches_match (f_matches4 f) q (f_srcIPHasCap f) then ((Accept, ''tcp ok''), sts)
         else ((noVerdict, ''no rules matched''), sts))
      else if IPProto q = UDP \<or> IPProto q = SCTP then
        (let t = MakeTuple (IPProto q) (Src q) (Dst q); (ok, sts') = state_Get f t sts in
         if ok then ((Accept, ''cached''), sts')
         else if matches_match (f_matches4 f) q (f_srcIPHasCap f) then ((Accept, ''ok''), sts')
         else ((noVerdict, ''no rules matched''), sts'))
      else if IPProto q = TSMP then ((Accept, ''tsmp ok''), sts)
      else if matchProtoAndIPsOnlyIfAllPorts (f_matches4 f) q then ((Accept, ''other-portless ok''), sts)
      else ((noVerdict, unknownProtoString (IPProto q)), sts))"

definition runIn6 :: "pfilter \<Rightarrow> parsed \<Rightarrow> filter_states \<Rightarrow> (response \<times> string) \<times> filter_states" where
  "runIn6 f q sts =
     (if \<not> f_local6 f (ap_Addr (Dst q)) then ((noVerdict, ''destination not allowed''), sts)
      else if IPProto q = ICMPv6 then
        (if IsEchoResponse q \<or> IsError q then ((Accept, ''icmp response ok''), sts)
         else if matchIPsOnly (f_matches6 f) q (f_srcIPHasCap f) then ((Accept, ''icmp ok''), sts)
         else ((noVerdict, ''no rules matched''), sts))
      else if IPProto q = TCP then
        (if IPProto q = TCP \<and> \<not> IsTCPSyn q then ((Accept, ''tcp non-syn''), sts)
         else if matches_match (f_matches6 f) q (f_srcIPHasCap f) then ((Accept, ''tcp ok''), sts)
         else ((noVerdict, ''no rules matched''), sts))
      else if IPProto q = UDP \<or> IPProto q = SCTP then
        (let t = MakeTuple (IPProto q) (Src q) (Dst q); (ok, sts') = state_Get f t sts in
         if ok then ((Accept, ''cached''), sts')
         else if matches_match (f_matches6 f) q (f_srcIPHasCap f) then ((Accept, ''ok''), sts')
         else ((noVerdict, ''no rules matched''), sts'))
      else if IPProto q = TSMP then ((Accept, ''tsmp ok''), sts)
      else if matchProtoAndIPsOnlyIfAllPorts (f_matches6 f) q then ((Accept, ''other-portless ok''), sts)
      else ((noVerdict, unknownProtoString (IPProto q)), sts))"

definition RunIn :: "pfilter \<Rightarrow> parsed \<Rightarrow> filter_states \<Rightarrow> response \<times> filter_states" where
  "RunIn f q sts =
     (let r0 = fst (pre f q) in
      if r0 = Accept \<or> r0 = Drop then (r0, sts)
      else
        let ((r, why), sts') =
          (if IPVersion q = 4 then runIn4 f q sts
           else if IPVersion q = 6 then runIn6 f q sts
           else ((Drop, ''not-ip''), sts)) in
        if r = noVerdict then
          (if list_ex (\<lambda>pm. fst (pm q)) (IngressAllowHooks f) then (Accept, sts') else (Drop, sts'))
        else (r, sts'))"

definition UpdateOutboundFlowState :: "pfilter \<Rightarrow> parsed \<Rightarrow> filter_states \<Rightarrow> filter_states" where
  "UpdateOutboundFlowState f q sts =
     (if IPProto q = UDP \<or> IPProto q = SCTP then state_Add f (MakeTuple (IPProto q) (Dst q) (Src q)) sts
      else sts)"

definition runOut :: "pfilter \<Rightarrow> parsed \<Rightarrow> filter_states \<Rightarrow> (response \<times> string) \<times> filter_states" where
  "runOut f q sts = ((Accept, ''ok out''), UpdateOutboundFlowState f q sts)"

definition RunOut :: "pfilter \<Rightarrow> parsed \<Rightarrow> filter_states \<Rightarrow> (response \<times> string) \<times> filter_states" where
  "RunOut f q sts =
     (let (r, reason) = pre f q in
      if r = Accept \<or> r = Drop then ((r, reason), sts)
      else let ((r', why), sts') = runOut f q sts in ((r', []), sts'))"

definition dummyPacket :: "byte list" where "dummyPacket = replicate 20 0xFF"

text \<open>\<open>None\<close> is the panic "unreachable".\<close>

definition Check :: "pfilter \<Rightarrow> addr \<Rightarrow> addr \<Rightarrow> u16 \<Rightarrow> byte \<Rightarrow> filter_states \<Rightarrow> (response \<times> filter_states) option" where
  "Check f srcIP dstIP dstPort proto sts = do {
     pkt \<leftarrow> Decode dummyPacket zero_parsed;
     if Is4 srcIP \<and> Is6 dstIP \<or> Is6 srcIP \<and> Is4 srcIP then Some (Drop, sts)
     else do {
       v \<leftarrow> (if Is4 srcIP then Some 4 else if Is6 srcIP then Some 6 else None);
       let pkt = pkt \<lparr> IPVersion := v, Src := AddrPort srcIP 0, Dst := AddrPort dstIP dstPort, IPProto := proto \<rparr>;
       let pkt = (if proto = TCP then pkt \<lparr> TCPFlags := TCPSyn \<rparr> else pkt);
       Some (RunIn f pkt sts) } }"

definition CheckTCP :: "pfilter \<Rightarrow> addr \<Rightarrow> addr \<Rightarrow> u16 \<Rightarrow> filter_states \<Rightarrow> (response \<times> filter_states) option" where
  "CheckTCP f srcIP dstIP dstPort sts = Check f srcIP dstIP dstPort TCP sts"

definition add_cap :: "addr \<Rightarrow> cap_match \<Rightarrow> (string \<times> string list) list \<Rightarrow> (string \<times> string list) list" where
  "add_cap dstIP cm out =
     (if cm_Cap cm \<noteq> [] \<and> pfx_Contains (cm_Dst cm) dstIP then
        (case map_of out (cm_Cap cm) of
           None \<Rightarrow> AList.update (cm_Cap cm) (cm_Values cm) out
         | Some prev \<Rightarrow> AList.update (cm_Cap cm) (prev @ cm_Values cm) out)
      else out)"

definition CapsWithValues :: "pfilter \<Rightarrow> addr \<Rightarrow> addr \<Rightarrow> (string \<times> string list) list" where
  "CapsWithValues f srcIP dstIP =
     (let mm = (if Is4 srcIP then f_cap4 f else if Is6 srcIP then f_cap6 f else []) in
      fold (\<lambda>m out. if \<not> m_SrcsContains m srcIP then out else fold (add_cap dstIP) (m_Caps m) out) mm [])"

definition loggingAllowed :: "pfilter \<Rightarrow> parsed \<Rightarrow> bool" where
  "loggingAllowed f p =
     (if IPVersion p = 4 then f_logIPs4 f (ap_Addr (Src p)) \<and> f_logIPs4 f (ap_Addr (Dst p))
      else if IPVersion p = 6 then f_logIPs6 f (ap_Addr (Src p)) \<and> f_logIPs6 f (ap_Addr (Dst p))
      else False)"

datatype direction = dir_in | dir_out

definition omitDropLogging :: "parsed \<Rightarrow> direction \<Rightarrow> bool" where
  "omitDropLogging p dir =
     (if dir \<noteq> dir_out then False
      else IsMulticast (ap_Addr (Dst p))
         \<or> IsLinkLocalUnicast (ap_Addr (Dst p)) \<and> ap_Addr (Dst p) \<noteq> gcpDNSAddr
         \<or> IPProto p = IGMP)"


section \<open>What a rule permits\<close>

text \<open>The reference meaning of a rule list: some rule lists the protocol, has the source among its
  prefixes or capabilities, and the destination address and port among its destinations.\<close>

definition has_src :: "match \<Rightarrow> addr \<Rightarrow> cap_test \<Rightarrow> bool" where
  "has_src m src h \<longleftrightarrow> (\<exists>p \<in> set (m_Srcs m). pfx_Contains p src)
     \<or> (\<exists>test. h = Some test \<and> (\<exists>c \<in> set (m_SrcCaps m). test src c))"

definition rule_permits :: "match \<Rightarrow> byte \<Rightarrow> addr \<Rightarrow> addr \<Rightarrow> u16 \<Rightarrow> cap_test \<Rightarrow> bool" where
  "rule_permits m proto src dst port h \<longleftrightarrow> proto \<in> set (m_IPProto m) \<and> has_src m src h
     \<and> (\<exists>d \<in> set (m_Dsts m). pfx_Contains (npr_Net d) dst \<and> pr_Contains (npr_Ports d) port)"

definition wf_match :: "match \<Rightarrow> bool" where "wf_match m \<longleftrightarrow> (\<forall>p \<in> set (m_Srcs m). wf_prefix p)"

lemma matches_match_iff [filter_simps]:
  "matches_match ms q h \<longleftrightarrow> (\<exists>m \<in> set ms. IPProto q \<in> set (m_IPProto m) \<and> srcMatches m (ap_Addr (Src q)) h
     \<and> (\<exists>d \<in> set (m_Dsts m). pfx_Contains (npr_Net d) (ap_Addr (Dst q)) \<and> pr_Contains (npr_Ports d) (ap_Port (Dst q))))"
  by (induction ms) (auto simp: list_ex_iff)

text \<open>A predicate on addresses that tells the family apart: a prefix it rejects contains no address it
  keeps.\<close>

definition family :: "(addr \<Rightarrow> bool) \<Rightarrow> bool" where "family keep \<longleftrightarrow> keep = Is4 \<or> keep = Is6"

lemma family_contains: "family keep \<Longrightarrow> keep ip \<Longrightarrow> pfx_Contains p ip \<Longrightarrow> keep (pfx_Addr p)"
  by (cases p; cases ip; cases "pfx_Addr p") (auto simp: family_def dest: pfx_Contains_family)

lemma srcs_filtered:
  assumes "bart_ok bt" "wf_match m" "family keep" "keep ip" "addr_Zone ip = []"
  shows "NewContainsIPFunc bt (filter (\<lambda>p. keep (pfx_Addr p)) (m_Srcs m)) ip \<longleftrightarrow> (\<exists>p \<in> set (m_Srcs m). pfx_Contains p ip)"
  using assms family_contains [OF assms(3,4)]
  by (subst NewContainsIPFunc_iff) (auto simp: wf_match_def PrefixesContainsIP_iff)

text \<open>The part of a rule that concerns one address family, and whether it is kept.\<close>

definition fam_match :: "'t bart_ops \<Rightarrow> (addr \<Rightarrow> bool) \<Rightarrow> match \<Rightarrow> match" where
  "fam_match bt keep m =
     (let srcs = filter (\<lambda>src. keep (pfx_Addr src)) (m_Srcs m) in
      empty_match \<lparr> m_IPProto := m_IPProto m, m_SrcCaps := m_SrcCaps m, m_Srcs := srcs,
        m_Dsts := filter (\<lambda>dst. keep (pfx_Addr (npr_Net dst))) (m_Dsts m), m_SrcsContains := NewContainsIPFunc bt srcs \<rparr>)"

definition fam_kept :: "(addr \<Rightarrow> bool) \<Rightarrow> match \<Rightarrow> bool" where
  "fam_kept keep m \<longleftrightarrow> (filter (\<lambda>src. keep (pfx_Addr src)) (m_Srcs m) \<noteq> [] \<or> m_SrcCaps m \<noteq> [])
     \<and> filter (\<lambda>dst. keep (pfx_Addr (npr_Net dst))) (m_Dsts m) \<noteq> []"

lemma matchesFamily_eq: "matchesFamily bt ms keep = map (fam_match bt keep) (filter (fam_kept keep) ms)"
  by (induction ms) (simp_all add: matchesFamily_def fam_match_def fam_kept_def Let_def)

lemma fam_match_simps [filter_simps]:
  "m_IPProto (fam_match bt keep m) = m_IPProto m" "m_SrcCaps (fam_match bt keep m) = m_SrcCaps m"
  "m_SrcsContains (fam_match bt keep m) = NewContainsIPFunc bt (filter (\<lambda>src. keep (pfx_Addr src)) (m_Srcs m))"
  "m_Dsts (fam_match bt keep m) = filter (\<lambda>dst. keep (pfx_Addr (npr_Net dst))) (m_Dsts m)"
  by (simp_all add: fam_match_def Let_def)

lemma matchesFamily_permits:
  assumes bt: "bart_ok bt" and wf: "\<forall>m \<in> set ms. wf_match m" and fam: "family keep"
    and q: "keep (ap_Addr (Src q))" "keep (ap_Addr (Dst q))" "addr_Zone (ap_Addr (Src q)) = []"
  shows "matches_match (matchesFamily bt ms keep) q h \<longleftrightarrow>
    (\<exists>m \<in> set ms. rule_permits m (IPProto q) (ap_Addr (Src q)) (ap_Addr (Dst q)) (ap_Port (Dst q)) h)"
    (is "_ \<longleftrightarrow> (\<exists>m \<in> set ms. ?permits m)")
proof -
  let ?hit = "\<lambda>d. pfx_Contains (npr_Net d) (ap_Addr (Dst q)) \<and> pr_Contains (npr_Ports d) (ap_Port (Dst q))"
  have dst: "(\<exists>d \<in> set (m_Dsts (fam_match bt keep m)). ?hit d) \<longleftrightarrow> (\<exists>d \<in> set (m_Dsts m). ?hit d)" for m
    using family_contains [OF fam q(2)] by (auto simp: filter_simps)
  have src: "srcMatches (fam_match bt keep m) (ap_Addr (Src q)) h \<longleftrightarrow> has_src m (ap_Addr (Src q)) h" if "m \<in> set ms" for m
    using srcs_filtered [OF bt _ fam q(1,3), of m] wf that
    by (auto simp: srcMatches_def filter_simps has_src_def list_ex_iff split: option.split)
  have kept: "fam_kept keep m" if "?permits m" for m
    using that family_contains [OF fam q(1)] family_contains [OF fam q(2)]
    by (auto simp: fam_kept_def rule_permits_def has_src_def filter_empty_conv)
  have "matches_match (matchesFamily bt ms keep) q h \<longleftrightarrow> (\<exists>m \<in> set ms. fam_kept keep m \<and> ?permits m)"
    unfolding matches_match_iff matchesFamily_eq
    by (simp only: set_map bex_simps set_filter dst fam_match_simps(1)) (use src in \<open>auto simp: rule_permits_def\<close>)
  also have "\<dots> \<longleftrightarrow> (\<exists>m \<in> set ms. ?permits m)" using kept by blast
  finally show ?thesis .
qed


section \<open>Running the filter\<close>

text \<open>A packet whose addresses agree with its version, as decoded packets do.\<close>

definition fam_packet :: "parsed \<Rightarrow> bool" where
  "fam_packet q \<longleftrightarrow> (let s = ap_Addr (Src q); d = ap_Addr (Dst q) in
     IPVersion q = 4 \<and> Is4 s \<and> Is4 d
     \<or> IPVersion q = 6 \<and> Is6 s \<and> Is6 d \<and> addr_Zone s = [] \<and> addr_Zone d = [])"

lemma wf_decoded_family: "wf_decoded q \<Longrightarrow> fam_packet q"
  by (auto simp: wf_decoded_def fam_packet_def Let_def AddrFrom4_def AddrFrom16_def)

text \<open>A packet that opens a flow: a TCP SYN, or a datagram of a flow not in the tracking state.\<close>

definition opens_flow :: "pfilter \<Rightarrow> parsed \<Rightarrow> filter_states \<Rightarrow> bool" where
  "opens_flow f q sts \<longleftrightarrow> IPProto q = TCP \<and> IsTCPSyn q
     \<or> (IPProto q = UDP \<or> IPProto q = SCTP) \<and> \<not> fst (state_Get f (MakeTuple (IPProto q) (Src q) (Dst q)) sts)"

lemma RunIn_opens:
  assumes "fst (pre f q) = noVerdict" "IngressAllowHooks f = []" "opens_flow f q sts" "fam_packet q"
  shows "fst (RunIn f q sts) =
    (if (if IPVersion q = 4 then f_local4 f (ap_Addr (Dst q)) \<and> matches_match (f_matches4 f) q (f_srcIPHasCap f)
         else f_local6 f (ap_Addr (Dst q)) \<and> matches_match (f_matches6 f) q (f_srcIPHasCap f))
     then Accept else Drop)"
proof -
  from assms(4) have v: "IPVersion q = 4 \<or> IPVersion q = 6" by (auto simp: fam_packet_def Let_def)
  from assms(3) consider (tcp) "IPProto q = TCP" "IsTCPSyn q"
    | (dgram) "IPProto q = UDP \<or> IPProto q = SCTP" "\<not> fst (state_Get f (MakeTuple (IPProto q) (Src q) (Dst q)) sts)"
    by (auto simp: opens_flow_def)
  then show ?thesis
  proof cases
    case tcp
    with assms(1,2) v show ?thesis by (elim disjE) (simp_all add: RunIn_def runIn4_def runIn6_def Let_def)
  next
    case dgram
    with assms(1,2) v show ?thesis
      by (elim disjE) (simp_all add: RunIn_def runIn4_def runIn6_def Let_def case_prod_beta)
  qed
qed

lemma RunIn_cached:
  assumes "fst (pre f q) = noVerdict"
    and "IPVersion q = 4 \<and> f_local4 f (ap_Addr (Dst q)) \<or> IPVersion q = 6 \<and> f_local6 f (ap_Addr (Dst q))"
    and "IPProto q = UDP \<or> IPProto q = SCTP" and "fst (state_Get f (MakeTuple (IPProto q) (Src q) (Dst q)) sts)"
  shows "fst (RunIn f q sts) = Accept"
  using assms(2,3) by (elim disjE) (use assms(1,4) in \<open>simp_all add: RunIn_def runIn4_def runIn6_def Let_def case_prod_beta\<close>)

lemma runIn_verdict:
  "fst (fst (runIn4 f q sts)) \<in> {Accept, noVerdict}" "fst (fst (runIn6 f q sts)) \<in> {Accept, noVerdict}"
  "\<not> f_local4 f (ap_Addr (Dst q)) \<Longrightarrow> fst (fst (runIn4 f q sts)) = noVerdict"
  "\<not> f_local6 f (ap_Addr (Dst q)) \<Longrightarrow> fst (fst (runIn6 f q sts)) = noVerdict"
  by (simp_all add: runIn4_def runIn6_def Let_def case_prod_beta)

lemma RunIn_verdict:
  assumes "fst (pre f q) = noVerdict"
  shows "fst (RunIn f q sts) \<in> {Accept, Drop}
    \<and> (fst (RunIn f q sts) = Accept \<longrightarrow> (\<exists>pm \<in> set (IngressAllowHooks f). fst (pm q))
          \<or> IPVersion q = 4 \<and> f_local4 f (ap_Addr (Dst q)) \<or> IPVersion q = 6 \<and> f_local6 f (ap_Addr (Dst q)))"
proof -
  define r where "r = (if IPVersion q = 4 then runIn4 f q sts else if IPVersion q = 6 then runIn6 f q sts
      else ((Drop, ''not-ip''), sts))"
  have run: "fst (RunIn f q sts) = (if fst (fst r) = noVerdict
      then (if list_ex (\<lambda>pm. fst (pm q)) (IngressAllowHooks f) then Accept else Drop) else fst (fst r))"
    using assms by (simp add: RunIn_def Let_def case_prod_beta r_def)
  have "fst (fst r) \<in> {Accept, Drop, noVerdict}" using runIn_verdict(1,2) [of f q sts] by (auto simp: r_def)
  moreover have "fst (fst r) = Accept \<Longrightarrow>
      IPVersion q = 4 \<and> f_local4 f (ap_Addr (Dst q)) \<or> IPVersion q = 6 \<and> f_local6 f (ap_Addr (Dst q))"
    using runIn_verdict(3,4) [of f q sts] by (auto simp: r_def split: if_splits)
  ultimately show ?thesis unfolding run by (auto simp: list_ex_iff)
qed

lemma New_fields:
  assumes "New bt ms h nets logs share sts = (f, sts')"
  shows "f_matches4 f = matchesFamily bt ms Is4" "f_matches6 f = matchesFamily bt ms Is6" "f_srcIPHasCap f = h"
    "IngressAllowHooks f = []" "LinkLocalAllowHooks f = []" "f_shieldsUp f = False"
    "nets = Some ps \<Longrightarrow> f_local4 f = NewContainsIPFunc bt (filter (\<lambda>p. Is4 (pfx_Addr p)) ps)"
    "nets = Some ps \<Longrightarrow> f_local6 f = NewContainsIPFunc bt (filter (\<lambda>p. \<not> Is4 (pfx_Addr p)) ps)"
    "f_cap4 f = capMatchesFunc bt ms Is4" "f_cap6 f = capMatchesFunc bt ms Is6"
  using assms by (auto simp: New_def Let_def split: prod.splits)

lemma New_state:
  "New bt ms h nets logs share sts = (f, sts') \<Longrightarrow>
     (case share of Some g \<Rightarrow> f_state f = f_state g \<and> sts' = sts
      | None \<Rightarrow> f_state f = length sts \<and> sts' = sts @ [new_cache lruMax])"
  by (auto simp: New_def Let_def split: option.splits)

lemma local_nets:
  assumes "bart_ok bt" "\<forall>p \<in> set ps. wf_prefix p" "addr_Zone ip = []"
  shows "Is4 ip \<Longrightarrow> NewContainsIPFunc bt (filter (\<lambda>p. Is4 (pfx_Addr p)) ps) ip = PrefixesContainsIP ps ip"
    and "Is6 ip \<Longrightarrow> NewContainsIPFunc bt (filter (\<lambda>p. \<not> Is4 (pfx_Addr p)) ps) ip = PrefixesContainsIP ps ip"
proof -
  have "Is4 ip \<Longrightarrow> pfx_Contains p ip \<Longrightarrow> Is4 (pfx_Addr p)" "Is6 ip \<Longrightarrow> pfx_Contains p ip \<Longrightarrow> \<not> Is4 (pfx_Addr p)" for p
    using family_contains [of Is4 ip p] family_contains [of Is6 ip p] Is4_Is6_disjoint [of "pfx_Addr p"]
    by (auto simp: family_def)
  with assms show "Is4 ip \<Longrightarrow> NewContainsIPFunc bt (filter (\<lambda>p. Is4 (pfx_Addr p)) ps) ip = PrefixesContainsIP ps ip"
    "Is6 ip \<Longrightarrow> NewContainsIPFunc bt (filter (\<lambda>p. \<not> Is4 (pfx_Addr p)) ps) ip = PrefixesContainsIP ps ip"
    by (simp_all add: NewContainsIPFunc_iff PrefixesContainsIP_iff) blast+
qed

lemma Is4_zone [simp]: "Is4 a \<Longrightarrow> addr_Zone a = []"
  by (cases a) auto

lemma New_RunIn:
  assumes bt: "bart_ok bt" and wf: "\<forall>m \<in> set ms. wf_match m" "\<forall>p \<in> set ps. wf_prefix p"
    and f: "New bt ms h (Some ps) logs share sts0 = (f, sts1)"
    and q: "fst (pre f q) = noVerdict" "fam_packet q" "opens_flow f q sts"
  shows "fst (RunIn f q sts) =
    (if PrefixesContainsIP ps (ap_Addr (Dst q))
        \<and> (\<exists>m \<in> set ms. rule_permits m (IPProto q) (ap_Addr (Src q)) (ap_Addr (Dst q)) (ap_Port (Dst q)) h)
     then Accept else Drop)"
proof -
  note fields = New_fields [OF f]
  from q(2) consider (v4) "IPVersion q = 4" "Is4 (ap_Addr (Src q))" "Is4 (ap_Addr (Dst q))"
    | (v6) "IPVersion q = 6" "Is6 (ap_Addr (Src q))" "Is6 (ap_Addr (Dst q))" "addr_Zone (ap_Addr (Src q)) = []" "addr_Zone (ap_Addr (Dst q)) = []"
    by (auto simp: fam_packet_def Let_def)
  then show ?thesis
  proof cases
    case v4
    with matchesFamily_permits [OF bt wf(1), of Is4 q h] local_nets(1) [OF bt wf(2), of "ap_Addr (Dst q)"] show ?thesis
      by (simp add: RunIn_opens [OF q(1) fields(4) q(3,2)] fields(1,3,7) family_def)
  next
    case v6
    with matchesFamily_permits [OF bt wf(1), of Is6 q h] local_nets(2) [OF bt wf(2), of "ap_Addr (Dst q)"] show ?thesis
      by (simp add: RunIn_opens [OF q(1) fields(4) q(3,2)] fields(2,3,8) family_def)
  qed
qed


text \<open>Sequences of packets through filters that may share state.\<close>

datatype filter_op = OpIn pfilter parsed | OpOut pfilter parsed

fun run_op :: "filter_op \<Rightarrow> filter_states \<Rightarrow> filter_states" where
  "run_op (OpIn f q) sts = snd (RunIn f q sts)"
| "run_op (OpOut f q) sts = snd (RunOut f q sts)"

definition state_ok :: "nat \<Rightarrow> filter_states \<Rightarrow> bool" where
  "state_ok a sts \<longleftrightarrow> a < length sts \<and> cache_inv (sts ! a) \<and> MaxEntries (sts ! a) = lruMax"

text \<open>Every operation leaves the state of a filter alone or does one cache operation on it.\<close>

definition cache_step :: "unit cache \<Rightarrow> unit cache \<Rightarrow> bool" where
  "cache_step c c' \<longleftrightarrow> c' = c \<or> (\<exists>t. c' = snd (cache_Get t c)) \<or> (\<exists>t. c' = cache_Add t () c)"

lemma cache_step_intros [simp]:
  "cache_step c c" "cache_step c (snd (cache_Get t c))" "cache_step c (cache_Add t () c)"
  by (auto simp: cache_step_def)

lemma runIn_states:
  "\<exists>sts'. snd (runIn4 f q sts) = sts' \<and> (sts' = sts \<or> (\<exists>t. sts' = snd (state_Get f t sts)))"
  "\<exists>sts'. snd (runIn6 f q sts) = sts' \<and> (sts' = sts \<or> (\<exists>t. sts' = snd (state_Get f t sts)))"
  by (auto simp: runIn4_def runIn6_def Let_def case_prod_beta)

lemma RunIn_states: "snd (RunIn f q sts) = sts \<or> (\<exists>t. snd (RunIn f q sts) = snd (state_Get f t sts))"
proof -
  have "snd (RunIn f q sts) \<in> {sts, snd (runIn4 f q sts), snd (runIn6 f q sts)}"
    by (simp add: RunIn_def Let_def case_prod_beta)
  with runIn_states [of f q sts] show ?thesis by auto
qed

lemma RunOut_states: "snd (RunOut f q sts) = sts \<or> (\<exists>t. snd (RunOut f q sts) = state_Add f t sts)"
  by (auto simp: RunOut_def runOut_def UpdateOutboundFlowState_def Let_def case_prod_beta)

lemma state_step:
  "a < length sts \<Longrightarrow> cache_step (sts ! a) (snd (state_Get f t sts) ! a) \<and> length (snd (state_Get f t sts)) = length sts"
  "a < length sts \<Longrightarrow> cache_step (sts ! a) (state_Add f t sts ! a) \<and> length (state_Add f t sts) = length sts"
  by (cases "f_state f = a"; simp add: state_Get_def state_Add_def Let_def case_prod_beta)+

lemma run_op_step:
  assumes "a < length sts"
  shows "cache_step (sts ! a) (run_op op sts ! a) \<and> length (run_op op sts) = length sts"
proof (cases op)
  case (OpIn f q)
  with RunIn_states [of f q sts] state_step(1) [OF assms, of f] show ?thesis by auto
next
  case (OpOut f q)
  with RunOut_states [of f q sts] state_step(2) [OF assms, of f] show ?thesis by auto
qed

lemma cache_step_ok: "cache_step c c' \<Longrightarrow> cache_inv c \<Longrightarrow> cache_inv c' \<and> MaxEntries c' = MaxEntries c"
  by (auto simp: cache_step_def cache_Get_refines cache_Add_refines flow_cache.limit_get)

lemma cache_step_recent:
  assumes "cache_step c c'" "cache_inv c" "k \<in> fst ` set (take j (cache_content c))" "int j < MaxEntries c"
  shows "k \<in> fst ` set (take (Suc j) (cache_content c'))"
proof -
  have "set (take j (cache_content c)) \<subseteq> set (take (Suc j) (cache_content c))" by (rule set_take_subset_set_take) simp
  with assms flow_cache.recent_get [OF assms(2,3)] flow_cache.recent_add [OF assms(2,3,4)] show ?thesis
    unfolding cache_step_def by blast
qed

lemma run_ops_recent:
  assumes "state_ok a sts" "k \<in> fst ` set (take j (cache_content (sts ! a)))" "int (j + length ops) \<le> lruMax"
  shows "state_ok a (fold run_op ops sts)
    \<and> k \<in> fst ` set (take (j + length ops) (cache_content (fold run_op ops sts ! a)))"
  using assms
proof (induction ops arbitrary: sts j)
  case (Cons op ops)
  have step: "cache_step (sts ! a) (run_op op sts ! a)" "length (run_op op sts) = length sts"
    using run_op_step [of a sts op] Cons.prems(1) by (auto simp: state_ok_def)
  have ok: "state_ok a (run_op op sts)"
    using step cache_step_ok [OF step(1)] Cons.prems(1) by (simp add: state_ok_def)
  have "k \<in> fst ` set (take (Suc j) (cache_content (run_op op sts ! a)))"
    using step(1) Cons.prems by (intro cache_step_recent) (auto simp: state_ok_def)
  from Cons.IH [OF ok this] Cons.prems(3) show ?case by simp
qed simp

lemma run_ops_ok: "state_ok a sts \<Longrightarrow> state_ok a (fold run_op ops sts)"
proof (induction ops arbitrary: sts)
  case (Cons op ops)
  then show ?case using run_op_step [of a sts op] cache_step_ok by (auto simp: state_ok_def)
qed simp

lemma New_state_ok: "New bt ms h nets logs None sts = (f, sts') \<Longrightarrow> state_ok (f_state f) sts'"
  by (auto dest!: New_state simp: state_ok_def)


section \<open>Capabilities\<close>

definition cap_hits :: "addr \<Rightarrow> string \<Rightarrow> cap_match list \<Rightarrow> cap_match list" where
  "cap_hits dst c cms = filter (\<lambda>cm. cm_Cap cm = c \<and> pfx_Contains (cm_Dst cm) dst) cms"

lemma map_of_fold_add_cap:
  assumes "c \<noteq> []"
  shows "map_of (fold (add_cap dst) cms out) c =
    (if cap_hits dst c cms = [] then map_of out c
     else Some ((case map_of out c of None \<Rightarrow> [] | Some prev \<Rightarrow> prev) @ concat (map cm_Values (cap_hits dst c cms))))"
proof (induction cms arbitrary: out)
  case Nil
  then show ?case by (simp add: cap_hits_def)
next
  case (Cons cm cms)
  let ?hit = "cm_Cap cm = c \<and> pfx_Contains (cm_Dst cm) dst"
  have "map_of (add_cap dst cm out) c = (if ?hit then Some ((case map_of out c of None \<Rightarrow> [] | Some prev \<Rightarrow> prev) @ cm_Values cm)
      else map_of out c)"
    using assms by (auto simp: add_cap_def map_of_update split: option.split)
  moreover have "cap_hits dst c (cm # cms) = (if ?hit then cm # cap_hits dst c cms else cap_hits dst c cms)"
    by (simp add: cap_hits_def)
  ultimately show ?case using Cons.IH [of "add_cap dst cm out"] by simp
qed

lemma no_empty_cap: "map_of out [] = None \<Longrightarrow> map_of (fold (add_cap dst) cms out) [] = None"
  by (induction cms arbitrary: out) (auto simp: add_cap_def map_of_update split: option.split)

lemma fold_caps:
  "fold (\<lambda>m out. if \<not> m_SrcsContains m src then out else fold (add_cap dst) (m_Caps m) out) mm out
   = fold (add_cap dst) (concat (map m_Caps (filter (\<lambda>m. m_SrcsContains m src) mm))) out"
  by (induction mm arbitrary: out) auto

lemma capMatches_caps:
  assumes bt: "bart_ok bt" and wf: "\<forall>m \<in> set ms. wf_match m" and src: "family keep" "keep src" "addr_Zone src = []"
  shows "concat (map m_Caps (filter (\<lambda>m. m_SrcsContains m src) (capMatchesFunc bt ms keep)))
    = concat (map m_Caps (filter (\<lambda>m. \<exists>p \<in> set (m_Srcs m). pfx_Contains p src) ms))"
  using wf
proof (induction ms)
  case Nil
  then show ?case by (simp add: capMatchesFunc_def)
next
  case (Cons m ms)
  let ?srcs = "filter (\<lambda>p. keep (pfx_Addr p)) (m_Srcs m)"
  have hit: "NewContainsIPFunc bt ?srcs src \<longleftrightarrow> (\<exists>p \<in> set (m_Srcs m). pfx_Contains p src)"
    using Cons.prems by (intro srcs_filtered [OF bt _ src]) simp
  have none: "?srcs = [] \<Longrightarrow> \<not> (\<exists>p \<in> set (m_Srcs m). pfx_Contains p src)"
    using family_contains [OF src(1,2)] by (auto simp: filter_empty_conv)
  have split: "capMatchesFunc bt (m # ms) keep = (if m_Caps m = [] \<or> ?srcs = [] then []
      else [empty_match \<lparr> m_Caps := m_Caps m, m_Srcs := ?srcs, m_SrcsContains := NewContainsIPFunc bt ?srcs \<rparr>])
      @ capMatchesFunc bt ms keep"
    by (simp add: capMatchesFunc_def Let_def)
  show ?case using Cons.IH Cons.prems hit none by (simp add: split)
qed


section \<open>The meaning of control-plane rules\<close>

definition src_nets :: "(addr \<Rightarrow> addr \<Rightarrow> prefix list option) \<Rightarrow> string \<Rightarrow> prefix list" where
  "src_nets rp s = (case parseIPSet rp s of Inl _ \<Rightarrow> [] | Inr (nets, _) \<Rightarrow> nets)"

definition src_caps :: "(addr \<Rightarrow> addr \<Rightarrow> prefix list option) \<Rightarrow> string \<Rightarrow> string list" where
  "src_caps rp s = (case parseIPSet rp s of Inl _ \<Rightarrow> [] | Inr (_, cap) \<Rightarrow> if cap \<noteq> [] then [cap] else [])"

text \<open>What a control-plane rule says, entry by entry: entries that do not parse cover nothing, and a
  capability counts as a source only.\<close>

definition filter_rule_permits ::
  "(addr \<Rightarrow> addr \<Rightarrow> prefix list option) \<Rightarrow> filter_rule \<Rightarrow> byte \<Rightarrow> addr \<Rightarrow> addr \<Rightarrow> u16 \<Rightarrow> cap_test \<Rightarrow> bool" where
  "filter_rule_permits rp r proto src dst port h \<longleftrightarrow>
     (if r_IPProto r = [] then proto \<in> {TCP, UDP, ICMPv4, ICMPv6} else int (unat proto) \<in> set (r_IPProto r))
   \<and> (\<exists>s \<in> set (r_SrcIPs r). (\<exists>p \<in> set (src_nets rp s). pfx_Contains p src)
        \<or> (\<exists>test. h = Some test \<and> (\<exists>c \<in> set (src_caps rp s). test src c)))
   \<and> (\<exists>d \<in> set (r_DstPorts r). src_caps rp (tn_IP d) = []
        \<and> (\<exists>p \<in> set (src_nets rp (tn_IP d)). pfx_Contains p dst) \<and> pr_Contains (tn_Ports d) port)"

lemma fold_add_src:
  "m_Srcs (fst (fold (add_src rp) ss (m, e))) = m_Srcs m @ concat (map (src_nets rp) ss)
   \<and> m_SrcCaps (fst (fold (add_src rp) ss (m, e))) = m_SrcCaps m @ concat (map (src_caps rp) ss)
   \<and> m_Dsts (fst (fold (add_src rp) ss (m, e))) = m_Dsts m
   \<and> m_IPProto (fst (fold (add_src rp) ss (m, e))) = m_IPProto m"
proof (induction ss arbitrary: m e)
  case (Cons s ss)
  obtain m' e' where "add_src rp s (m, e) = (m', e')" by force
  moreover from this have "m_Srcs m' = m_Srcs m @ src_nets rp s" "m_SrcCaps m' = m_SrcCaps m @ src_caps rp s"
    "m_Dsts m' = m_Dsts m" "m_IPProto m' = m_IPProto m"
    by (auto simp: add_src_def src_nets_def src_caps_def split: sum.splits prod.splits)
  ultimately show ?case using Cons.IH [of m' e'] by simp
qed simp

definition dst_ranges :: "(addr \<Rightarrow> addr \<Rightarrow> prefix list option) \<Rightarrow> tc_net_port_range \<Rightarrow> net_port_range list" where
  "dst_ranges rp d = (if src_caps rp (tn_IP d) = []
     then map (\<lambda>n. \<lparr> npr_Net = n, npr_Ports = tn_Ports d \<rparr>) (src_nets rp (tn_IP d)) else [])"

lemma add_dst_ok:
  assumes "tn_Bits d = None"
  shows "\<exists>e'. add_dst rp d (m, e) = Inr (m \<lparr> m_Dsts := m_Dsts m @ dst_ranges rp d \<rparr>, e')"
  using assms by (auto simp: add_dst_def dst_ranges_def src_caps_def src_nets_def split: sum.split)

lemma fold_add_dst:
  assumes "\<forall>d \<in> set ds. tn_Bits d = None"
  shows "\<exists>e'. fold_res (add_dst rp) ds (m, e) = Inr (m \<lparr> m_Dsts := m_Dsts m @ concat (map (dst_ranges rp) ds) \<rparr>, e')"
  using assms
proof (induction ds arbitrary: m e)
  case (Cons d ds)
  then obtain e1 where "add_dst rp d (m, e) = Inr (m \<lparr> m_Dsts := m_Dsts m @ dst_ranges rp d \<rparr>, e1)"
    using add_dst_ok [of d rp m e] by auto
  moreover obtain e2 where "fold_res (add_dst rp) ds (m \<lparr> m_Dsts := m_Dsts m @ dst_ranges rp d \<rparr>, e1)
      = Inr (m \<lparr> m_Dsts := (m_Dsts m @ dst_ranges rp d) @ concat (map (dst_ranges rp) ds) \<rparr>, e2)"
    using Cons.IH [of "m \<lparr> m_Dsts := m_Dsts m @ dst_ranges rp d \<rparr>" e1] Cons.prems by auto
  ultimately show ?case by (simp add: result_simps)
qed simp

lemma proto_filtered:
  "(p :: byte) \<in> set (map word_of_int (filter (\<lambda>n. 0 \<le> n \<and> n \<le> 0xff) ns)) \<longleftrightarrow> int (unat p) \<in> set ns"
proof -
  have b: "int (unat p) \<le> 255" using unsigned_less [of p, where ?'a = int] by simp
  have "n = int (unat p)" if "p = word_of_int n" "0 \<le> n" "n \<le> 0xff" for n
    using that by (simp add: unsigned_of_int take_bit_int_eq_self)
  moreover have "p = word_of_int (int (unat p))" by simp
  ultimately show ?thesis using b by (force simp: image_iff)
qed

lemma rule_match_meaning:
  assumes "r_SrcBits r = []" "\<forall>d \<in> set (r_DstPorts r). tn_Bits d = None"
  shows "\<exists>m e'. rule_match bt rp r e = Inr (m, e') \<and> m_Srcs m = concat (map (src_nets rp) (r_SrcIPs r))
    \<and> (\<forall>proto src dst port h. rule_permits m proto src dst port h = filter_rule_permits rp r proto src dst port h)"
proof -
  define m0 where "m0 = empty_match \<lparr> m_IPProto := (if r_IPProto r = [] then defaultProtos
      else map word_of_int (filter (\<lambda>n. 0 \<le> n \<and> n \<le> 0xff) (r_IPProto r))) \<rparr>"
  obtain m1 e1 where f: "fold (add_src rp) (r_SrcIPs r) (m0, e) = (m1, e1)" by force
  have m1: "m_Srcs m1 = concat (map (src_nets rp) (r_SrcIPs r))" "m_SrcCaps m1 = concat (map (src_caps rp) (r_SrcIPs r))"
    "m_Dsts m1 = []" "m_IPProto m1 = m_IPProto m0"
    using fold_add_src [of rp "r_SrcIPs r" m0 e] f by (simp_all add: m0_def empty_match_def)
  define m2 where "m2 = m1 \<lparr> m_SrcsContains := NewContainsIPFunc bt (m_Srcs m1) \<rparr>"
  obtain e2 where d: "fold_res (add_dst rp) (r_DstPorts r) (m2, e1)
      = Inr (m2 \<lparr> m_Dsts := m_Dsts m2 @ concat (map (dst_ranges rp) (r_DstPorts r)) \<rparr>, e2)"
    using fold_add_dst [OF assms(2)] by blast
  let ?m = "m2 \<lparr> m_Dsts := concat (map (dst_ranges rp) (r_DstPorts r)), m_Caps := concat (map grant_caps (r_CapGrant r)) \<rparr>"
  have "rule_match bt rp r e = Inr (?m, e2)"
    using assms(1) f d m1(3) by (simp add: rule_match_def Let_def m0_def [symmetric] m2_def [symmetric] result_simps)
      (simp add: m2_def)
  moreover have "rule_permits ?m proto src dst port h = filter_rule_permits rp r proto src dst port h" for proto src dst port h
  proof -
    have p: "proto \<in> set (m_IPProto ?m) \<longleftrightarrow>
        (if r_IPProto r = [] then proto \<in> {TCP, UDP, ICMPv4, ICMPv6} else int (unat proto) \<in> set (r_IPProto r))"
      using proto_filtered [of proto "r_IPProto r"] by (simp add: m2_def m1(4) m0_def defaultProtos_def)
    have d: "(\<exists>d \<in> set (m_Dsts ?m). pfx_Contains (npr_Net d) dst \<and> pr_Contains (npr_Ports d) port) \<longleftrightarrow>
       (\<exists>d \<in> set (r_DstPorts r). src_caps rp (tn_IP d) = []
          \<and> (\<exists>p \<in> set (src_nets rp (tn_IP d)). pfx_Contains p dst) \<and> pr_Contains (tn_Ports d) port)"
      by (auto simp: dst_ranges_def split: if_splits)
    have s: "has_src ?m src h \<longleftrightarrow> (\<exists>s \<in> set (r_SrcIPs r). (\<exists>p \<in> set (src_nets rp s). pfx_Contains p src)
        \<or> (\<exists>test. h = Some test \<and> (\<exists>c \<in> set (src_caps rp s). test src c)))"
      by (auto simp: has_src_def m2_def m1(1,2))
    show ?thesis unfolding rule_permits_def filter_rule_permits_def p d s ..
  qed
  ultimately show ?thesis by (intro exI [of _ ?m] exI [of _ e2]) (simp add: m2_def m1(1))
qed

lemma rule_matches_meaning:
  assumes "\<forall>r \<in> set pf. r_SrcBits r = [] \<and> (\<forall>d \<in> set (r_DstPorts r). tn_Bits d = None)"
  shows "\<exists>mm e'. rule_matches bt rp pf e = Inr (mm, e') \<and> list_all2 (\<lambda>r m. m_Srcs m = concat (map (src_nets rp) (r_SrcIPs r))
    \<and> (\<forall>proto src dst port h. rule_permits m proto src dst port h = filter_rule_permits rp r proto src dst port h)) pf mm"
  using assms
proof (induction pf arbitrary: e)
  case (Cons r pf)
  obtain m e1 where "rule_match bt rp r e = Inr (m, e1)" "m_Srcs m = concat (map (src_nets rp) (r_SrcIPs r))"
    "\<forall>proto src dst port h. rule_permits m proto src dst port h = filter_rule_permits rp r proto src dst port h"
    using rule_match_meaning [of r bt rp e] Cons.prems by auto
  moreover obtain mm e2 where "rule_matches bt rp pf e1 = Inr (mm, e2)"
    "list_all2 (\<lambda>r m. m_Srcs m = concat (map (src_nets rp) (r_SrcIPs r))
       \<and> (\<forall>proto src dst port h. rule_permits m proto src dst port h = filter_rule_permits rp r proto src dst port h)) pf mm"
    using Cons.IH [of e1] Cons.prems by auto
  ultimately show ?case by (simp add: result_simps)
qed simp

lemma wf_src_nets:
  assumes "\<And>a b ps. rp a b = Some ps \<Longrightarrow> \<forall>p \<in> set ps. wf_prefix p"
  shows "\<forall>p \<in> set (src_nets rp s). wf_prefix p"
  using assms by (auto simp: src_nets_def parseIPSet_def Let_def wf_PrefixFrom wf_ParsePrefix
      split: if_splits option.splits sum.splits)

text \<open>The capability branch of \<open>matchIPsOnly\<close> never looks at the destination: a source holding a
  capability that any rule names may ping every local address, also one no rule opens a port of.\<close>

lemma matchIPsOnly_cap_any_dst:
  assumes "m \<in> set ms" "c \<in> set (m_SrcCaps m)" "test (ap_Addr (Src q)) c"
  shows "matchIPsOnly ms (q \<lparr> Dst := d \<rparr>) (Some test)"
  using assms by (auto simp: matchIPsOnly_def Let_def list_ex_iff)

section \<open>Properties\<close>

text \<open>C7: The verdict on a packet that opens a flow is exactly the policy: with a filter made by \<open>New\<close>
  from a rule list and the node's own prefixes, a packet that passed the pre-checks and is a TCP SYN
  or a UDP or SCTP datagram of an untracked flow is accepted if its destination is one of the
  node's addresses and some rule lists its protocol, its source (by prefix or by capability) and its
  destination address and port; and is dropped otherwise.  The split of the rules by address
  family and the lookup tables change nothing.\<close>

theorem RunIn_policy:
  assumes "bart_ok bt" and "\<forall>m \<in> set ms. wf_match m" and "\<forall>p \<in> set ps. wf_prefix p"
    and "New bt ms h (Some ps) logs share sts0 = (f, sts1)"
    and "fst (pre f q) = noVerdict" and "fam_packet q" and "opens_flow f q sts"
  shows "fst (RunIn f q sts) =
    (if PrefixesContainsIP ps (ap_Addr (Dst q))
        \<and> (\<exists>m \<in> set ms. rule_permits m (IPProto q) (ap_Addr (Src q)) (ap_Addr (Dst q)) (ap_Port (Dst q)) h)
     then Accept else Drop)"
  using assms by (rule New_RunIn)

definition ex_rule :: match where
  "ex_rule = empty_match \<lparr> m_IPProto := [TCP], m_Srcs := [Prefix (AddrV4 0x64400002) 32],
     m_Dsts := [\<lparr> npr_Net = Prefix (AddrV4 0x64400001) 32, npr_Ports = \<lparr> pr_First = 80, pr_Last = 80 \<rparr> \<rparr>] \<rparr>"

definition ex_packet :: "byte \<Rightarrow> addrport \<Rightarrow> addrport \<Rightarrow> parsed" where
  "ex_packet proto s d = zero_parsed \<lparr> p_b := replicate 20 0, IPVersion := 4, IPProto := proto, TCPFlags := TCPSyn,
     Src := s, Dst := d \<rparr>"

definition ex_filter :: pfilter where
  "ex_filter = fst (New list_bart [ex_rule] None (Some [Prefix (AddrV4 0x64400001) 32]) None None [])"

definition ex_syn :: "u16 \<Rightarrow> parsed" where
  "ex_syn port = ex_packet TCP (AddrPort (AddrV4 0x64400002) 5555) (AddrPort (AddrV4 0x64400001) port)"

lemma ex_syn_pre: "fst (pre ex_filter (ex_syn port)) = noVerdict" "fam_packet (ex_syn port)" "IsTCPSyn (ex_syn port)"
  by (simp_all add: pre_def ex_syn_def ex_packet_def fam_packet_def IsTCPSyn_def)

theorem RunIn_policy_witness:
  "fst (RunIn ex_filter (ex_syn 80) []) = Accept \<and> fst (RunIn ex_filter (ex_syn 81) []) = Drop"
proof -
  let ?ps = "[Prefix (AddrV4 0x64400001) 32]"
  have new: "New list_bart [ex_rule] None (Some ?ps) None None [] = (ex_filter, [new_cache lruMax])"
    by (simp add: ex_filter_def New_def Let_def)
  have wf: "wf_match ex_rule" "\<forall>p \<in> set ?ps. wf_prefix p"
    by (simp_all add: wf_match_def ex_rule_def wf_prefix_def)
  have o: "opens_flow ex_filter (ex_syn p) []" for p
    using ex_syn_pre(3) by (simp add: opens_flow_def ex_syn_def ex_packet_def)
  have c: "pfx_Contains (Prefix (AddrV4 0x64400001) 32) (AddrV4 0x64400001)"
    "pfx_Contains (Prefix (AddrV4 0x64400002) 32) (AddrV4 0x64400002)" by code_simp+
  show ?thesis
    using RunIn_policy [OF list_bart_ok _ wf(2) new ex_syn_pre(1,2) o, of 80]
      RunIn_policy [OF list_bart_ok _ wf(2) new ex_syn_pre(1,2) o, of 81] wf(1) c
    by (simp add: rule_permits_def has_src_def pr_Contains_def) (simp add: ex_rule_def ex_syn_def ex_packet_def)
qed


text \<open>C8: Replies get back in: when a UDP or SCTP packet has left through a filter, the packet with
  source and destination exchanged is accepted by every filter that shares its state, also one made
  later with other rules, after any further packets in and out of any filters that number less than
  the size of the tracking table, as long as the reply passes the pre-checks and its destination
  is local.\<close>

theorem reply_admitted:
  assumes "state_ok (f_state f) sts" and "IPProto q = UDP \<or> IPProto q = SCTP" and "fst (pre f q) = noVerdict"
    and "int (length ops) < lruMax" and "f_state g = f_state f"
    and "IPProto r = IPProto q" and "Src r = Dst q" and "Dst r = Src q" and "fst (pre g r) = noVerdict"
    and "IPVersion r = 4 \<and> f_local4 g (ap_Addr (Dst r)) \<or> IPVersion r = 6 \<and> f_local6 g (ap_Addr (Dst r))"
  shows "fst (RunIn g r (fold run_op ops (snd (RunOut f q sts)))) = Accept"
proof -
  let ?a = "f_state f" and ?t = "MakeTuple (IPProto q) (Dst q) (Src q)"
  have out: "snd (RunOut f q sts) = state_Add f ?t sts"
    using assms(2,3) by (auto simp: RunOut_def runOut_def UpdateOutboundFlowState_def Let_def case_prod_beta)
  have ok: "state_ok ?a (state_Add f ?t sts)"
    using assms(1) cache_Add_refines [of "sts ! ?a" ?t "()"] by (simp add: state_ok_def state_Add_def)
  have "?t \<in> fst ` set (take 1 (cache_content (state_Add f ?t sts ! ?a)))"
    using assms(1) flow_cache.recent_new [of "sts ! ?a" ?t "()"] by (simp add: state_ok_def state_Add_def lruMax_def)
  from run_ops_recent [OF ok this, of ops] assms(4)
  have "fst (cache_Get ?t (fold run_op ops (state_Add f ?t sts) ! ?a)) \<noteq> None"
    using flow_cache.recent_found [of "fold run_op ops (state_Add f ?t sts) ! ?a" ?t "Suc (length ops)"]
    by (simp add: state_ok_def)
  then have "fst (state_Get g (MakeTuple (IPProto r) (Src r) (Dst r)) (fold run_op ops (snd (RunOut f q sts))))"
    using assms(5-8) out by (simp add: state_Get_def Let_def case_prod_beta)
  with assms(2,6) show ?thesis by (intro RunIn_cached [OF assms(9,10)]) simp_all
qed

definition ex_query :: parsed where
  "ex_query = ex_packet UDP (AddrPort (AddrV4 0x64400001) 4000) (AddrPort (AddrV4 0x08080808) 53)"

definition ex_reply :: parsed where
  "ex_reply = ex_packet UDP (AddrPort (AddrV4 0x08080808) 53) (AddrPort (AddrV4 0x64400001) 4000)"

theorem reply_admitted_witness:
  "fst (RunIn ex_filter ex_reply (fold run_op [OpIn ex_filter (ex_syn 80)]
     (snd (RunOut ex_filter ex_query [new_cache lruMax])))) = Accept"
proof (rule reply_admitted)
  show "state_ok (f_state ex_filter) [new_cache lruMax]"
    by (simp add: ex_filter_def New_def Let_def state_ok_def)
  have "NewContainsIPFunc list_bart [Prefix (AddrV4 0x64400001) 32] (AddrV4 0x64400001)" by code_simp
  then show "IPVersion ex_reply = 4 \<and> f_local4 ex_filter (ap_Addr (Dst ex_reply))
    \<or> IPVersion ex_reply = 6 \<and> f_local6 ex_filter (ap_Addr (Dst ex_reply))"
    by (simp add: ex_reply_def ex_packet_def ex_filter_def New_def Let_def)
qed (simp_all add: ex_query_def ex_reply_def ex_packet_def pre_def lruMax_def)

text \<open>C9: Nothing comes in unguarded: the filter's verdict is Accept or Drop, and a packet is accepted
  only if it is a keepalive without content, a later fragment, a packet some ingress hook asked for,
  or a packet of a known protocol whose destination is local for its address family; a multicast
  destination is never accepted, and an outbound packet is refused only by the pre-checks.\<close>

theorem ingress_guard:
  "fst (RunIn f q sts) \<in> {Accept, Drop}
   \<and> (fst (RunIn f q sts) = Accept \<longrightarrow>
        p_b q = []
      \<or> 20 \<le> length (p_b q) \<and> IPProto q \<noteq> Unknown \<and> \<not> IsMulticast (ap_Addr (Dst q))
        \<and> (IPProto q = Fragment
          \<or> (\<exists>pm \<in> set (IngressAllowHooks f). fst (pm q))
          \<or> IPVersion q = 4 \<and> f_local4 f (ap_Addr (Dst q))
          \<or> IPVersion q = 6 \<and> f_local6 f (ap_Addr (Dst q))))
   \<and> fst (fst (RunOut f q sts)) = (if fst (pre f q) = Drop then Drop else Accept)"
proof -
  have pre: "fst (pre f q) \<in> {Accept, Drop, noVerdict}"
    "fst (pre f q) = Accept \<Longrightarrow> p_b q = [] \<or> 20 \<le> length (p_b q) \<and> IPProto q = Fragment \<and> \<not> IsMulticast (ap_Addr (Dst q))"
    "fst (pre f q) = noVerdict \<Longrightarrow> 20 \<le> length (p_b q) \<and> IPProto q \<noteq> Unknown \<and> \<not> IsMulticast (ap_Addr (Dst q))"
    by (auto simp: pre_def split: if_splits)
  have out: "fst (fst (RunOut f q sts)) = (if fst (pre f q) = Drop then Drop else Accept)"
    using pre(1) by (auto simp: RunOut_def runOut_def Let_def case_prod_beta)
  show ?thesis
    using pre(1)
  proof (elim insertE)
    assume n: "fst (pre f q) = noVerdict"
    show ?thesis using RunIn_verdict [OF n, of sts] pre(3) [OF n] out by auto
  qed (use pre(2) out in \<open>auto simp: RunIn_def Let_def\<close>)
qed

theorem ingress_guard_witness:
  "fst (RunIn ex_filter (ex_syn 80) []) = Accept
   \<and> (IPVersion (ex_syn 80) = 4 \<and> f_local4 ex_filter (ap_Addr (Dst (ex_syn 80))))"
proof -
  have "fst (RunIn ex_filter (ex_syn 80) []) = Accept" by code_simp
  with ingress_guard [of ex_filter "ex_syn 80" "[]"] show ?thesis
    by (simp add: ex_filter_def New_def Let_def) (simp add: ex_syn_def ex_packet_def)
qed


text \<open>C10: With shields up nothing gets in that was not asked for: a filter made by
  \<open>NewShieldsUpFilter\<close> drops every packet that opens a flow, and it shares connection-tracking state
  only with a previous shields-up filter; otherwise it starts with an empty table of its own, so
  that flows the previous filter had let out are forgotten.\<close>

theorem shields_up:
  assumes "NewShieldsUpFilter bt nets logs share sts = (f, sts')"
    and "fst (pre f q) = noVerdict" and "fam_packet q" and "opens_flow f q st"
  shows "fst (RunIn f q st) = Drop \<and> f_shieldsUp f
    \<and> (if \<exists>g. share = Some g \<and> f_shieldsUp g then f_state f = f_state (the share) \<and> sts' = sts
        else f_state f = length sts \<and> sts' = sts @ [new_cache lruMax])"
proof -
  let ?share = "case share of Some g \<Rightarrow> if \<not> f_shieldsUp g then None else Some g | None \<Rightarrow> None"
  obtain f0 where f0: "New bt [] None nets logs ?share sts = (f0, sts')" "f = f0 \<lparr> f_shieldsUp := True \<rparr>"
    using assms(1) by (auto simp: NewShieldsUpFilter_def Let_def split: prod.splits)
  have m: "f_matches4 f = []" "f_matches6 f = []" "IngressAllowHooks f = []"
    using New_fields(1,2,4) [OF f0(1)] f0(2) by (simp_all add: matchesFamily_def)
  then have "fst (RunIn f q st) = Drop" using RunIn_opens [OF assms(2) m(3) assms(4,3)] by simp
  with New_state [OF f0(1)] f0(2) show ?thesis by (auto split: option.splits if_splits)
qed

theorem shields_up_witness:
  "fst (RunIn (fst (NewShieldsUpFilter list_bart (Some [Prefix (AddrV4 0x64400001) 32]) None (Some ex_filter) [new_cache lruMax]))
     (ex_syn 80) []) = Drop
   \<and> f_state (fst (NewShieldsUpFilter list_bart (Some [Prefix (AddrV4 0x64400001) 32]) None (Some ex_filter) [new_cache lruMax])) = 1"
proof -
  let ?r = "NewShieldsUpFilter list_bart (Some [Prefix (AddrV4 0x64400001) 32]) None (Some ex_filter) [new_cache lruMax]"
  have "NewShieldsUpFilter list_bart (Some [Prefix (AddrV4 0x64400001) 32]) None (Some ex_filter) [new_cache lruMax] = (fst ?r, snd ?r)"
    by simp
  moreover have "fst (pre (fst ?r) (ex_syn 80)) = noVerdict"
    by (simp add: pre_def ex_syn_def ex_packet_def)
  moreover have "opens_flow (fst ?r) (ex_syn 80) []"
    using ex_syn_pre(3) by (simp add: opens_flow_def ex_syn_def ex_packet_def)
  moreover have "\<not> f_shieldsUp ex_filter" by (simp add: ex_filter_def New_def Let_def)
  ultimately show ?thesis using shields_up [of list_bart _ None "Some ex_filter" _ "fst ?r" "snd ?r" "ex_syn 80" "[]"] ex_syn_pre(2)
    by simp
qed

text \<open>C11: The capabilities a peer gets are exactly the granted ones: for a filter made by \<open>New\<close>, the
  values \<open>CapsWithValues\<close> lists under a non-empty capability name are those of all grants of that
  name, in rule order, whose rule covers the source and whose destination covers the target; a name
  without such a grant, and the empty name, are absent.\<close>

theorem CapsWithValues_granted:
  assumes "bart_ok bt" and "\<forall>m \<in> set ms. wf_match m" and "New bt ms h nets logs share sts = (f, sts')"
    and "Is4 src \<or> Is6 src" and "addr_Zone src = []"
  shows "map_of (CapsWithValues f src dst) c =
    (let hits = cap_hits dst c (concat (map m_Caps (filter (\<lambda>m. \<exists>p \<in> set (m_Srcs m). pfx_Contains p src) ms))) in
     if c = [] \<or> hits = [] then None else Some (concat (map cm_Values hits)))"
proof -
  let ?mm = "if Is4 src then f_cap4 f else f_cap6 f"
  let ?cms = "concat (map m_Caps (filter (\<lambda>m. \<exists>p \<in> set (m_Srcs m). pfx_Contains p src) ms))"
  have "concat (map m_Caps (filter (\<lambda>m. m_SrcsContains m src) ?mm)) = ?cms"
    using capMatches_caps [OF assms(1,2) _ _ assms(5), of Is4] capMatches_caps [OF assms(1,2) _ _ assms(5), of Is6]
      assms(4) New_fields(9,10) [OF assms(3)] by (auto simp: family_def)
  then have "CapsWithValues f src dst = fold (add_cap dst) ?cms []"
    using assms(4) by (auto simp: CapsWithValues_def Let_def fold_caps)
  then show ?thesis using map_of_fold_add_cap [of c dst ?cms "[]"] no_empty_cap [of "[]" dst ?cms]
    by (cases "c = []") (simp_all add: Let_def)
qed

definition ex_grant :: match where
  "ex_grant = empty_match \<lparr> m_Srcs := [Prefix (AddrV4 0x64400002) 32],
     m_Caps := [\<lparr> cm_Dst = Prefix (AddrV4 0x64400001) 32, cm_Cap = ''c'', cm_Values = [''v''] \<rparr>] \<rparr>"

theorem CapsWithValues_granted_witness:
  "map_of (CapsWithValues (fst (New list_bart [ex_grant, ex_grant] None None None None []))
     (AddrV4 0x64400002) (AddrV4 0x64400001)) ''c'' = Some [''v'', ''v'']"
proof -
  let ?n = "New list_bart [ex_grant, ex_grant] None None None None []"
  have c: "pfx_Contains (Prefix (AddrV4 0x64400001) 32) (AddrV4 0x64400001)"
    "pfx_Contains (Prefix (AddrV4 0x64400002) 32) (AddrV4 0x64400002)" by code_simp+
  have "\<forall>m \<in> set [ex_grant, ex_grant]. wf_match m" by (simp add: wf_match_def ex_grant_def wf_prefix_def)
  from CapsWithValues_granted [OF list_bart_ok this, of None None None None "[]" "fst ?n" "snd ?n"
      "AddrV4 0x64400002" "AddrV4 0x64400001" "''c''"] c
  show ?thesis by (simp add: cap_hits_def ex_grant_def)
qed


text \<open>C12: The translation of control-plane rules keeps their meaning: when no rule carries the
  deprecated bits, \<open>MatchesFromFilterRules\<close> gives one match per rule, each permits exactly the packets
  its rule describes entry by entry (default protocols for an empty list, protocol numbers outside
  a byte ignored, unparsable entries covering nothing, capabilities as sources only), and the
  source prefixes are well formed, provided the range library returns well-formed prefixes.\<close>

theorem MatchesFromFilterRules_meaning:
  assumes "\<forall>r \<in> set pf. r_SrcBits r = [] \<and> (\<forall>d \<in> set (r_DstPorts r). tn_Bits d = None)"
    and "\<And>a b ps. rp a b = Some ps \<Longrightarrow> \<forall>p \<in> set ps. wf_prefix p"
  shows "list_all2 (\<lambda>r m. wf_match m
      \<and> (\<forall>proto src dst port h. rule_permits m proto src dst port h = filter_rule_permits rp r proto src dst port h))
    pf (fst (MatchesFromFilterRules bt rp pf))"
proof -
  obtain mm e where "rule_matches bt rp pf None = Inr (mm, e)"
    and mm: "list_all2 (\<lambda>r m. m_Srcs m = concat (map (src_nets rp) (r_SrcIPs r))
     \<and> (\<forall>proto src dst port h. rule_permits m proto src dst port h = filter_rule_permits rp r proto src dst port h)) pf mm"
    using rule_matches_meaning [OF assms(1), of bt rp None] by blast
  moreover have "wf_match m" if "m_Srcs m = concat (map (src_nets rp) (r_SrcIPs r))" for m r
    using wf_src_nets [of rp, OF assms(2)] that by (auto simp: wf_match_def)
  ultimately show ?thesis
    by (auto simp: MatchesFromFilterRules_def elim!: list_all2_mono)
qed

definition ex_filter_rule :: filter_rule where
  "ex_filter_rule = \<lparr> r_SrcIPs = [''*''], r_SrcBits = [],
     r_DstPorts = [\<lparr> tn_IP = ''100.64.0.1'', tn_Bits = None, tn_Ports = \<lparr> pr_First = 22, pr_Last = 22 \<rparr> \<rparr>],
     r_IPProto = [], r_CapGrant = [] \<rparr>"

theorem MatchesFromFilterRules_meaning_witness:
  "filter_rule_permits (\<lambda>_ _. None) ex_filter_rule TCP (AddrV4 7) (AddrV4 0x64400001) 22 None
   \<and> rule_permits (hd (fst (MatchesFromFilterRules list_bart (\<lambda>_ _. None) [ex_filter_rule])))
       TCP (AddrV4 7) (AddrV4 0x64400001) 22 None"
proof -
  have p: "filter_rule_permits (\<lambda>_ _. None) ex_filter_rule TCP (AddrV4 7) (AddrV4 0x64400001) 22 None"
  proof -
    have "src_nets (\<lambda>_ _. None) ''*'' = [Prefix (AddrV4 0) 0, Prefix (AddrV6 0 []) 0]"
      "src_nets (\<lambda>_ _. None) ''100.64.0.1'' = [Prefix (AddrV4 0x64400001) 32]"
      "src_caps (\<lambda>_ _. None) ''100.64.0.1'' = []" by code_simp+
    moreover have "pfx_Contains (Prefix (AddrV4 0) 0) (AddrV4 7)"
      "pfx_Contains (Prefix (AddrV4 0x64400001) 32) (AddrV4 0x64400001)" by code_simp+
    ultimately show ?thesis by (simp add: filter_rule_permits_def ex_filter_rule_def pr_Contains_def)
  qed
  have "\<forall>r \<in> set [ex_filter_rule]. r_SrcBits r = [] \<and> (\<forall>d \<in> set (r_DstPorts r). tn_Bits d = None)"
    by (simp add: ex_filter_rule_def)
  from MatchesFromFilterRules_meaning [OF this, of "\<lambda>_ _. None" list_bart] p show ?thesis
    by (auto simp: list_all2_Cons1)
qed

end
