(* ===== verification/Wire.thy ===== *)
theory Wire
  imports Headers
begin

text \<open>What the packets written by \<open>Generate\<close> look like on the wire, that their checksums are right, and that
  \<open>Decode\<close> reads them back.\<close>


section \<open>The bytes of the headers\<close>

text \<open>The IPv4 header with the checksum \<open>c\<close>, and with its own.\<close>

definition ip4_fixed :: "'a ip4_header_scheme \<Rightarrow> nat \<Rightarrow> u16 \<Rightarrow> byte list" where
  "ip4_fixed h n c = [0x45, 0] @ PutUint16_be (of_nat n) @ PutUint16_be (h4_IPID h) @ [0, 0] @ [64] @ [h4_IPProto h]
     @ PutUint16_be c @ As4_bytes (h4_Src h) @ As4_bytes (h4_Dst h)"

definition ip4_bytes :: "'a ip4_header_scheme \<Rightarrow> nat \<Rightarrow> byte list" where
  "ip4_bytes h n = ip4_fixed h n (ip4Checksum (ip4_fixed h n 0))"

definition ip6_bytes :: "'a ip6_header_scheme \<Rightarrow> nat \<Rightarrow> byte list" where
  "ip6_bytes h n = [0x60] @ drop 1 (PutUint32_be (h6_IPID h AND 0x000FFFFF)) @ PutUint16_be (of_nat (n - 40))
     @ [h6_IPProto h] @ [64] @ As16_bytes (h6_Src h) @ As16_bytes (h6_Dst h)"

lemma PutUint16_0 [simp]: "PutUint16_be 0 = [0, 0]"
  by (simp add: PutUint16_be_def numeral_2_eq_2)

lemma As4_of_Is4: "Is4 a \<Longrightarrow> As4 a = Some (As4_bytes a)"
  by (cases a) auto

lemma length_ip4_fixed [simp]: "Is4 (h4_Src h) \<Longrightarrow> Is4 (h4_Dst h) \<Longrightarrow> length (ip4_fixed h n c) = 20"
  by (simp add: ip4_fixed_def)

lemma length_ip4_bytes [simp]: "Is4 (h4_Src h) \<Longrightarrow> Is4 (h4_Dst h) \<Longrightarrow> length (ip4_bytes h n) = 20"
  by (simp add: ip4_bytes_def)

lemma length_ip6_bytes [simp]: "length (ip6_bytes h n) = 40"
  by (simp add: ip6_bytes_def)

lemma ip4_Marshal_bytes:
  assumes "20 \<le> length buf" "length buf \<le> 65535" "Is4 (h4_Src h)" "Is4 (h4_Dst h)"
  shows "ip4_Marshal h buf = Some (None, ip4_bytes h (length buf) @ drop 20 buf)"
  using assms
  by (simp add: ip4_Marshal_def As4_of_Is4 put_at_0 put_at_Cons put_at_skip slc_def ip4_bytes_def ip4_fixed_def)

lemma ip6_Marshal_bytes:
  assumes "40 \<le> length buf" "length buf \<le> 65535"
  shows "ip6_Marshal h buf = Some (None, ip6_bytes h (length buf) @ drop 40 buf)"
  using assms by (simp add: ip6_Marshal_def put_at_0 put_at_Cons put_at_skip ip6_bytes_def)

definition udp_bytes :: "u16 \<Rightarrow> u16 \<Rightarrow> nat \<Rightarrow> u16 \<Rightarrow> byte list" where
  "udp_bytes sp dp n c = PutUint16_be sp @ PutUint16_be dp @ PutUint16_be (of_nat n) @ PutUint16_be c"

lemma length_udp_bytes [simp]: "length (udp_bytes sp dp n c) = 8"
  by (simp add: udp_bytes_def)

definition pseudo4 :: "addr \<Rightarrow> addr \<Rightarrow> byte \<Rightarrow> nat \<Rightarrow> byte list" where
  "pseudo4 src dst proto n = As4_bytes src @ As4_bytes dst @ [0, proto] @ PutUint16_be (of_nat n)"

definition pseudo6 :: "addr \<Rightarrow> addr \<Rightarrow> byte \<Rightarrow> nat \<Rightarrow> byte list" where
  "pseudo6 src dst proto n = As16_bytes src @ As16_bytes dst @ PutUint32_be (of_nat n) @ [0, 0, 0, proto]"

lemma udp4_Marshal_split:
  assumes "length a = 8" "length b = 12" "length p = 8" "28 + length c \<le> 65535" "Is4 (h4_Src h)" "Is4 (h4_Dst h)"
  shows "udp4_Marshal h (a @ b @ p @ c) =
    Some (None, ip4_bytes (h \<lparr> h4_IPProto := UDP \<rparr>) (28 + length c)
      @ udp_bytes (u4_SrcPort h) (u4_DstPort h) (8 + length c)
          (ip4Checksum (pseudo4 (h4_Src h) (h4_Dst h) UDP (8 + length c)
             @ udp_bytes (u4_SrcPort h) (u4_DstPort h) (8 + length c) 0 @ c)) @ c)"
proof -
  have l: "length (a @ b @ p @ c) = 28 + length c" using assms by simp
  show ?thesis using assms
  by (simp add: udp4_Marshal_def ip4_marshalPseudo_def As4_of_Is4 put_at_0 put_at_Cons put_at_skip slc_def
      ip4_Marshal_bytes udp_bytes_def pseudo4_def)
qed

lemma udp6_Marshal_split:
  assumes "length a = 40" "length p = 8" "48 + length c \<le> 65535"
  shows "udp6_Marshal h (a @ p @ c) =
    Some (None, ip6_bytes (h \<lparr> h6_IPProto := UDP \<rparr>) (48 + length c)
      @ udp_bytes (u6_SrcPort h) (u6_DstPort h) (8 + length c)
          (ip4Checksum (pseudo6 (h6_Src h) (h6_Dst h) UDP (8 + length c)
             @ udp_bytes (u6_SrcPort h) (u6_DstPort h) (8 + length c) 0 @ c)) @ c)"
  using assms
  by (simp add: udp6_Marshal_def ip6_marshalPseudo_def put_at_0 put_at_Cons put_at_skip
      ip6_Marshal_bytes udp_bytes_def pseudo6_def)

lemma icmp4_Marshal_split:
  assumes "length a = 20" "length p = 2" "24 + length c \<le> 65535" "Is4 (h4_Src h)" "Is4 (h4_Dst h)"
  shows "icmp4_Marshal h (a @ p @ [0, 0] @ c) =
    Some (None, ip4_bytes (h \<lparr> h4_IPProto := ICMPv4 \<rparr>) (24 + length c) @ [i4_Type h, i4_Code h]
      @ PutUint16_be (ip4Checksum (ip4_bytes (h \<lparr> h4_IPProto := ICMPv4 \<rparr>) (24 + length c)
          @ [i4_Type h, i4_Code h] @ [0, 0] @ c)) @ c)"
  using assms
  by (simp add: icmp4_Marshal_def Let_def put_at_0 put_at_Cons put_at_skip ip4_Marshal_bytes)

lemma icmp6_Marshal_split:
  assumes "length a = 40" "length p = 4" "44 + length c \<le> 65535"
  shows "icmp6_Marshal h (a @ p @ c) =
    Some (None, ip6_bytes (h \<lparr> h6_IPProto := ICMPv6 \<rparr>) (44 + length c) @ [i6_Type h, i6_Code h, 0, 0] @ c)"
  using assms
  by (simp add: icmp6_Marshal_def put_at_0 put_at_Cons put_at_skip ip6_Marshal_bytes)


section \<open>Reading them back\<close>

definition decoded4 :: "'a ip4_header_scheme \<Rightarrow> byte list \<Rightarrow> parsed \<Rightarrow> parsed" where
  "decoded4 h b q = q \<lparr> p_b := b, CaptureMeta := zero_meta, IPVersion := 4, IPProto := h4_IPProto h,
     p_length := length b, Src := withIP (Src q) (h4_Src h), Dst := withIP (Dst q) (h4_Dst h), subofs := 20 \<rparr>"

definition decoded6 :: "'a ip6_header_scheme \<Rightarrow> byte list \<Rightarrow> parsed \<Rightarrow> parsed" where
  "decoded6 h b q = q \<lparr> p_b := b, CaptureMeta := zero_meta, IPVersion := 6, IPProto := h6_IPProto h,
     p_length := length b, Src := withIP (Src q) (AddrV6 (As16 (h6_Src h)) []),
     Dst := withIP (Dst q) (AddrV6 (As16 (h6_Dst h)) []), subofs := 40 \<rparr>"

lemma Uint16_PutUint16_only [simp]: "Uint16_be (PutUint16_be v) = v"
  using Uint16_PutUint16 [of v "[]"] by simp

lemma Uint16_zero [simp]: "Uint16_be [0, 0] = 0"
  by (simp add: Uint16_be_def be_nat_def)

lemma Decode_ip4_bytes:
  assumes "Is4 (h4_Src h)" "Is4 (h4_Dst h)" "20 + length rest \<le> 65535"
  shows "Decode (ip4_bytes h (20 + length rest) @ rest) q =
    decode4_proto False rest (decoded4 h (ip4_bytes h (20 + length rest) @ rest) q)"
proof -
  let ?c = "ip4Checksum (ip4_fixed h (20 + length rest) 0)" and ?n = "of_nat (20 + length rest) :: u16"
  let ?b = "ip4_bytes h (20 + length rest) @ rest"
  have u: "unat ?n = 20 + length rest" using assms(3) by (simp add: unat_of_nat del: of_nat_add)
  have len: "length ?b = 20 + length rest" using assms by simp
  have b: "?b = [0x45, 0] @ PutUint16_be ?n @ PutUint16_be (h4_IPID h) @ [0, 0] @ [64] @ [h4_IPProto h]
     @ PutUint16_be ?c @ As4_bytes (h4_Src h) @ As4_bytes (h4_Dst h) @ rest"
    by (simp add: ip4_bytes_def ip4_fixed_def)
  have at: "idx ?b 0 = Some 0x45" "idx ?b 9 = Some (h4_IPProto h)" "be16_at ?b 2 = Some ?n" "be16_at ?b 6 = Some 0"
    "slc ?b 12 16 = Some (As4_bytes (h4_Src h))" "slc ?b 16 20 = Some (As4_bytes (h4_Dst h))" "slc ?b 20 (length ?b) = Some rest"
    using assms len unfolding b by (simp_all add: idx_def be16_at_def slc_def nth_append nth_Cons')
  show ?thesis
    unfolding Decode_def decode4_def decoded4_def using at u len assms
    by (simp add: Let_def netip_simps)
qed

lemma Decode_ip6_bytes:
  assumes "40 + length rest \<le> 65535" and "h6_IPProto h \<noteq> ip6FragHeader"
  shows "Decode (ip6_bytes h (40 + length rest) @ rest) q =
    decode6_proto rest (decoded6 h (ip6_bytes h (40 + length rest) @ rest) q)"
proof -
  let ?n = "of_nat (length rest) :: u16" and ?b = "ip6_bytes h (40 + length rest) @ rest"
  have u: "unat ?n + 40 = 40 + length rest" using assms(1) by (simp add: unat_of_nat)
  have len: "length ?b = 40 + length rest" by simp
  have b: "?b = [0x60] @ drop 1 (PutUint32_be (h6_IPID h AND 0x000FFFFF)) @ PutUint16_be ?n
     @ [h6_IPProto h] @ [64] @ As16_bytes (h6_Src h) @ As16_bytes (h6_Dst h) @ rest"
    by (simp add: ip6_bytes_def)
  have at: "idx ?b 0 = Some 0x60" "idx ?b 6 = Some (h6_IPProto h)" "be16_at ?b 4 = Some ?n"
    "slc ?b 8 24 = Some (As16_bytes (h6_Src h))" "slc ?b 24 40 = Some (As16_bytes (h6_Dst h))" "slc ?b 40 (length ?b) = Some rest"
    using len unfolding b by (simp_all add: idx_def be16_at_def slc_def nth_append nth_Cons')
  have fs: "AddrFromSlice (As16_bytes a) = Some (AddrV6 (As16 a) [])" for a
    using AddrFrom16_As16 [of "As16 a" "[]"] by (simp add: AddrFromSlice_def As16_bytes_def)
  show ?thesis
    unfolding Decode_def decode6_def decoded6_def using at u len assms
    by (simp add: Let_def netip_simps fs) (simp only: add.commute [of "length rest"])
qed

text \<open>The fields a reader relies on.\<close>

definition reads_as :: "parsed \<Rightarrow> byte \<Rightarrow> byte \<Rightarrow> addrport \<Rightarrow> addrport \<Rightarrow> byte list \<Rightarrow> bool" where
  "reads_as q ver proto src dst payload \<longleftrightarrow>
     IPVersion q = ver \<and> IPProto q = proto \<and> Src q = src \<and> Dst q = dst \<and> Payload q = Some payload"

lemma Generate_udp4:
  assumes "Is4 (h4_Src h)" "Is4 (h4_Dst h)" "28 + length payload \<le> 65535"
  shows "Generate (HUDP4 h) payload = Some (ip4_bytes (h \<lparr> h4_IPProto := UDP \<rparr>) (28 + length payload)
      @ udp_bytes (u4_SrcPort h) (u4_DstPort h) (8 + length payload)
          (ip4Checksum (pseudo4 (h4_Src h) (h4_Dst h) UDP (8 + length payload)
             @ udp_bytes (u4_SrcPort h) (u4_DstPort h) (8 + length payload) 0 @ payload)) @ payload)"
proof -
  have "replicate 28 (0 :: byte) = replicate 8 0 @ replicate 12 0 @ replicate 8 0"
    by (simp add: replicate_add [symmetric])
  then show ?thesis
    using udp4_Marshal_split [of "replicate 8 0" "replicate 12 0" "replicate 8 0" payload h] assms by (simp add: Generate_def)
qed

lemma Generate_udp6:
  assumes "48 + length payload \<le> 65535"
  shows "Generate (HUDP6 h) payload = Some (ip6_bytes (h \<lparr> h6_IPProto := UDP \<rparr>) (48 + length payload)
      @ udp_bytes (u6_SrcPort h) (u6_DstPort h) (8 + length payload)
          (ip4Checksum (pseudo6 (h6_Src h) (h6_Dst h) UDP (8 + length payload)
             @ udp_bytes (u6_SrcPort h) (u6_DstPort h) (8 + length payload) 0 @ payload)) @ payload)"
proof -
  have "replicate 48 (0 :: byte) = replicate 40 0 @ replicate 8 0"
    by (simp add: replicate_add [symmetric])
  then show ?thesis
    using udp6_Marshal_split [of "replicate 40 0" "replicate 8 0" payload h] assms by (simp add: Generate_def)
qed

text \<open>The UDP header decodes to its ports, whatever the checksum.\<close>

lemma decode_udp_bytes:
  "decode_udp (udp_bytes sp dp n c @ payload) q =
     Some (q \<lparr> Src := withPort (Src q) sp, Dst := withPort (Dst q) dp, dataofs := subofs q + 8 \<rparr>)"
  by (simp add: decode_udp_def decode_ports_def be16_at_def slc_def udp_bytes_def)

lemma Payload_from:
  "p_length q = length (p_b q) \<Longrightarrow> dataofs q \<le> length (p_b q) \<Longrightarrow> Payload q = Some (drop (dataofs q) (p_b q))"
  by (simp add: Payload_def slc_def)

lemma ip4_bytes_ok:
  assumes "Is4 (h4_Src h)" "Is4 (h4_Dst h)"
  shows "checksum_ok (ip4_bytes h n)"
proof -
  let ?pre = "[0x45, 0] @ PutUint16_be (of_nat n) @ PutUint16_be (h4_IPID h) @ [0, 0] @ [64] @ [h4_IPProto h]"
  let ?post = "As4_bytes (h4_Src h) @ As4_bytes (h4_Dst h)"
  have "checksum_ok (?pre @ PutUint16_be (ip4Checksum (ip4_fixed h n 0)) @ ?post)"
  proof (rule checksum_ok_insert)
    have "?pre @ [0, 0] @ ?post = ip4_fixed h n 0" by (simp add: ip4_fixed_def)
    then show "unat (ip4Checksum (ip4_fixed h n 0)) = 65535 - oc (sum16 (?pre @ [0, 0] @ ?post))"
      using assms unat_ip4Checksum [of "ip4_fixed h n 0"] by simp
  qed simp
  then show ?thesis by (simp add: ip4_bytes_def ip4_fixed_def)
qed

text \<open>A UDP checksum over a pseudo header of even length.\<close>

lemma udp_bytes_ok:
  assumes "even (length ph)" "length ph + 8 + length payload \<le> 65535"
  shows "checksum_ok (ph @ udp_bytes sp dp n (ip4Checksum (ph @ udp_bytes sp dp n 0 @ payload)) @ payload)"
proof -
  let ?pre = "ph @ PutUint16_be sp @ PutUint16_be dp @ PutUint16_be (of_nat n)"
  let ?c = "ip4Checksum (ph @ udp_bytes sp dp n 0 @ payload)"
  have "checksum_ok (?pre @ PutUint16_be ?c @ payload)"
  proof (rule checksum_ok_insert)
    have e: "?pre @ [0, 0] @ payload = ph @ udp_bytes sp dp n 0 @ payload" by (simp add: udp_bytes_def)
    show "unat ?c = 65535 - oc (sum16 (?pre @ [0, 0] @ payload))"
      unfolding e using assms(2) unat_ip4Checksum [of "ph @ udp_bytes sp dp n 0 @ payload"] by simp
  qed (use assms(1) in simp)
  then show ?thesis by (simp add: udp_bytes_def)
qed

lemma length_pseudo [simp]:
  "Is4 a \<Longrightarrow> Is4 b \<Longrightarrow> length (pseudo4 a b p n) = 12" "length (pseudo6 a b p n) = 40"
  by (simp_all add: pseudo4_def pseudo6_def)


section \<open>Properties of UDP packets\<close>

text \<open>C20: UDP over IPv4: the packet \<open>Generate\<close> makes from a UDP header with IPv4 addresses and a payload that
  fits is decoded to the same addresses, ports and payload, its IP header passes the header checksum, and its
  UDP part passes the UDP checksum under the pseudo header.\<close>

theorem udp4_roundtrip:
  assumes "Is4 (h4_Src h)" and "Is4 (h4_Dst h)" and "28 + length payload \<le> 65535"
  shows "\<exists>b q'. Generate (HUDP4 h) payload = Some b \<and> Decode b q = Some q'
    \<and> reads_as q' 4 UDP (AddrPort (h4_Src h) (u4_SrcPort h)) (AddrPort (h4_Dst h) (u4_DstPort h)) payload
    \<and> checksum_ok (take 20 b) \<and> checksum_ok (pseudo4 (h4_Src h) (h4_Dst h) UDP (length b - 20) @ drop 20 b)"
proof -
  let ?h = "h \<lparr> h4_IPProto := UDP \<rparr>" and ?ph = "pseudo4 (h4_Src h) (h4_Dst h) UDP (8 + length payload)"
  let ?u = "udp_bytes (u4_SrcPort h) (u4_DstPort h) (8 + length payload)"
  let ?rest = "?u (ip4Checksum (?ph @ ?u 0 @ payload)) @ payload"
  let ?b = "ip4_bytes ?h (20 + length ?rest) @ ?rest"
  have "Generate (HUDP4 h) payload = Some ?b" using Generate_udp4 [OF assms] by simp
  moreover have "Decode ?b q = decode4_proto False ?rest (decoded4 ?h ?b q)"
    by (rule Decode_ip4_bytes) (use assms in simp_all)
  moreover have "checksum_ok (?ph @ ?rest)" by (rule udp_bytes_ok) (use assms in simp_all)
  moreover have "checksum_ok (take 20 ?b)" using assms by (simp add: ip4_bytes_ok)
  ultimately show ?thesis using assms
    by (simp add: decode4_proto_def decode_udp_bytes decoded4_def reads_as_def Payload_from withIP_def withPort_def)
qed

theorem udp4_roundtrip_witness:
  "\<exists>b. Generate (HUDP4 \<lparr> h4_IPProto = 0, h4_IPID = 7, h4_Src = AddrV4 1, h4_Dst = AddrV4 2, u4_SrcPort = 53, u4_DstPort = 9 \<rparr>) [1, 2, 3] = Some b
     \<and> checksum_ok (take 20 b)"
  using udp4_roundtrip [of "\<lparr> h4_IPProto = 0, h4_IPID = 7, h4_Src = AddrV4 1, h4_Dst = AddrV4 2, u4_SrcPort = 53, u4_DstPort = 9 \<rparr>"
      "[1, 2, 3]" zero_parsed] by auto

text \<open>UDP over IPv6: the same, for addresses without zone.\<close>

lemma udp6_roundtrip:
  assumes "h6_Src h = AddrV6 s []" and "h6_Dst h = AddrV6 d []" and "48 + length payload \<le> 65535"
  shows "\<exists>b q'. Generate (HUDP6 h) payload = Some b \<and> Decode b q = Some q'
    \<and> reads_as q' 6 UDP (AddrPort (h6_Src h) (u6_SrcPort h)) (AddrPort (h6_Dst h) (u6_DstPort h)) payload
    \<and> checksum_ok (pseudo6 (h6_Src h) (h6_Dst h) UDP (length b - 40) @ drop 40 b)"
proof -
  let ?h = "h \<lparr> h6_IPProto := UDP \<rparr>" and ?ph = "pseudo6 (h6_Src h) (h6_Dst h) UDP (8 + length payload)"
  let ?u = "udp_bytes (u6_SrcPort h) (u6_DstPort h) (8 + length payload)"
  let ?rest = "?u (ip4Checksum (?ph @ ?u 0 @ payload)) @ payload"
  let ?b = "ip6_bytes ?h (40 + length ?rest) @ ?rest"
  have "Generate (HUDP6 h) payload = Some ?b" using Generate_udp6 [OF assms(3)] by simp
  moreover have "Decode ?b q = decode6_proto ?rest (decoded6 ?h ?b q)"
    by (rule Decode_ip6_bytes) (use assms in \<open>simp_all add: ip6FragHeader_def\<close>)
  moreover have "checksum_ok (?ph @ ?rest)" by (rule udp_bytes_ok) (use assms in simp_all)
  ultimately show ?thesis using assms
    by (simp add: decode6_proto_def decode_udp_bytes decoded6_def reads_as_def Payload_from withIP_def withPort_def)
qed

text \<open>The computed UDP checksum can be zero, which over IPv4 says that there is no checksum and over IPv6
  is not allowed; RFC 768 sends it as all ones.\<close>

lemma udp6_zero_checksum:
  "map_option (\<lambda>b. take 2 (drop 46 b)) (Generate (HUDP6 \<lparr> h6_IPProto = 0, h6_IPID = 0, h6_Src = AddrV6 0 [],
     h6_Dst = AddrV6 0 [], u6_SrcPort = 65502, u6_DstPort = 0 \<rparr>) []) = Some [0, 0]"
proof -
  let ?d = "pseudo6 (AddrV6 0 []) (AddrV6 0 []) UDP 8 @ udp_bytes 65502 0 8 0"
  have "sum16 ?d = 65535" by code_simp
  then have "unat (ip4Checksum ?d) = 0" by (simp add: unat_ip4Checksum oc_def)
  then have "ip4Checksum ?d = 0" by (simp add: unat_eq_0)
  then show ?thesis by (simp add: Generate_udp6) (simp add: udp_bytes_def)
qed

end
