(* ===== verification/Tsmp.thy ===== *)
theory Tsmp
  imports Wire
begin

text \<open>ICMP and TSMP packets written by \<open>Generate\<close>: checksums and round trips through \<open>Decode\<close> and the
  \<open>As...\<close> readers of \<open>net/packet/tsmp.go\<close>.\<close>


section \<open>ICMP\<close>

lemma sum16_eq_0: "sum16 bs = 0 \<longleftrightarrow> list_all (\<lambda>x. x = 0) bs"
  by (induction bs rule: sum16.induct) (auto simp: unat_eq_0)

lemma Generate_icmp4:
  assumes "Is4 (h4_Src h)" "Is4 (h4_Dst h)" "24 + length payload \<le> 65535"
  shows "Generate (HICMP4 h) payload = Some (ip4_bytes (h \<lparr> h4_IPProto := ICMPv4 \<rparr>) (24 + length payload)
      @ [i4_Type h, i4_Code h]
      @ PutUint16_be (ip4Checksum (ip4_bytes (h \<lparr> h4_IPProto := ICMPv4 \<rparr>) (24 + length payload)
          @ [i4_Type h, i4_Code h] @ [0, 0] @ payload)) @ payload)"
proof -
  have "replicate 24 (0 :: byte) = replicate 20 0 @ replicate 2 0 @ replicate 2 0"
    by (simp add: replicate_add [symmetric])
  then have "replicate 24 (0 :: byte) = replicate 20 0 @ replicate 2 0 @ [0, 0]" by (simp add: numeral_2_eq_2)
  then show ?thesis
    using icmp4_Marshal_split [of "replicate 20 0" "replicate 2 0" payload h] assms by (simp add: Generate_def)
qed

lemma Generate_icmp6:
  assumes "44 + length payload \<le> 65535"
  shows "Generate (HICMP6 h) payload = Some (ip6_bytes (h \<lparr> h6_IPProto := ICMPv6 \<rparr>) (44 + length payload)
      @ [i6_Type h, i6_Code h]
      @ PutUint16_be (icmp6Checksum [i6_Type h, i6_Code h, 0, 0] (As16_bytes (h6_Src h)) (As16_bytes (h6_Dst h)) payload)
      @ payload)"
proof -
  have "replicate 44 (0 :: byte) = replicate 40 0 @ replicate 4 0"
    by (simp add: replicate_add [symmetric])
  then show ?thesis
    using icmp6_Marshal_split [of "replicate 40 0" "replicate 4 0" payload h] assms
    by (simp add: Generate_def icmp6_WriteChecksum_def slc_def put_at_skip put_at_Cons put_at_0 numeral_2_eq_2)
qed

lemma sum16_PutUint32: "sum16 (PutUint32_be v @ bs) = sum16 (PutUint32_be v) + sum16 bs"
  by (rule sum16_append) simp

lemma unat_icmp6Checksum:
  assumes "even (length payload)" "44 + length payload \<le> 65535" "length src = 16" "length dst = 16"
  shows "unat (icmp6Checksum [t, c, 0, 0] src dst payload) =
    65535 - oc (sum16 (src @ dst @ PutUint32_be (of_nat (4 + length payload)) @ [0, 0, 0, ICMPv6] @ [t, c] @ [0, 0] @ payload))"
  using assms
  by (simp add: icmp6Checksum_def Let_def unat_not16 unat_checksumBytes oc_add_left sum16_append sum16_PutUint32)
     (simp add: ac_simps)

text \<open>ICMP over IPv4: the packet \<open>Generate\<close> makes is decoded to the same addresses, message type and payload,
  and although the checksum is computed over the whole packet, both the IP header and the ICMP part alone
  pass the check, unless the ICMP part is all zero.\<close>

lemma icmp4_roundtrip:
  assumes "Is4 (h4_Src h)" and "Is4 (h4_Dst h)" and "24 + length payload \<le> 65535"
  shows "\<exists>b q'. Generate (HICMP4 h) payload = Some b \<and> Decode b q = Some q'
    \<and> reads_as q' 4 ICMPv4 (AddrPort (h4_Src h) 0) (AddrPort (h4_Dst h) 0) payload
    \<and> p_b q' = b \<and> subofs q' = 20 \<and> length b = 24 + length payload \<and> b ! 20 = i4_Type h \<and> b ! 21 = i4_Code h
    \<and> checksum_ok (take 20 b)
    \<and> (\<not> (i4_Type h = 0 \<and> i4_Code h = 0 \<and> list_all (\<lambda>x. x = 0) payload) \<longrightarrow> checksum_ok (drop 20 b))"
proof -
  let ?h = "h \<lparr> h4_IPProto := ICMPv4 \<rparr>"
  let ?ip = "ip4_bytes ?h (24 + length payload)" and ?zero = "[i4_Type h, i4_Code h] @ [0, 0] @ payload"
  let ?c = "ip4Checksum (?ip @ ?zero)"
  let ?rest = "[i4_Type h, i4_Code h] @ PutUint16_be ?c @ payload"
  have ip: "checksum_ok ?ip" "length ?ip = 20" using assms by (simp_all add: ip4_bytes_ok)
  have g: "Generate (HICMP4 h) payload = Some (?ip @ ?rest)" using Generate_icmp4 [OF assms] by simp
  have "checksum_ok ?rest" if "\<not> (i4_Type h = 0 \<and> i4_Code h = 0 \<and> list_all (\<lambda>x. x = 0) payload)"
  proof -
    have "0 < sum16 ?zero" using that sum16_eq_0 [of ?zero] by auto
    then have "oc (sum16 (?ip @ ?zero)) = oc (sum16 ?zero)"
      using oc_ones_prefix [OF ip(1)] ip(2) by (simp add: sum16_append)
    then have "unat ?c = 65535 - oc (sum16 ?zero)"
      using unat_ip4Checksum [of "?ip @ ?zero"] ip(2) assms(3) by simp
    then show ?thesis using checksum_ok_insert [of "[i4_Type h, i4_Code h]" ?c payload] by simp
  qed
  moreover have "Decode (ip4_bytes ?h (20 + length ?rest) @ ?rest) q
      = decode4_proto False ?rest (decoded4 ?h (ip4_bytes ?h (20 + length ?rest) @ ?rest) q)"
    by (rule Decode_ip4_bytes) (use assms in simp_all)
  moreover have "(?ip @ ?rest) ! 20 = i4_Type h" "(?ip @ ?rest) ! 21 = i4_Code h"
    using ip(2) by (simp_all add: nth_append)
  ultimately show ?thesis using assms g ip
    by (simp add: decode4_proto_def decode_icmp_def decoded4_def reads_as_def Payload_from withIP_def withPort_def)
qed

text \<open>An echo reply whose identifier, sequence number and data are all zero gets the checksum zero instead of
  all ones and fails the receiver's check.\<close>

lemma icmp4_zero_reply_fails:
  assumes "Is4 (h4_Src h)" "Is4 (h4_Dst h)" "24 + length payload \<le> 65535"
    and "i4_Type h = ICMP4EchoReply" "i4_Code h = 0" "list_all (\<lambda>x. x = 0) payload"
  shows "\<exists>b. Generate (HICMP4 h) payload = Some b \<and> \<not> checksum_ok (drop 20 b)"
proof -
  let ?ip = "ip4_bytes (h \<lparr> h4_IPProto := ICMPv4 \<rparr>) (24 + length payload)"
  let ?c = "ip4Checksum (?ip @ [0, 0] @ [0, 0] @ payload)"
  have ip: "checksum_ok ?ip" "length ?ip = 20" using assms by (simp_all add: ip4_bytes_ok)
  have z: "sum16 payload = 0" using assms(6) by (simp add: sum16_eq_0)
  have "unat ?c = 65535 - oc (sum16 (?ip @ [0, 0] @ [0, 0] @ payload))"
    by (rule unat_ip4Checksum) (use assms ip in simp)
  then have "unat ?c = 0" using ip z by (simp add: sum16_append checksum_ok_def)
  then have "?c = 0" by (simp add: unat_eq_0)
  then show ?thesis using Generate_icmp4 [OF assms(1-3)] assms(4,5) ip z by (simp add: checksum_ok_def oc_def)
qed

text \<open>ICMP over IPv6: the packet \<open>Generate\<close> makes is decoded to the same addresses and payload, and for a
  payload of even length its ICMPv6 part passes the check under the IPv6 pseudo header.\<close>

lemma icmp6_roundtrip:
  assumes "h6_Src h = AddrV6 s []" and "h6_Dst h = AddrV6 d []" and "44 + length payload \<le> 65535" and "even (length payload)"
  shows "\<exists>b q'. Generate (HICMP6 h) payload = Some b \<and> Decode b q = Some q'
    \<and> reads_as q' 6 ICMPv6 (AddrPort (h6_Src h) 0) (AddrPort (h6_Dst h) 0) payload
    \<and> checksum_ok (pseudo6 (h6_Src h) (h6_Dst h) ICMPv6 (length b - 40) @ drop 40 b)"
proof -
  let ?h = "h \<lparr> h6_IPProto := ICMPv6 \<rparr>" and ?ph = "pseudo6 (h6_Src h) (h6_Dst h) ICMPv6 (4 + length payload)"
  let ?c = "icmp6Checksum [i6_Type h, i6_Code h, 0, 0] (As16_bytes (h6_Src h)) (As16_bytes (h6_Dst h)) payload"
  let ?rest = "[i6_Type h, i6_Code h] @ PutUint16_be ?c @ payload"
  have g: "Generate (HICMP6 h) payload = Some (ip6_bytes ?h (40 + length ?rest) @ ?rest)"
    using Generate_icmp6 [OF assms(3)] by simp
  have "unat ?c = 65535 - oc (sum16 ((?ph @ [i6_Type h, i6_Code h]) @ [0, 0] @ payload))"
    using unat_icmp6Checksum [OF assms(4,3)] by (simp add: pseudo6_def)
  then have "checksum_ok ((?ph @ [i6_Type h, i6_Code h]) @ PutUint16_be ?c @ payload)"
    by (intro checksum_ok_insert) simp_all
  moreover have "Decode (ip6_bytes ?h (40 + length ?rest) @ ?rest) q
      = decode6_proto ?rest (decoded6 ?h (ip6_bytes ?h (40 + length ?rest) @ ?rest) q)"
    by (rule Decode_ip6_bytes) (use assms in \<open>simp_all add: ip6FragHeader_def\<close>)
  ultimately show ?thesis using assms g
    by (simp add: decode6_proto_def decode_icmp_def decoded6_def reads_as_def Payload_from withIP_def withPort_def)
qed

text \<open>With an odd number of payload bytes the ICMPv6 checksum is wrong.\<close>

lemma icmp6_odd_payload_fails:
  "\<exists>b. Generate (HICMP6 \<lparr> h6_IPProto = 0, h6_IPID = 0, h6_Src = AddrV6 1 [], h6_Dst = AddrV6 2 [],
        i6_Type = ICMP6EchoRequest, i6_Code = 0 \<rparr>) [7] = Some b
     \<and> \<not> checksum_ok (pseudo6 (AddrV6 1 []) (AddrV6 2 []) ICMPv6 (length b - 40) @ drop 40 b)"
proof -
  let ?s = "As16_bytes (AddrV6 1 [])" and ?d = "As16_bytes (AddrV6 2 [])"
  let ?c = "icmp6Checksum [128, 0, 0, 0] ?s ?d [7]"
  have n: "sum16 ?s = 1" "sum16 ?d = 2" "sum16 (PutUint32_be 5) = 5" by code_simp+
  have c: "unat ?c = 65535 - 32841"
    by (simp add: icmp6Checksum_def Let_def unat_not16 unat_checksumBytes unat_checksumBytes_odd n oc_small)
  have "sum16 (pseudo6 (AddrV6 1 []) (AddrV6 2 []) ICMPv6 5 @ [128, 0] @ PutUint16_be ?c @ [7]) = 67320"
    using c by (simp add: pseudo6_def sum16_append sum16_PutUint32 sum16_PutUint16 n)
  then have "\<not> checksum_ok (pseudo6 (AddrV6 1 []) (AddrV6 2 []) ICMPv6 5 @ [128, 0] @ PutUint16_be ?c @ [7])"
    by (simp add: checksum_ok_def oc_def)
  then show ?thesis by (simp add: Generate_icmp6)
qed


section \<open>TSMP\<close>

text \<open>A TSMP packet decodes to its addresses and body.\<close>

definition tsmp_reads :: "parsed \<Rightarrow> addr \<Rightarrow> addr \<Rightarrow> byte list \<Rightarrow> bool" where
  "tsmp_reads q src dst body \<longleftrightarrow>
     IPProto q = TSMP \<and> ap_Addr (Src q) = src \<and> ap_Addr (Dst q) = dst \<and> Payload q = Some body"

lemma tsmp_decode4:
  assumes "Is4 (h4_Src h)" "Is4 (h4_Dst h)" "h4_IPProto h = TSMP" "7 \<le> length body" "20 + length body \<le> 65535"
  shows "\<exists>q'. Decode (ip4_bytes h (20 + length body) @ body) q = Some q' \<and> tsmp_reads q' (h4_Src h) (h4_Dst h) body"
  using assms
  by (simp add: Decode_ip4_bytes decode4_proto_def decoded4_def tsmp_reads_def Payload_from withIP_def)

definition plain6 :: "addr \<Rightarrow> bool" where
  "plain6 a \<longleftrightarrow> (case a of AddrV6 _ z \<Rightarrow> z = [] | _ \<Rightarrow> False)"

lemma plain6_As16 [simp]: "plain6 a \<Longrightarrow> AddrV6 (As16 a) [] = a" "plain6 a \<Longrightarrow> \<not> Is4 a" "plain6 a \<Longrightarrow> Is6 a"
  by (auto simp: plain6_def split: addr.splits)

lemma tsmp_decode6:
  assumes "plain6 (h6_Src h)" "plain6 (h6_Dst h)" "h6_IPProto h = TSMP" "7 \<le> length body" "40 + length body \<le> 65535"
  shows "\<exists>q'. Decode (ip6_bytes h (40 + length body) @ body) q = Some q' \<and> tsmp_reads q' (h6_Src h) (h6_Dst h) body"
  using assms
  by (simp add: Decode_ip6_bytes ip6FragHeader_def decode6_proto_def decoded6_def tsmp_reads_def Payload_from withIP_def)

definition family_ok :: "addr \<Rightarrow> addr \<Rightarrow> bool" where
  "family_ok a b \<longleftrightarrow> Is4 a \<and> Is4 b \<or> plain6 a \<and> plain6 b"

definition rejected_bytes :: "rejected_header \<Rightarrow> byte list" where
  "rejected_bytes h = [TSMPTypeRejectedConn, r_Proto h, r_Reason h] @ PutUint16_be (ap_Port (r_Src h))
     @ PutUint16_be (ap_Port (r_Dst h)) @ (if r_MaybeBroken h then [1] else [])"

lemma rejected_body_bytes:
  assumes "length a = off" "length b = length (rejected_bytes h)"
  shows "rejected_body h off (a @ b) = Some (None, a @ rejected_bytes h)"
proof -
  have "length b = 7 + (if r_MaybeBroken h then 1 else 0)" using assms(2) by (simp add: rejected_bytes_def)
  then show ?thesis using assms(1)
    by (simp add: rejected_body_def rejected_bytes_def slc_def put_at_skip put_at_Cons put_at_0 hasFlags_def Let_def)
qed

lemma Generate_rejected:
  assumes "family_ok (r_IPSrc h) (r_IPDst h)" and "ap_Addr (r_Src h) = r_IPDst h"
  shows "\<exists>b q'. Generate (HRejected h) [] = Some b \<and> Decode b q = Some q'
    \<and> tsmp_reads q' (r_IPSrc h) (r_IPDst h) (rejected_bytes h)"
proof -
  let ?n = "length (rejected_bytes h)"
  have len: "7 \<le> ?n" "?n \<le> 8" by (simp_all add: rejected_bytes_def)
  have eq: "?n = 7 + (if r_MaybeBroken h then 1 else 0)" by (simp add: rejected_bytes_def)
  consider (v4) "Is4 (r_IPSrc h)" "Is4 (r_IPDst h)" | (v6) "plain6 (r_IPSrc h)" "plain6 (r_IPDst h)"
    using assms(1) by (auto simp: family_ok_def)
  then show ?thesis
  proof cases
    case v4
    let ?h = "\<lparr> h4_IPProto = TSMP, h4_IPID = 0, h4_Src = r_IPSrc h, h4_Dst = r_IPDst h \<rparr>"
    have l: "rejected_Len h = 20 + ?n" using v4 eq by (simp add: rejected_Len_def hasFlags_def)
    have "ip4_Marshal ?h (replicate (rejected_Len h) 0)
        = Some (None, ip4_bytes ?h (20 + length (rejected_bytes h)) @ replicate (length (rejected_bytes h)) 0)"
      using v4 len by (subst ip4_Marshal_bytes) (simp_all add: l)
    then have "Generate (HRejected h) [] = Some (ip4_bytes ?h (20 + length (rejected_bytes h)) @ rejected_bytes h)"
      using v4 assms(2) len l by (simp add: Generate_def rejected_Marshal_def rejected_body_bytes)
    then show ?thesis using tsmp_decode4 [of ?h "rejected_bytes h" q] v4 len by simp
  next
    case v6
    let ?h = "\<lparr> h6_IPProto = TSMP, h6_IPID = 0, h6_Src = r_IPSrc h, h6_Dst = r_IPDst h \<rparr>"
    have l: "rejected_Len h = 40 + ?n" using v6 eq by (simp add: rejected_Len_def hasFlags_def)
    have "ip6_Marshal ?h (replicate (rejected_Len h) 0)
        = Some (None, ip6_bytes ?h (40 + length (rejected_bytes h)) @ replicate (length (rejected_bytes h)) 0)"
      using len by (subst ip6_Marshal_bytes) (simp_all add: l)
    then have "Generate (HRejected h) [] = Some (ip6_bytes ?h (40 + length (rejected_bytes h)) @ rejected_bytes h)"
      using v6 assms(2) len l by (simp add: Generate_def rejected_Marshal_def rejected_body_bytes)
    then show ?thesis using tsmp_decode6 [of ?h "rejected_bytes h" q] v6 len by simp
  qed
qed

text \<open>C21: A rejection message survives the wire: for a header whose addresses are all IPv4 or all IPv6 without
  zone, and whose rejected flow runs from the receiver to the sender, \<open>AsTailscaleRejectedHeader\<close> recovers
  from the decoded packet the very header that was sent.\<close>

theorem rejected_roundtrip:
  assumes "family_ok (r_IPSrc h) (r_IPDst h)" and "ap_Addr (r_Src h) = r_IPDst h" and "ap_Addr (r_Dst h) = r_IPSrc h"
  shows "\<exists>b q'. Generate (HRejected h) [] = Some b \<and> Decode b q = Some q' \<and> AsTailscaleRejectedHeader q' = Some (Some h)"
proof -
  from Generate_rejected [OF assms(1,2)] obtain b q' where b: "Generate (HRejected h) [] = Some b" "Decode b q = Some q'"
    and r: "tsmp_reads q' (r_IPSrc h) (r_IPDst h) (rejected_bytes h)" by blast
  have "AddrPort (r_IPDst h) (ap_Port (r_Src h)) = r_Src h" "AddrPort (r_IPSrc h) (ap_Port (r_Dst h)) = r_Dst h"
    using assms(2,3) by (metis addrport.collapse)+
  with r have "AsTailscaleRejectedHeader q' = Some (Some h)"
    by (cases h) (simp add: AsTailscaleRejectedHeader_def tsmp_reads_def rejected_bytes_def nth_append)
  with b show ?thesis by blast
qed

theorem rejected_roundtrip_witness:
  "\<exists>b. Generate (HRejected \<lparr> r_IPSrc = AddrV4 1, r_IPDst = AddrV4 2, r_Src = AddrPort (AddrV4 2) 5, r_Dst = AddrPort (AddrV4 1) 80,
      r_Proto = TCP, r_Reason = 65, r_MaybeBroken = True \<rparr>) [] = Some b"
  using rejected_roundtrip [of "\<lparr> r_IPSrc = AddrV4 1, r_IPDst = AddrV4 2, r_Src = AddrPort (AddrV4 2) 5, r_Dst = AddrPort (AddrV4 1) 80,
      r_Proto = TCP, r_Reason = 65, r_MaybeBroken = True \<rparr>" zero_parsed] by (auto simp: family_ok_def)

lemma pong_body:
  assumes "length a = off" "length data = 8" "length b = 11"
    and "m (z @ b) = Some (None, a @ b)" "length z = off"
  shows "pong_Marshal off m data port (z @ b) = Some (None, a @ [TSMPTypePong] @ data @ PutUint16_be port)"
  using assms by (simp add: pong_Marshal_def put_at_skip put_at_Cons put_at_0)

lemma Generate_pong4:
  assumes "Is4 (h4_Src h)" "Is4 (h4_Dst h)" "length data = 8"
  shows "Generate (HPong (HIP4 h) data port) [] = Some (ip4_bytes h 31 @ [TSMPTypePong] @ data @ PutUint16_be port)"
proof -
  have "ip4_Marshal h (replicate 20 0 @ replicate 11 0) = Some (None, ip4_bytes h 31 @ replicate 11 0)"
    using assms by (subst ip4_Marshal_bytes) simp_all
  with assms have "pong_Marshal 20 (ip4_Marshal h) data port (replicate 20 0 @ replicate 11 0)
      = Some (None, ip4_bytes h 31 @ [TSMPTypePong] @ data @ PutUint16_be port)"
    by (intro pong_body) simp_all
  then show ?thesis by (simp add: Generate_def replicate_add [symmetric])
qed

lemma Generate_pong6:
  assumes "length data = 8"
  shows "Generate (HPong (HIP6 h) data port) [] = Some (ip6_bytes h 51 @ [TSMPTypePong] @ data @ PutUint16_be port)"
proof -
  have "ip6_Marshal h (replicate 40 0 @ replicate 11 0) = Some (None, ip6_bytes h 51 @ replicate 11 0)"
    by (subst ip6_Marshal_bytes) simp_all
  with assms have "pong_Marshal 40 (ip6_Marshal h) data port (replicate 40 0 @ replicate 11 0)
      = Some (None, ip6_bytes h 51 @ [TSMPTypePong] @ data @ PutUint16_be port)"
    by (intro pong_body) simp_all
  then show ?thesis by (simp add: Generate_def replicate_add [symmetric])
qed

lemma AsTSMPPong_body:
  assumes "tsmp_reads q src dst ([TSMPTypePong] @ data @ PutUint16_be port)" "length data = 8"
  shows "AsTSMPPong q = Some (Some (data, port))"
  using assms by (simp add: AsTSMPPong_def tsmp_reads_def)

text \<open>A pong reply survives the wire: sent in a TSMP packet over IPv4, or over IPv6 without zones, its eight
  data bytes and the peer API port are what \<open>AsTSMPPong\<close> reads from the decoded packet.\<close>

lemma pong_roundtrip:
  assumes "length data = 8"
    and "(\<exists>h. ip = HIP4 h \<and> Is4 (h4_Src h) \<and> Is4 (h4_Dst h) \<and> h4_IPProto h = TSMP)
       \<or> (\<exists>h. ip = HIP6 h \<and> plain6 (h6_Src h) \<and> plain6 (h6_Dst h) \<and> h6_IPProto h = TSMP)"
  shows "\<exists>b q'. Generate (HPong ip data port) [] = Some b \<and> Decode b q = Some q' \<and> AsTSMPPong q' = Some (Some (data, port))"
  using assms(2)
proof (elim disjE exE conjE)
  fix h assume h: "ip = HIP4 h" "Is4 (h4_Src h)" "Is4 (h4_Dst h)" "h4_IPProto h = TSMP"
  with tsmp_decode4 [of h "[TSMPTypePong] @ data @ PutUint16_be port" q] Generate_pong4 [OF h(2,3) assms(1)] assms(1)
  show ?thesis by (fastforce intro: AsTSMPPong_body)
next
  fix h assume h: "ip = HIP6 h" "plain6 (h6_Src h)" "plain6 (h6_Dst h)" "h6_IPProto h = TSMP"
  with tsmp_decode6 [of h "[TSMPTypePong] @ data @ PutUint16_be port" q] Generate_pong6 [OF assms(1)] assms(1)
  show ?thesis by (fastforce intro: AsTSMPPong_body)
qed

lemma Generate_ip4:
  assumes "Is4 (h4_Src h)" "Is4 (h4_Dst h)" "20 + length payload \<le> 65535"
  shows "Generate (HIP4 h) payload = Some (ip4_bytes h (20 + length payload) @ payload)"
  using assms by (simp add: Generate_def ip4_Marshal_bytes)

lemma Generate_ip6:
  assumes "40 + length payload \<le> 65535"
  shows "Generate (HIP6 h) payload = Some (ip6_bytes h (40 + length payload) @ payload)"
  using assms by (simp add: Generate_def ip6_Marshal_bytes)

lemma AsTSMPDisco_body:
  assumes "tsmp_reads q (da_Src ka) (da_Dst ka) (TSMPTypeDiscoAdvertisement # da_Key ka)" "length (da_Key ka) = 32"
  shows "AsTSMPDiscoAdvertisement q = Some (Some ka)"
  using assms by (cases ka) (simp add: AsTSMPDiscoAdvertisement_def tsmp_reads_def)

text \<open>A disco key advertisement survives the wire: \<open>AsTSMPDiscoAdvertisement\<close> recovers the addresses and the
  32-byte key from the decoded packet.\<close>

lemma disco_adv_roundtrip:
  assumes "length (da_Key ka) = 32" and "family_ok (da_Src ka) (da_Dst ka)"
  shows "\<exists>b q'. disco_adv_Marshal ka = Some (Inr b) \<and> Decode b q = Some q' \<and> AsTSMPDiscoAdvertisement q' = Some (Some ka)"
proof -
  let ?body = "TSMPTypeDiscoAdvertisement # da_Key ka"
  consider (v4) "Is4 (da_Src ka)" "Is4 (da_Dst ka)" | (v6) "plain6 (da_Src ka)" "plain6 (da_Dst ka)"
    using assms(2) by (auto simp: family_ok_def)
  then show ?thesis
  proof cases
    case v4
    let ?h = "\<lparr> h4_IPProto = TSMP, h4_IPID = 0, h4_Src = da_Src ka, h4_Dst = da_Dst ka \<rparr>"
    have "disco_adv_Marshal ka = Some (Inr (ip4_bytes ?h (20 + length ?body) @ ?body))"
      using v4 assms(1) Generate_ip4 [of ?h ?body] by (simp add: disco_adv_Marshal_def)
    with tsmp_decode4 [of ?h ?body q] v4 assms(1) AsTSMPDisco_body show ?thesis by fastforce
  next
    case v6
    let ?h = "\<lparr> h6_IPProto = TSMP, h6_IPID = 0, h6_Src = da_Src ka, h6_Dst = da_Dst ka \<rparr>"
    have "disco_adv_Marshal ka = Some (Inr (ip6_bytes ?h (40 + length ?body) @ ?body))"
      using v6 assms(1) Generate_ip6 [of ?body ?h] by (simp add: disco_adv_Marshal_def)
    with tsmp_decode6 [of ?h ?body q] v6 assms(1) AsTSMPDisco_body show ?thesis by fastforce
  qed
qed

end
