(* ===== verification/Crypto.thy ===== *)
theory Crypto
  imports Prelude
begin

text \<open>Port passwords: \<open>wgengine/netstack/crypto.go\<close>.

  ChaCha20 and SHA-256 are third-party code: the cipher is the parameter \<open>cipher_ops\<close> (making a cipher from a
  key and a nonce, and xoring data with its key stream), the digest a function from bytes to bytes, and
  \<open>cipher_ok\<close> states what their documentation promises.  A connection is read through the chunks in which
  its bytes arrive, so that every way a stream can be cut is covered; random bytes are an argument, \<open>None\<close>
  when the source fails.\<close>

unbundle bit_operations_syntax

abbreviation Chacha20NonceLen :: nat where "Chacha20NonceLen \<equiv> 12"

datatype io_error = EOF | UnexpectedEOF | RandFailed | WriteFailed | CipherFailed | UDPPacketTooShort

record 'c cipher_ops =
  NewUnauthenticatedCipher :: "byte list \<Rightarrow> byte list \<Rightarrow> 'c option"
  XORKeyStream :: "'c \<Rightarrow> byte list \<Rightarrow> byte list \<times> 'c"

text \<open>A 32-byte key with a 12-byte nonce gives a cipher; xoring keeps the length, can be done piecewise, and
  undoes itself from the same state; no data leaves the state alone.\<close>

definition cipher_ok :: "'c cipher_ops \<Rightarrow> bool" where
  "cipher_ok ops \<longleftrightarrow>
     (\<forall>key nonce. length key = 32 \<longrightarrow> length nonce = 12 \<longrightarrow> NewUnauthenticatedCipher ops key nonce \<noteq> None)
   \<and> (\<forall>c a. length (fst (XORKeyStream ops c a)) = length a)
   \<and> (\<forall>c a b. XORKeyStream ops c (a @ b) =
        (let (x, c1) = XORKeyStream ops c a; (y, c2) = XORKeyStream ops c1 b in (x @ y, c2)))
   \<and> (\<forall>c a. XORKeyStream ops c (fst (XORKeyStream ops c a)) = (a, snd (XORKeyStream ops c a)))
   \<and> (\<forall>c. XORKeyStream ops c [] = ([], c))"

definition DeriveKey :: "(byte list \<Rightarrow> byte list) \<Rightarrow> string \<Rightarrow> byte list" where
  "DeriveKey Sum256 password = Sum256 (map of_char password)"


section \<open>Connections\<close>

text \<open>\<open>Read\<close> with a buffer of \<open>m\<close> bytes, from the chunks still to come.\<close>

fun conn_Read :: "byte list list \<Rightarrow> nat \<Rightarrow> (byte list \<times> io_error option) \<times> byte list list" where
  "conn_Read [] m = (([], Some EOF), [])"
| "conn_Read (c # cs) m = ((take m c, None), if length c \<le> m then cs else drop m c # cs)"

text \<open>\<open>io.ReadFull\<close> of \<open>n\<close> bytes, \<open>got\<close> being read already.\<close>

fun ReadFull :: "byte list list \<Rightarrow> nat \<Rightarrow> byte list \<Rightarrow> (io_error + byte list) \<times> byte list list" where
  "ReadFull [] n got =
     (if n \<le> length got then Inr got else Inl (if got = [] then EOF else UnexpectedEOF), [])"
| "ReadFull (c # cs) n got =
     (if n \<le> length got then (Inr got, c # cs)
      else if length c \<le> n - length got then ReadFull cs n (got @ c)
      else (Inr (got @ take (n - length got) c), drop (n - length got) c # cs))"

text \<open>The writing side of a connection: what was sent, and whether it is broken.\<close>

record wconn =
  sent :: "byte list"
  broken :: bool

definition conn_Write :: "wconn \<Rightarrow> byte list \<Rightarrow> (nat \<times> io_error option) \<times> wconn" where
  "conn_Write w p = (if broken w then ((0, Some WriteFailed), w) else ((length p, None), w \<lparr> sent := sent w @ p \<rparr>))"


section \<open>Streams\<close>

record 'c chacha_reader =
  cr_r :: "byte list list"
  cr_cipher :: 'c

definition NewChacha20Reader ::
  "'c cipher_ops \<Rightarrow> byte list list \<Rightarrow> byte list \<Rightarrow> (io_error + 'c chacha_reader) \<times> byte list list" where
  "NewChacha20Reader ops r key =
     (case ReadFull r Chacha20NonceLen [] of
        (Inl e, r') \<Rightarrow> (Inl e, r')
      | (Inr nonce, r') \<Rightarrow> (case NewUnauthenticatedCipher ops key nonce of
            None \<Rightarrow> (Inl CipherFailed, r')
          | Some c \<Rightarrow> (Inr \<lparr> cr_r = r', cr_cipher = c \<rparr>, r')))"

definition Chacha20Reader_Read ::
  "'c cipher_ops \<Rightarrow> 'c chacha_reader \<Rightarrow> nat \<Rightarrow> (byte list \<times> io_error option) \<times> 'c chacha_reader" where
  "Chacha20Reader_Read ops r m =
     (case conn_Read (cr_r r) m of ((p, err), r') \<Rightarrow>
        if 0 < length p then
          (case XORKeyStream ops (cr_cipher r) p of (p', c') \<Rightarrow> ((p', err), \<lparr> cr_r = r', cr_cipher = c' \<rparr>))
        else ((p, err), r \<lparr> cr_r := r' \<rparr>))"

record 'c chacha_writer =
  cw_w :: wconn
  cw_cipher :: 'c

definition NewChacha20Writer ::
  "'c cipher_ops \<Rightarrow> byte list option \<Rightarrow> wconn \<Rightarrow> byte list \<Rightarrow> (io_error + 'c chacha_writer) \<times> wconn" where
  "NewChacha20Writer ops rnd w key =
     (case rnd of
        None \<Rightarrow> (Inl RandFailed, w)
      | Some nonce \<Rightarrow> (case conn_Write w nonce of
            ((_, Some e), w') \<Rightarrow> (Inl e, w')
          | ((_, None), w') \<Rightarrow> (case NewUnauthenticatedCipher ops key nonce of
                None \<Rightarrow> (Inl CipherFailed, w')
              | Some c \<Rightarrow> (Inr \<lparr> cw_w = w', cw_cipher = c \<rparr>, w'))))"

definition Chacha20Writer_Write ::
  "'c cipher_ops \<Rightarrow> 'c chacha_writer \<Rightarrow> byte list \<Rightarrow> (nat \<times> io_error option) \<times> 'c chacha_writer" where
  "Chacha20Writer_Write ops w p =
     (case XORKeyStream ops (cw_cipher w) p of (encrypted, c') \<Rightarrow>
        case conn_Write (cw_w w) encrypted of (res, w') \<Rightarrow> (res, \<lparr> cw_w = w', cw_cipher = c' \<rparr>))"

text \<open>\<open>newEncryptedTCPConn\<close> reads the peer's nonce before it sends its own; the client side of a tunnel
  (\<open>handleConn\<close>) sends first.\<close>

record 'c encrypted_conn =
  encWriter :: "'c chacha_writer"
  decReader :: "'c chacha_reader"

definition newEncryptedTCPConn ::
  "(byte list \<Rightarrow> byte list) \<Rightarrow> 'c cipher_ops \<Rightarrow> byte list option \<Rightarrow> byte list list \<Rightarrow> wconn \<Rightarrow> string
     \<Rightarrow> io_error + 'c encrypted_conn" where
  "newEncryptedTCPConn Sum256 ops rnd r w password =
     (let key = DeriveKey Sum256 password in
      case fst (NewChacha20Reader ops r key) of
        Inl e \<Rightarrow> Inl e
      | Inr dec \<Rightarrow> (case fst (NewChacha20Writer ops rnd w key) of
            Inl e \<Rightarrow> Inl e
          | Inr enc \<Rightarrow> Inr \<lparr> encWriter = enc, decReader = dec \<rparr>))"


section \<open>Datagrams\<close>

definition EncryptUDPPacket :: "'c cipher_ops \<Rightarrow> byte list option \<Rightarrow> byte list \<Rightarrow> byte list \<Rightarrow> io_error + byte list" where
  "EncryptUDPPacket ops rnd plaintext key =
     (case rnd of
        None \<Rightarrow> Inl RandFailed
      | Some nonce \<Rightarrow> (case NewUnauthenticatedCipher ops key nonce of
            None \<Rightarrow> Inl CipherFailed
          | Some c \<Rightarrow> Inr (nonce @ fst (XORKeyStream ops c plaintext))))"

definition DecryptUDPPacket :: "'c cipher_ops \<Rightarrow> byte list \<Rightarrow> byte list \<Rightarrow> io_error + byte list" where
  "DecryptUDPPacket ops packet key =
     (if length packet < Chacha20NonceLen then Inl UDPPacketTooShort
      else case NewUnauthenticatedCipher ops key (take Chacha20NonceLen packet) of
          None \<Rightarrow> Inl CipherFailed
        | Some c \<Rightarrow> Inr (fst (XORKeyStream ops c (drop Chacha20NonceLen packet))))"

text \<open>\<open>ReadFrom\<close> with a buffer of \<open>m\<close> bytes: the datagram the connection delivers is cut to the buffer,
  decrypted, and copied back; the result is the data the caller sees, or the error.\<close>

definition encrypted_ReadFrom :: "'c cipher_ops \<Rightarrow> byte list \<Rightarrow> nat \<Rightarrow> io_error + byte list \<Rightarrow> io_error + byte list" where
  "encrypted_ReadFrom ops key m datagram =
     (case datagram of
        Inl e \<Rightarrow> Inl e
      | Inr d \<Rightarrow> (case DecryptUDPPacket ops (take m d) key of
            Inl e \<Rightarrow> Inl e
          | Inr dec \<Rightarrow> Inr (take m dec)))"

text \<open>\<open>WriteTo\<close> hands the encrypted datagram to the connection, whose result is returned.\<close>

definition encrypted_WriteTo ::
  "'c cipher_ops \<Rightarrow> byte list option \<Rightarrow> byte list \<Rightarrow> (byte list \<Rightarrow> nat \<times> io_error option) \<Rightarrow> byte list \<Rightarrow> nat \<times> io_error option" where
  "encrypted_WriteTo ops rnd key WriteTo b =
     (case EncryptUDPPacket ops rnd b key of Inl e \<Rightarrow> (0, Some e) | Inr enc \<Rightarrow> WriteTo enc)"


section \<open>The cipher's laws\<close>

lemma cipher_okD:
  assumes "cipher_ok ops"
  shows "length key = 32 \<Longrightarrow> length nonce = 12 \<Longrightarrow> \<exists>c. NewUnauthenticatedCipher ops key nonce = Some c"
    and "length (fst (XORKeyStream ops c a)) = length a"
    and "XORKeyStream ops c (a @ b) = (let (x, c1) = XORKeyStream ops c a; (y, c2) = XORKeyStream ops c1 b in (x @ y, c2))"
    and "XORKeyStream ops c (fst (XORKeyStream ops c a)) = (a, snd (XORKeyStream ops c a))"
    and "XORKeyStream ops c [] = ([], c)"
  using assms by (auto simp: cipher_ok_def)

lemma xor_append:
  assumes "cipher_ok ops"
  shows "fst (XORKeyStream ops c (a @ b)) = fst (XORKeyStream ops c a) @ fst (XORKeyStream ops (snd (XORKeyStream ops c a)) b)"
    and "snd (XORKeyStream ops c (a @ b)) = snd (XORKeyStream ops (snd (XORKeyStream ops c a)) b)"
  by (simp_all add: cipher_okD(3) [OF assms] case_prod_unfold Let_def)

lemma xor_Nil: "cipher_ok ops \<Longrightarrow> fst (XORKeyStream ops c []) = []"
  using cipher_okD(2) [of ops c "[]"] by simp

text \<open>A prefix of the ciphertext decrypts to the prefix of the plaintext.\<close>

lemma xor_prefix:
  assumes "cipher_ok ops" "fst (XORKeyStream ops c pt) = x @ y"
  shows "fst (XORKeyStream ops c x) = take (length x) pt"
proof -
  have "fst (XORKeyStream ops c (x @ y)) = pt" using cipher_okD(4) [OF assms(1), of c pt] assms(2) by simp
  then have "pt = fst (XORKeyStream ops c x) @ fst (XORKeyStream ops (snd (XORKeyStream ops c x)) y)"
    by (simp add: xor_append [OF assms(1)])
  then show ?thesis by (metis append_eq_conv_conj cipher_okD(2) [OF assms(1)])
qed


section \<open>Runs of a stream\<close>

text \<open>Writing a list of buffers, and reading with a list of buffer sizes: the data read and the reader left.\<close>

fun write_all :: "'c cipher_ops \<Rightarrow> 'c chacha_writer \<Rightarrow> byte list list \<Rightarrow> 'c chacha_writer" where
  "write_all ops w [] = w"
| "write_all ops w (p # ps) = write_all ops (snd (Chacha20Writer_Write ops w p)) ps"

fun read_all :: "'c cipher_ops \<Rightarrow> 'c chacha_reader \<Rightarrow> nat list \<Rightarrow> byte list \<times> 'c chacha_reader" where
  "read_all ops r [] = ([], r)"
| "read_all ops r (m # ms) =
     (case Chacha20Reader_Read ops r m of ((p, _), r') \<Rightarrow>
        case read_all ops r' ms of (ps, r'') \<Rightarrow> (p @ ps, r''))"

lemma conn_Read_concat:
  assumes "conn_Read cs m = ((p, err), cs')"
  shows "concat cs = p @ concat cs'"
  using assms by (cases cs) (auto split: if_splits)

lemma ReadFull_enough:
  assumes "n \<le> length got + length (concat cs)" "length got \<le> n"
  shows "\<exists>cs'. ReadFull cs n got = (Inr (take n (got @ concat cs)), cs') \<and> concat cs' = drop (n - length got) (concat cs)"
  using assms
proof (induction cs n got rule: ReadFull.induct)
  case (2 c cs n got)
  then show ?case by (cases "n \<le> length got"; cases "length c \<le> n - length got") auto
qed auto

lemma write_all_sent:
  assumes "cipher_ok ops" "\<not> broken (cw_w w)"
  shows "sent (cw_w (write_all ops w ps)) = sent (cw_w w) @ fst (XORKeyStream ops (cw_cipher w) (concat ps))
    \<and> \<not> broken (cw_w (write_all ops w ps))"
  using assms(2)
proof (induction ps arbitrary: w)
  case (Cons p ps)
  let ?w = "snd (Chacha20Writer_Write ops w p)"
  have "cw_w ?w = (cw_w w) \<lparr> sent := sent (cw_w w) @ fst (XORKeyStream ops (cw_cipher w) p) \<rparr>"
    "cw_cipher ?w = snd (XORKeyStream ops (cw_cipher w) p)"
    using Cons.prems by (simp_all add: Chacha20Writer_Write_def conn_Write_def case_prod_unfold)
  with Cons.IH [of ?w] Cons.prems show ?case by (simp add: xor_append [OF assms(1)])
qed (simp add: xor_Nil [OF assms(1)])

text \<open>The reader after the ciphertext \<open>x\<close>, with the rest still to come.\<close>

lemma read_all_inv:
  assumes ok: "cipher_ok ops"
    and "fst (XORKeyStream ops c pt) = x @ concat (cr_r r)" "cr_cipher r = snd (XORKeyStream ops c x)"
    and "read_all ops r ms = (out, r')"
  shows "\<exists>y. fst (XORKeyStream ops c pt) = x @ y @ concat (cr_r r') \<and> fst (XORKeyStream ops c (x @ y)) = fst (XORKeyStream ops c x) @ out
    \<and> cr_cipher r' = snd (XORKeyStream ops c (x @ y))"
  using assms(2-)
proof (induction ms arbitrary: r x out)
  case (Cons m ms)
  obtain p err cs' where rd: "conn_Read (cr_r r) m = ((p, err), cs')" by (metis surj_pair)
  have cat: "concat (cr_r r) = p @ concat cs'" by (rule conn_Read_concat [OF rd])
  let ?r1 = "\<lparr> cr_r = cs', cr_cipher = snd (XORKeyStream ops c (x @ p)) \<rparr>" and ?p = "fst (XORKeyStream ops (cr_cipher r) p)"
  have "Chacha20Reader_Read ops r m = ((?p, err), ?r1)"
    using rd Cons.prems(2) by (cases p) (auto simp: Chacha20Reader_Read_def case_prod_unfold xor_append [OF ok] xor_Nil [OF ok])
  then obtain out2 where o: "read_all ops ?r1 ms = (out2, r')" "out = ?p @ out2"
    using Cons.prems(3) by (auto split: prod.splits)
  from Cons.IH [OF _ _ o(1), of "x @ p"] Cons.prems(1) cat obtain y where
    "fst (XORKeyStream ops c pt) = (x @ p) @ y @ concat (cr_r r')"
    "fst (XORKeyStream ops c ((x @ p) @ y)) = fst (XORKeyStream ops c (x @ p)) @ out2"
    "cr_cipher r' = snd (XORKeyStream ops c ((x @ p) @ y))" by auto
  then show ?case using o(2) Cons.prems(2) by (intro exI [of _ "p @ y"]) (simp add: xor_append [OF ok])
qed auto

text \<open>A run from a fresh reader.\<close>

lemma read_all_run:
  assumes ok: "cipher_ok ops" and E: "fst (XORKeyStream ops c pt) = concat (cr_r r)" and c: "cr_cipher r = c"
    and ra: "read_all ops r ms = (out, r')"
  shows "\<exists>y. fst (XORKeyStream ops c pt) = y @ concat (cr_r r') \<and> fst (XORKeyStream ops c y) = out"
  using read_all_inv [OF ok, of c pt "[]" r ms out r'] assms cipher_okD(5) [OF ok, of c] by auto

text \<open>Reads with non-empty buffers use up the chunks.\<close>

lemma conn_Read_less:
  assumes "0 < m" "conn_Read cs m = ((p, err), cs')"
  shows "length (concat cs') + length cs' \<le> length (concat cs) + length cs - 1"
  using assms by (cases cs) (auto split: if_splits)

lemma read_all_drains:
  assumes "list_all (\<lambda>m. 0 < m) ms" "length (concat (cr_r r)) + length (cr_r r) \<le> length ms"
    and "read_all ops r ms = (out, r')"
  shows "cr_r r' = []"
  using assms
proof (induction ms arbitrary: r out)
  case (Cons m ms)
  obtain p err cs' where rd: "conn_Read (cr_r r) m = ((p, err), cs')" by (metis surj_pair)
  obtain q r1 where r1: "Chacha20Reader_Read ops r m = (q, r1)" by (metis surj_pair)
  with rd have "cr_r r1 = cs'" by (auto simp: Chacha20Reader_Read_def case_prod_unfold split: if_splits)
  with conn_Read_less [OF _ rd] Cons.prems(1,2) have "length (concat (cr_r r1)) + length (cr_r r1) \<le> length ms" by simp
  moreover obtain out2 where "read_all ops r1 ms = (out2, r')" using Cons.prems(3) r1 by (auto split: prod.splits)
  ultimately show ?case using Cons.IH Cons.prems(1) by simp
qed auto


text \<open>A reader whose cipher stands where the writer's stood returns what was written.\<close>

definition delivers :: "'c cipher_ops \<Rightarrow> 'c chacha_reader \<Rightarrow> byte list \<Rightarrow> bool" where
  "delivers ops r pt \<longleftrightarrow> (\<forall>ms. (\<exists>rest. pt = fst (read_all ops r ms) @ rest)
     \<and> (list_all (\<lambda>m. 0 < m) ms \<and> length (concat (cr_r r)) + length (cr_r r) \<le> length ms \<longrightarrow> fst (read_all ops r ms) = pt))"

lemma stream_delivers:
  assumes ok: "cipher_ok ops" and E: "concat (cr_r r) = fst (XORKeyStream ops (cr_cipher r) pt)"
  shows "delivers ops r pt"
proof -
  let ?c = "cr_cipher r" and ?E = "fst (XORKeyStream ops (cr_cipher r) pt)"
  have run: "\<exists>rest. pt = fst (read_all ops r ms) @ rest \<and> length rest = length (concat (cr_r (snd (read_all ops r ms))))" for ms
  proof -
    obtain out r' where ra: "read_all ops r ms = (out, r')" by (metis surj_pair)
    obtain y where y: "?E = y @ concat (cr_r r')" "fst (XORKeyStream ops ?c y) = out"
      using read_all_run [OF ok E [symmetric] refl ra] by auto
    then have "out = take (length y) pt" using xor_prefix [OF ok y(1)] by simp
    moreover have "length ?E = length pt" by (rule cipher_okD(2) [OF ok])
    ultimately show ?thesis using ra y(1) by (intro exI [of _ "drop (length y) pt"]) simp
  qed
  have "fst (read_all ops r ms) = pt"
    if "list_all (\<lambda>m. 0 < m) ms" "length (concat (cr_r r)) + length (cr_r r) \<le> length ms" for ms
  proof -
    obtain rest where "pt = fst (read_all ops r ms) @ rest" "length rest = length (concat (cr_r (snd (read_all ops r ms))))"
      using run by blast
    moreover have "cr_r (snd (read_all ops r ms)) = []" using read_all_drains [OF that, of ops] by (metis surjective_pairing)
    ultimately show ?thesis by simp
  qed
  with run show ?thesis unfolding delivers_def by blast
qed

text \<open>The two ends of a stream under one key.\<close>

lemma stream_opens:
  assumes "cipher_ok ops" and "length key = 32" and "length nonce = 12"
    and "NewChacha20Writer ops (Some nonce) \<lparr> sent = [], broken = False \<rparr> key = (Inr w, w0)"
    and "concat chunks = sent (cw_w (write_all ops w ps))"
  shows "\<exists>r. fst (NewChacha20Reader ops chunks key) = Inr r \<and> delivers ops r (concat ps)"
proof -
  obtain c where c: "NewUnauthenticatedCipher ops key nonce = Some c" using cipher_okD(1) [OF assms(1-3)] by blast
  let ?E = "fst (XORKeyStream ops c (concat ps))"
  have "cw_w w = \<lparr> sent = nonce, broken = False \<rparr>" "cw_cipher w = c"
    using assms(4) c by (auto simp: NewChacha20Writer_def conn_Write_def)
  with write_all_sent [OF assms(1), of w ps] assms(5) have wire: "concat chunks = nonce @ ?E" by simp
  obtain r0 where full: "ReadFull chunks 12 [] = (Inr nonce, r0)" "concat r0 = ?E"
    using ReadFull_enough [of 12 "[]" chunks] wire assms(3) by auto
  then have "fst (NewChacha20Reader ops chunks key) = Inr \<lparr> cr_r = r0, cr_cipher = c \<rparr>"
    using c by (simp add: NewChacha20Reader_def)
  moreover have "delivers ops \<lparr> cr_r = r0, cr_cipher = c \<rparr> (concat ps)" using full(2) by (intro stream_delivers [OF assms(1)]) simp
  ultimately show ?thesis by blast
qed


section \<open>Properties\<close>

text \<open>C23: An encrypted stream is transparent: whatever is written through \<open>NewChacha20Writer\<close>, in whatever
  pieces, and however the connection cuts the bytes on their way, \<open>NewChacha20Reader\<close> with the same key opens,
  every run of reads returns a prefix of what was written, and enough reads with non-empty buffers return
  all of it.\<close>

theorem encrypted_stream_transparent:
  assumes "cipher_ok ops" and "length key = 32" and "length nonce = 12"
    and "NewChacha20Writer ops (Some nonce) \<lparr> sent = [], broken = False \<rparr> key = (Inr w, w0)"
    and "concat chunks = sent (cw_w (write_all ops w ps))"
  shows "\<exists>r. fst (NewChacha20Reader ops chunks key) = Inr r
    \<and> (\<forall>ms. (\<exists>rest. concat ps = fst (read_all ops r ms) @ rest)
       \<and> (list_all (\<lambda>m. 0 < m) ms \<and> length (concat (cr_r r)) + length (cr_r r) \<le> length ms
            \<longrightarrow> fst (read_all ops r ms) = concat ps))"
  using stream_opens [OF assms] unfolding delivers_def by blast

text \<open>A concrete cipher for the witnesses: one byte made from key and nonce, xored with everything.\<close>

definition demo_cipher :: "byte cipher_ops" where
  "demo_cipher = \<lparr> NewUnauthenticatedCipher = (\<lambda>key nonce.
       if length key = 32 \<and> length nonce = 12 then Some (hd key XOR hd nonce) else None),
     XORKeyStream = (\<lambda>c a. (map (\<lambda>x. x XOR c) a, c)) \<rparr>"

lemma demo_cipher_ok: "cipher_ok demo_cipher"
  by (simp add: cipher_ok_def demo_cipher_def xor.assoc comp_def)

theorem encrypted_stream_transparent_witness:
  "\<exists>r. fst (NewChacha20Reader demo_cipher [replicate 5 2, replicate 7 2 @ [3], [2]] (replicate 32 7)) = Inr r
     \<and> fst (read_all demo_cipher r [1, 1, 1, 1]) = [6, 7]"
proof -
  let ?w = "\<lparr> cw_w = \<lparr> sent = replicate 12 2, broken = False \<rparr>, cw_cipher = 5 \<rparr>"
  have "NewChacha20Writer demo_cipher (Some (replicate 12 2)) \<lparr> sent = [], broken = False \<rparr> (replicate 32 7)
      = (Inr ?w, \<lparr> sent = replicate 12 2, broken = False \<rparr>)" by code_simp
  moreover have "concat [replicate 5 2, replicate 7 2 @ [3], [2]] = sent (cw_w (write_all demo_cipher ?w [[6], [7]]))" by code_simp
  ultimately obtain r where r: "fst (NewChacha20Reader demo_cipher [replicate 5 2, replicate 7 2 @ [3], [2]] (replicate 32 7)) = Inr r"
    and full: "\<And>ms. list_all (\<lambda>m. 0 < m) ms \<Longrightarrow> length (concat (cr_r r)) + length (cr_r r) \<le> length ms
        \<Longrightarrow> fst (read_all demo_cipher r ms) = [6, 7]"
    using encrypted_stream_transparent [OF demo_cipher_ok, of "replicate 32 7" "replicate 12 2" ?w _ _ "[[6], [7]]"] by force
  have "fst (NewChacha20Reader demo_cipher [replicate 5 2, replicate 7 2 @ [3], [2]] (replicate 32 7))
      = Inr \<lparr> cr_r = [[3], [2]], cr_cipher = 5 \<rparr>" by code_simp
  with r have r': "r = \<lparr> cr_r = [[3], [2]], cr_cipher = 5 \<rparr>" by simp
  have "fst (read_all demo_cipher r [1, 1, 1, 1]) = [6, 7]" by (rule full) (simp_all add: r')
  with r show ?thesis by blast
qed

text \<open>C24: A datagram survives encryption: what \<open>EncryptUDPPacket\<close> makes of a datagram, under a fresh nonce, is
  twelve bytes longer and \<open>DecryptUDPPacket\<close> with the same key gives the datagram back; a reader whose buffer
  holds the encrypted datagram receives it whole.  Every packet of at least twelve bytes is accepted and every
  shorter one refused, whatever the password: the encryption does not authenticate.\<close>

theorem udp_encryption_roundtrip:
  assumes "cipher_ok ops" and "length key = 32" and "length nonce = 12"
  shows "\<exists>enc. EncryptUDPPacket ops (Some nonce) pt key = Inr enc \<and> length enc = length pt + 12
      \<and> DecryptUDPPacket ops enc key = Inr pt
      \<and> (length enc \<le> m \<longrightarrow> encrypted_ReadFrom ops key m (Inr enc) = Inr pt)
      \<and> (\<forall>packet. (\<exists>d. DecryptUDPPacket ops packet key = Inr d) \<longleftrightarrow> 12 \<le> length packet)"
proof -
  obtain c where c: "NewUnauthenticatedCipher ops key nonce = Some c" using cipher_okD(1) [OF assms] by blast
  let ?enc = "nonce @ fst (XORKeyStream ops c pt)"
  have e: "EncryptUDPPacket ops (Some nonce) pt key = Inr ?enc" using c by (simp add: EncryptUDPPacket_def)
  have l: "length ?enc = length pt + 12" using assms(3) by (simp add: cipher_okD(2) [OF assms(1)])
  have d: "DecryptUDPPacket ops ?enc key = Inr pt"
    using c assms(3) cipher_okD(4) [OF assms(1), of c pt] by (simp add: DecryptUDPPacket_def)
  have "\<exists>c. NewUnauthenticatedCipher ops key (take 12 packet) = Some c" if "12 \<le> length packet" for packet
    using cipher_okD(1) [OF assms(1,2), of "take 12 packet"] that by simp
  then have acc: "(\<exists>d. DecryptUDPPacket ops packet key = Inr d) \<longleftrightarrow> 12 \<le> length packet" for packet
    by (cases "12 \<le> length packet") (fastforce simp: DecryptUDPPacket_def)+
  show ?thesis using e l d acc by (intro exI [of _ ?enc]) (auto simp: encrypted_ReadFrom_def)
qed

theorem udp_encryption_roundtrip_witness:
  "\<exists>enc. EncryptUDPPacket demo_cipher (Some (replicate 12 2)) [6, 7] (replicate 32 7) = Inr enc
     \<and> DecryptUDPPacket demo_cipher enc (replicate 32 7) = Inr [6, 7]"
  using udp_encryption_roundtrip [OF demo_cipher_ok, of "replicate 32 7" "replicate 12 2" "[6, 7]" 0] by auto

end
