(* ===== verification/Proxymap.thy ===== *)
theory Proxymap
  imports Netip
begin

text \<open>The table of local ports that stand for remote nodes: \<open>proxymap/proxymap.go\<close>.\<close>

type_synonym mapping_key = "string \<times> addrport"
type_synonym mapper = "(mapping_key \<times> addr) list"

text \<open>The error of a registration carries the address already there.\<close>

definition RegisterIPPortIdentity :: "string \<Rightarrow> addrport \<Rightarrow> addr \<Rightarrow> mapper \<Rightarrow> addr + mapper" where
  "RegisterIPPortIdentity proto ipport tsIP m =
     (case map_of m (proto, ipport) of Some v \<Rightarrow> Inl v | None \<Rightarrow> Inr (AList.update (proto, ipport) tsIP m))"

definition UnregisterIPPortIdentity :: "string \<Rightarrow> addrport \<Rightarrow> mapper \<Rightarrow> mapper" where
  "UnregisterIPPortIdentity proto ipport m = AList.delete (proto, ipport) m"

text \<open>\<open>WhoIsIPPort\<close> looks at the table five times, with growing pauses; \<open>ms\<close> are the tables it sees.\<close>

definition whoIsSleeps :: "nat list" where "whoIsSleeps = [0, 10, 20, 50, 100]"

fun who_is :: "nat list \<Rightarrow> mapper list \<Rightarrow> mapping_key \<Rightarrow> addr option" where
  "who_is (d # ds) (m # ms) k = (case map_of m k of Some tsIP \<Rightarrow> Some tsIP | None \<Rightarrow> who_is ds ms k)"
| "who_is _ _ k = None"

definition WhoIsIPPort :: "string \<Rightarrow> addrport \<Rightarrow> mapper list \<Rightarrow> addr option" where
  "WhoIsIPPort proto ipport ms = who_is whoIsSleeps ms (proto, ipport)"


section \<open>Lemmas\<close>

lemma Register_lookup:
  assumes "RegisterIPPortIdentity proto ap ip m = Inr m'"
  shows "map_of m (proto, ap) = None" "map_of m' = (map_of m) ((proto, ap) \<mapsto> ip)"
  using assms by (auto simp: RegisterIPPortIdentity_def update_conv' split: option.splits)

lemma Register_fails_iff: "(\<exists>v. RegisterIPPortIdentity proto ap ip m = Inl v) \<longleftrightarrow> has_key m (proto, ap)"
  by (auto simp: RegisterIPPortIdentity_def split: option.splits)

lemma Unregister_lookup: "map_of (UnregisterIPPortIdentity proto ap m) = (map_of m) ((proto, ap) := None)"
  by (simp add: UnregisterIPPortIdentity_def delete_conv')

text \<open>Unregistering undoes a registration.\<close>

lemma Unregister_Register:
  assumes "RegisterIPPortIdentity proto ap ip m = Inr m'"
  shows "map_of (UnregisterIPPortIdentity proto ap m') = map_of m"
  using Register_lookup [OF assms] by (auto simp: Unregister_lookup)

text \<open>A registration that is there at one of the first five looks, and the same whenever it is there, is found.\<close>

lemma who_is_found:
  assumes "i < length ms" "i < length ds" "map_of (ms ! i) k = Some ip"
    and "\<And>j ip'. j < i \<Longrightarrow> map_of (ms ! j) k = Some ip' \<Longrightarrow> ip' = ip"
  shows "who_is ds ms k = Some ip"
  using assms
proof (induction ds ms k arbitrary: i rule: who_is.induct)
  case (1 d ds m ms k)
  show ?case
  proof (cases "map_of m k")
    case None
    with 1(4) obtain j where j: "i = Suc j" by (cases i) auto
    have "ip' = ip" if "l < j" "map_of (ms ! l) k = Some ip'" for l ip'
      using 1(5) [of "Suc l" ip'] that j by simp
    then have "who_is ds ms k = Some ip" using 1(2-4) j by (intro 1(1) [OF None, of j]) auto
    with None show ?thesis by simp
  next
    case (Some ip')
    have "ip' = ip"
    proof (cases i)
      case 0
      with Some 1(4) show ?thesis by simp
    next
      case (Suc j)
      with 1(5) [of 0 ip'] Some show ?thesis by simp
    qed
    with Some show ?thesis by simp
  qed
qed auto

lemma WhoIs_none:
  assumes "\<And>m. m \<in> set ms \<Longrightarrow> map_of m (proto, ap) = None"
  shows "WhoIsIPPort proto ap ms = None"
proof -
  have "who_is ds ms k = None" if "\<And>m. m \<in> set ms \<Longrightarrow> map_of m k = None" for ds ms and k :: mapping_key
    using that by (induction ds ms k rule: who_is.induct) auto
  with assms show ?thesis by (simp add: WhoIsIPPort_def)
qed

end
