(* ===== verification/Netstack.thy ===== *)
theory Netstack
  imports PacketFilter Tsmp Crypto Proxymap
begin

text \<open>The user-space network stack: \<open>wgengine/netstack/netstack.go\<close>.

  gVisor is third-party code.  What the program tells it is modelled as values: address registrations as
  \<open>stack_op\<close>, the fate of a TCP request as \<open>tcp_action\<close>, that of a UDP flow as \<open>udp_action\<close>; what it answers
  (endpoints, dialled connections, bound sockets, the addresses it holds) comes in as arguments.  A gVisor
  address is its bytes.  Logging is left out.\<close>

type_synonym tcpip_address = "byte list"

datatype stack_op = AddProtocolAddress addr | RemoveAddress addr

record impl =
  ProcessLocalIPs :: bool
  ProcessSubnets :: bool
  ns_lb :: bool
  AllowedIPsForPort :: "(u16 \<times> prefix list) list option"
  PasswordForPort :: "(u16 \<times> string) list option"
  ServeTargets :: "(u16 \<times> addrport) list"
  ns_DropICMP :: bool
  StealthDrop :: bool
  ns_ready :: bool
  ns_closed :: bool
  atomicIsLocalIPFunc :: "addr \<Rightarrow> bool"
  connsOpenBySubnetIP :: "(addr \<times> int) list"

abbreviation serviceIP :: addr where "serviceIP \<equiv> TailscaleServiceIP"
abbreviation serviceIPv6 :: addr where "serviceIPv6 \<equiv> TailscaleServiceIPv6"
abbreviation viaRange :: prefix where "viaRange \<equiv> TailscaleViaRange"

definition ipv4Loopback :: addr where "ipv4Loopback = AddrV4 0x7f000001"
definition ipv6Loopback :: addr where "ipv6Loopback = AddrV6 1 []"

lemma loopback_texts: "ParseAddr ''127.0.0.1'' = Some ipv4Loopback" "ParseAddr ''::1'' = Some ipv6Loopback"
  by code_simp+

definition maxInFlightConnectionAttempts :: "int \<Rightarrow> bool \<Rightarrow> string \<Rightarrow> int" where
  "maxInFlightConnectionAttempts forTest mobile os =
     (if 0 < forTest then forTest else if mobile then 1024 else if os = ''linux'' then 8192 else 2048)"

definition isLocalIP :: "impl \<Rightarrow> addr \<Rightarrow> bool" where
  "isLocalIP ns ip = atomicIsLocalIPFunc ns ip"


text \<open>\<open>Create\<close> starts with every option off and no local address; \<open>Start\<close> panics (\<open>None\<close>) when called twice.\<close>

definition Create :: impl where
  "Create = \<lparr> ProcessLocalIPs = False, ProcessSubnets = False, ns_lb = False, AllowedIPsForPort = None,
     PasswordForPort = None, ServeTargets = [], ns_DropICMP = False, StealthDrop = False, ns_ready = False,
     ns_closed = False, atomicIsLocalIPFunc = emptySet, connsOpenBySubnetIP = [] \<rparr>"

definition Start :: "impl \<Rightarrow> bool \<Rightarrow> impl option" where
  "Start ns hasBackend =
     (if ns_ready ns then None
      else Some (ns \<lparr> ns_lb := (if hasBackend then True else ns_lb ns), ns_ready := True \<rparr>))"

definition Close :: "impl \<Rightarrow> impl" where
  "Close ns = ns \<lparr> ns_closed := True \<rparr>"


section \<open>Subnet addresses\<close>

text \<open>A missing key of the count map reads as zero.\<close>

definition conns :: "impl \<Rightarrow> addr \<Rightarrow> int" where
  "conns ns ip = (case map_of (connsOpenBySubnetIP ns) ip of Some n \<Rightarrow> n | None \<Rightarrow> 0)"

definition addSubnetAddress :: "impl \<Rightarrow> addr \<Rightarrow> impl \<times> stack_op list" where
  "addSubnetAddress ns ip =
     (let ns' = ns \<lparr> connsOpenBySubnetIP := AList.update ip (conns ns ip + 1) (connsOpenBySubnetIP ns) \<rparr> in
      (ns', if conns ns' ip = 1 then [AddProtocolAddress ip] else []))"

definition removeSubnetAddress :: "impl \<Rightarrow> addr \<Rightarrow> impl \<times> stack_op list" where
  "removeSubnetAddress ns ip =
     (let ns' = ns \<lparr> connsOpenBySubnetIP := AList.update ip (conns ns ip - 1) (connsOpenBySubnetIP ns) \<rparr> in
      if conns ns' ip = 0
      then (ns' \<lparr> connsOpenBySubnetIP := AList.delete ip (connsOpenBySubnetIP ns') \<rparr>, [RemoveAddress ip])
      else (ns', []))"

text \<open>The wrappers around gVisor's handlers register the local address of a request that is not the node's
  own; the flag says whether the request goes on to the handler.\<close>

definition wrapUDPProtocolHandler :: "impl \<Rightarrow> tcpip_address \<Rightarrow> bool \<times> impl \<times> stack_op list" where
  "wrapUDPProtocolHandler ns local =
     (case AddrFromSlice local of
        None \<Rightarrow> (False, ns, [])
      | Some ip \<Rightarrow> let ip = Unmap ip in
          if \<not> isLocalIP ns ip then (True, addSubnetAddress ns ip) else (True, ns, []))"

definition wrapTCPProtocolHandler :: "impl \<Rightarrow> tcpip_address \<Rightarrow> bool \<times> impl \<times> stack_op list" where
  "wrapTCPProtocolHandler ns local =
     (case AddrFromSlice local of
        None \<Rightarrow> (False, ns, [])
      | Some ip \<Rightarrow> let localIP = Unmap ip in
          if \<not> isLocalIP ns localIP then (True, addSubnetAddress ns localIP) else (True, ns, []))"

definition netaddrIPFromNetstackIP :: "tcpip_address \<Rightarrow> addr" where
  "netaddrIPFromNetstackIP s =
     (if length s = 4 then AddrFrom4 s else if length s = 16 then Unmap (AddrFrom16 s) else AddrZero)"

definition ipPortOfNetstackAddr :: "tcpip_address \<Rightarrow> u16 \<Rightarrow> addrport option" where
  "ipPortOfNetstackAddr a port = (case AddrFromSlice a of Some ip \<Rightarrow> Some (AddrPort ip port) | None \<Rightarrow> None)"

text \<open>\<open>UpdateNetstackIPs\<close> reads a network map, or none, whose self node may be invalid (\<open>None\<close>), and the
  prefixes gVisor holds.  The maps of the source are lists without duplicates.  The result is the
  addresses removed from the stack, then the prefixes added to it.\<close>

record self_node =
  Addresses :: "prefix list"
  AllowedIPs :: "prefix list"

type_synonym network_map = "self_node option"

definition GetAddresses :: "network_map \<Rightarrow> prefix list" where
  "GetAddresses nm = (case nm of None \<Rightarrow> [] | Some n \<Rightarrow> Addresses n)"

definition v4broadcast :: addr where "v4broadcast = IPv4 255 255 255 255"

definition old_prefixes :: "(tcpip_address \<times> int) list \<Rightarrow> prefix list" where
  "old_prefixes all = remdups (concat (map (\<lambda>(a, n). let ip = netaddrIPFromNetstackIP a in
     if ip = v4broadcast \<and> n = 32 then [] else [PrefixFrom ip n]) all))"

definition new_prefixes :: "impl \<Rightarrow> network_map option \<Rightarrow> prefix list" where
  "new_prefixes ns nm = (case nm of Some (Some selfNode) \<Rightarrow>
       remdups (Addresses selfNode @ (if ProcessSubnets ns then AllowedIPs selfNode else []))
     | _ \<Rightarrow> [])"

definition UpdateNetstackIPs ::
  "'t bart_ops \<Rightarrow> impl \<Rightarrow> network_map option \<Rightarrow> (tcpip_address \<times> int) list \<Rightarrow> impl \<times> addr list \<times> prefix list" where
  "UpdateNetstackIPs bt ns nm all =
     (let ns' = ns \<lparr> atomicIsLocalIPFunc :=
            (case nm of Some m \<Rightarrow> NewContainsIPFunc bt (GetAddresses m) | None \<Rightarrow> emptySet) \<rparr>;
          oldPfx = old_prefixes all;
          newPfx = new_prefixes ns nm;
          pfxToAdd = filter (\<lambda>p. p \<notin> set oldPfx) newPfx;
          held = map (\<lambda>(ip, _). PrefixFrom ip (int (BitLen ip))) (connsOpenBySubnetIP ns);
          pfxToRemove = filter (\<lambda>p. p \<notin> set newPfx \<and> p \<notin> set held) oldPfx in
      (ns', map pfx_Addr pfxToRemove, filter pfx_IsValid pfxToAdd))"


section \<open>Packets to and from the stack\<close>

definition handleLocalPackets :: "impl \<Rightarrow> parsed \<Rightarrow> response \<times> bool" where
  "handleLocalPackets ns p =
     (if \<not> ns_ready ns \<or> ns_closed ns then (DropSilently, False)
      else let dst = ap_Addr (Dst p) in
        if dst = serviceIP \<or> dst = serviceIPv6 then (DropSilently, True) else (Accept, False))"

datatype net_header = NetIPv4 "byte list" "byte list" | NetIPv6 "byte list" "byte list" | NetOther

fun shouldSendToHost :: "net_header \<Rightarrow> bool" where
  "shouldSendToHost (NetIPv4 src dst) = (serviceIP = AddrFrom4 src)"
| "shouldSendToHost (NetIPv6 src dst) = (AddrFrom16 src = serviceIPv6)"
| "shouldSendToHost NetOther = False"

fun isSelfDst :: "impl \<Rightarrow> net_header \<Rightarrow> bool" where
  "isSelfDst ns (NetIPv4 src dst) = isLocalIP ns (AddrFrom4 dst)"
| "isSelfDst ns (NetIPv6 src dst) = isLocalIP ns (AddrFrom16 dst)"
| "isSelfDst ns NetOther = False"

text \<open>Where the \<open>inject\<close> loop sends a packet gVisor made.\<close>

datatype route = ToHost | Loopback | ToWireGuard

definition inject_route :: "impl \<Rightarrow> net_header \<Rightarrow> route" where
  "inject_route ns pkt =
     (if shouldSendToHost pkt then ToHost else if isSelfDst ns pkt then Loopback else ToWireGuard)"

text \<open>The loop over what the link endpoint returns, \<open>None\<close> for an empty read while the stack is open; the flag
  says whether the injection succeeds.  A failed injection ends the loop.\<close>

fun inject :: "impl \<Rightarrow> (net_header \<times> bool) option list \<Rightarrow> (route \<times> net_header) list" where
  "inject ns [] = []"
| "inject ns (None # pkts) = inject ns pkts"
| "inject ns (Some (pkt, ok) # pkts) =
     (case inject_route ns pkt of
        Loopback \<Rightarrow> (Loopback, pkt) # inject ns pkts
      | rt \<Rightarrow> if ok then (rt, pkt) # inject ns pkts else [])"

definition shouldProcessInbound :: "(u16 \<Rightarrow> bool) \<Rightarrow> impl \<Rightarrow> parsed \<Rightarrow> bool" where
  "shouldProcessInbound ShouldInterceptTCPPort ns p =
     (let isLocal = isLocalIP ns (ap_Addr (Dst p)) in
      if ns_lb ns \<and> IPProto p = TCP \<and> isLocal \<and> ShouldInterceptTCPPort (ap_Port (Dst p)) then True
      else if ProcessLocalIPs ns \<and> isLocal then True
      else if ProcessSubnets ns \<and> \<not> isLocal then True
      else False)"

definition shouldHandlePing :: "impl \<Rightarrow> parsed \<Rightarrow> addr option" where
  "shouldHandlePing ns p =
     (if \<not> IsEchoRequest p then None
      else let destIP = ap_Addr (Dst p) in
        if pfx_Contains viaRange destIP then Some (UnmapVia destIP)
        else if \<not> ProcessSubnets ns then None
        else if IsTailscaleIP destIP then None
        else Some destIP)"

text \<open>What \<open>injectInbound\<close> does beside its verdict: nothing, a user-level ping with the reply to inject when
  it succeeds, or delivery to gVisor.  The outer \<open>None\<close> is a panic of a header accessor.\<close>

datatype inbound_action = NoAction | UserPing addr "byte list" | Deliver

definition pong_packet :: "parsed \<Rightarrow> byte list option" where
  "pong_packet p =
     (let destIP = ap_Addr (Dst p) in
      if Is4 destIP then do {
        h \<leftarrow> parsed_ICMP4Header p;
        payload \<leftarrow> Payload p;
        Generate (HICMP4 (icmp4_ToResponse h)) payload }
      else if Is6 destIP then do {
        h \<leftarrow> parsed_ICMP6Header p;
        payload \<leftarrow> Payload p;
        Generate (HICMP6 (icmp6_ToResponse h)) payload }
      else Some [])"

definition injectInbound :: "(u16 \<Rightarrow> bool) \<Rightarrow> impl \<Rightarrow> parsed \<Rightarrow> (response \<times> inbound_action) option" where
  "injectInbound ShouldInterceptTCPPort ns p =
     (if \<not> ns_ready ns \<or> ns_closed ns then Some (DropSilently, NoAction)
      else if \<not> shouldProcessInbound ShouldInterceptTCPPort ns p then Some (Accept, NoAction)
      else if ns_DropICMP ns \<and> IsEchoRequest p then Some (DropSilently, NoAction)
      else case shouldHandlePing ns p of
          Some pingIP \<Rightarrow> do { pong \<leftarrow> pong_packet p; Some (DropSilently, UserPing pingIP pong) }
        | None \<Rightarrow> Some (DropSilently, Deliver))"

text \<open>\<open>userPing\<close> sends the reply when a slot is free and the ping succeeds.\<close>

definition userPing :: "bool \<Rightarrow> bool \<Rightarrow> byte list \<Rightarrow> byte list option" where
  "userPing slotFree pingOk pingResPkt = (if \<not> slotFree then None else if \<not> pingOk then None else Some pingResPkt)"


section \<open>TCP\<close>

record tcp_request =
  RemoteAddress :: tcpip_address
  RemotePort :: u16
  LocalAddress :: tcpip_address
  LocalPort :: u16

text \<open>What surrounds a request: the local backend's handler table, whether gVisor creates the endpoint, the
  cipher, the random bytes and the two directions of the connection, and the local address of a dialled
  backend (\<open>None\<close> when the dial fails).

  The fate of a request: a reset, silence (the request is never completed), a handler of the local backend
  on a plain or an encrypted connection, a failed encryption handshake, or forwarding.\<close>

datatype ('h, 'c) tcp_action = TcpReset | TcpIgnored | TcpServed 'h
  | TcpServedEncrypted 'h "'c encrypted_conn" | TcpEncryptFailed | TcpForwarded addrport bool

record ('h, 'c) tcp_env =
  env_TCPHandlerForDst :: "addrport \<Rightarrow> addrport \<Rightarrow> 'h option"
  CreateEndpoint :: bool
  env_Sum256 :: "byte list \<Rightarrow> byte list"
  env_cipher :: "'c cipher_ops"
  env_rand :: "byte list option"
  conn_in :: "byte list list"
  conn_out :: wconn
  DialTCP :: "addrport \<Rightarrow> addrport option"

text \<open>The source filter of a port: no filter configured, or some prefix contains the address.\<close>

definition source_allowed :: "impl \<Rightarrow> u16 \<Rightarrow> addr \<Rightarrow> bool" where
  "source_allowed ns port srcIP =
     (case AllowedIPsForPort ns of None \<Rightarrow> True
      | Some m \<Rightarrow> (case map_of m port of None \<Rightarrow> True
          | Some allowed \<Rightarrow> list_ex (\<lambda>pfx. pfx_Contains pfx srcIP) allowed))"

definition port_password :: "impl \<Rightarrow> u16 \<Rightarrow> string option" where
  "port_password ns port = (case PasswordForPort ns of None \<Rightarrow> None | Some m \<Rightarrow> map_of m port)"

text \<open>\<open>forwardTCP\<close>: whether it handled the request, whether bytes are copied, and the proxy map while they
  are; at its end the registration is taken back.\<close>

definition forwardTCP ::
  "('h, 'c) tcp_env \<Rightarrow> mapper \<Rightarrow> addr \<Rightarrow> addrport \<Rightarrow> bool \<Rightarrow> bool \<times> bool \<times> mapper" where
  "forwardTCP env pm clientRemoteIP dialAddr isLocal =
     (case DialTCP env dialAddr of
        None \<Rightarrow> (False, False, pm)
      | Some backendLocal \<Rightarrow> let backendLocalIPPort = ap_Unmap backendLocal in
          if isLocal then
            (case RegisterIPPortIdentity ''tcp'' backendLocalIPPort clientRemoteIP pm of
               Inl _ \<Rightarrow> (False, False, pm)
             | Inr pm' \<Rightarrow> (True, CreateEndpoint env, pm'))
          else (True, CreateEndpoint env, pm))"

text \<open>\<open>acceptTCP\<close> without its deferred step.\<close>

definition accept_action ::
  "('h, 'c) tcp_env \<Rightarrow> impl \<Rightarrow> mapper \<Rightarrow> tcp_request \<Rightarrow> addr \<Rightarrow> addr \<Rightarrow> bool \<Rightarrow> ('h, 'c) tcp_action" where
  "accept_action env ns pm r clientRemoteIP dialIP isTailscaleIP =
     (let dialIP0 = netaddrIPFromNetstackIP (LocalAddress r);
          isLocal = isLocalIP ns dialIP0;
          clientRemoteAddrPort = AddrPort clientRemoteIP (RemotePort r);
          dstAddrPort = AddrPort dialIP0 (LocalPort r);
          hittingServiceIP = (dialIP = serviceIP \<or> dialIP = serviceIPv6);
          handler = (if ns_lb ns then env_TCPHandlerForDst env clientRemoteAddrPort dstAddrPort else None) in
      if hittingServiceIP \<and> LocalPort r = 53 then TcpIgnored
      else if ns_lb ns \<and> \<not> source_allowed ns (LocalPort r) clientRemoteIP then TcpIgnored
      else case handler of
          Some h \<Rightarrow>
            (if \<not> CreateEndpoint env then TcpReset
             else case port_password ns (LocalPort r) of
                 Some password \<Rightarrow> (case newEncryptedTCPConn (env_Sum256 env) (env_cipher env) (env_rand env)
                     (conn_in env) (conn_out env) password of
                     Inl _ \<Rightarrow> TcpEncryptFailed
                   | Inr encConn \<Rightarrow> TcpServedEncrypted h encConn)
               | None \<Rightarrow> TcpServed h)
        | None \<Rightarrow>
            (if hittingServiceIP \<or> isTailscaleIP then (if StealthDrop ns then TcpIgnored else TcpReset)
             else let dialAddr = AddrPort dialIP (LocalPort r) in
               case forwardTCP env pm clientRemoteIP dialAddr isLocal of
                 (handled, copied, _) \<Rightarrow> if handled \<and> copied then TcpForwarded dialAddr isLocal else TcpReset))"

definition acceptTCP ::
  "('h, 'c) tcp_env \<Rightarrow> impl \<Rightarrow> mapper \<Rightarrow> tcp_request \<Rightarrow> ('h, 'c) tcp_action \<times> impl \<times> stack_op list" where
  "acceptTCP env ns pm r =
     (let clientRemoteIP = netaddrIPFromNetstackIP (RemoteAddress r) in
      if \<not> addr_IsValid clientRemoteIP then (TcpReset, ns, [])
      else
        let dialIP0 = netaddrIPFromNetstackIP (LocalAddress r);
            via = pfx_Contains viaRange dialIP0;
            isTailscaleIP = (if via then False else IsTailscaleIP dialIP0);
            dialIP = (if via then UnmapVia dialIP0 else dialIP0);
            act = accept_action env ns pm r clientRemoteIP dialIP isTailscaleIP in
        (act, if \<not> isTailscaleIP then removeSubnetAddress ns dialIP else (ns, [])))"


section \<open>UDP\<close>

text \<open>A UDP flow: where the backend socket is bound and sends to, whether it stands for the node itself, the
  password of the client side, and the idle timeout in seconds.\<close>

record udp_flow =
  backendRemoteAddr :: addrport
  backendListenAddr :: addrport
  backendLocalIPPort :: addrport
  uf_isLocal :: bool
  uf_password :: "string option"
  idleTimeout :: nat

datatype udp_action = UdpDropped | UdpNoSocket | UdpNotRegistered | UdpForwarding udp_flow

text \<open>The backend addresses of a flow and whether it is local.\<close>

definition udp_backend :: "impl \<Rightarrow> addrport \<Rightarrow> addrport \<Rightarrow> addrport \<times> addrport \<times> bool" where
  "udp_backend ns clientAddr dstAddr =
     (let port = ap_Port dstAddr; srcPort = ap_Port clientAddr; dst = ap_Addr dstAddr in
      case map_of (ServeTargets ns) port of
        Some tgt \<Rightarrow> (tgt, AddrPort ipv4Loopback srcPort, True)
      | None \<Rightarrow>
          if isLocalIP ns dst then (AddrPort ipv4Loopback port, AddrPort ipv4Loopback srcPort, True)
          else if dst = ipv4Loopback \<or> dst = ipv6Loopback then
            let ip = (if dst = ipv6Loopback then ipv6Loopback else ipv4Loopback) in
            (AddrPort ip port, AddrPort ip srcPort, False)
          else
            let dst' = (if pfx_Contains viaRange dst then UnmapVia dst else dst) in
            (AddrPort dst' port, AddrPort (if Is4 dst' then AddrV4 0 else AddrV6 0 []) srcPort, False))"

text \<open>\<open>ListenUDP\<close> returns the zone and port of the bound socket; it is tried again with port 0.\<close>

definition udp_bind :: "(addrport \<Rightarrow> (string \<times> u16) option) \<Rightarrow> addrport \<Rightarrow> (addrport \<times> string \<times> u16) option" where
  "udp_bind ListenUDP a =
     (case ListenUDP a of
        Some zp \<Rightarrow> Some (a, zp)
      | None \<Rightarrow> let a0 = AddrPort (ap_Addr a) 0 in map_option (\<lambda>zp. (a0, zp)) (ListenUDP a0))"

definition forwardUDP ::
  "(addrport \<Rightarrow> (string \<times> u16) option) \<Rightarrow> impl \<Rightarrow> mapper \<Rightarrow> addrport \<Rightarrow> addrport \<Rightarrow> udp_action \<times> mapper" where
  "forwardUDP ListenUDP ns pm clientAddr dstAddr =
     (let port = ap_Port dstAddr in
      if \<not> source_allowed ns port (ap_Addr clientAddr) then (UdpDropped, pm)
      else case udp_backend ns clientAddr dstAddr of (remote, listen, isLocal) \<Rightarrow>
        case udp_bind ListenUDP listen of
          None \<Rightarrow> (UdpNoSocket, pm)
        | Some (bound, zone, localPort) \<Rightarrow>
            let localIPPort = AddrPort (WithZone (Unmap (ap_Addr bound)) zone) localPort;
                flow = \<lparr> backendRemoteAddr = remote, backendListenAddr = bound, backendLocalIPPort = localIPPort,
                         uf_isLocal = isLocal, uf_password = port_password ns port,
                         idleTimeout = (if port = 53 then 30 else 120) \<rparr> in
            if isLocal then
              (case RegisterIPPortIdentity ''udp'' localIPPort (ap_Addr clientAddr) pm of
                 Inl _ \<Rightarrow> (UdpNotRegistered, pm)
               | Inr pm' \<Rightarrow> (UdpForwarding flow, pm'))
            else (UdpForwarding flow, pm))"

text \<open>The end of a flow: the idle timer takes the registration back, and the forwarder of a local flow
  gives up the destination's subnet count.\<close>

definition udp_timeout :: "udp_flow \<Rightarrow> mapper \<Rightarrow> mapper" where
  "udp_timeout f pm = (if uf_isLocal f then UnregisterIPPortIdentity ''udp'' (backendLocalIPPort f) pm else pm)"

definition udp_done :: "impl \<Rightarrow> udp_flow \<Rightarrow> addrport \<Rightarrow> impl \<times> stack_op list" where
  "udp_done ns f dstAddr = (if uf_isLocal f then removeSubnetAddress ns (ap_Addr dstAddr) else (ns, []))"

definition acceptUDP ::
  "(addrport \<Rightarrow> (string \<times> u16) option) \<Rightarrow> bool \<Rightarrow> impl \<Rightarrow> mapper \<Rightarrow> tcp_request \<Rightarrow> udp_action \<times> mapper" where
  "acceptUDP ListenUDP endpointOk ns pm sess =
     (if \<not> endpointOk then (UdpDropped, pm)
      else case (ipPortOfNetstackAddr (LocalAddress sess) (LocalPort sess),
                 ipPortOfNetstackAddr (RemoteAddress sess) (RemotePort sess)) of
          (Some dstAddr, Some srcAddr) \<Rightarrow>
            if ap_Addr dstAddr = serviceIP \<or> ap_Addr dstAddr = serviceIPv6 then (UdpDropped, pm)
            else forwardUDP ListenUDP ns pm srcAddr dstAddr
        | _ \<Rightarrow> (UdpDropped, pm))"

text \<open>\<open>startPacketCopy\<close>: what the reads made before the context is done write to the other side, up to the
  first read or write that fails; the number is how often the idle timer is extended.\<close>

fun packet_copy :: "(io_error + byte list) list \<Rightarrow> (byte list \<Rightarrow> bool) \<Rightarrow> byte list list \<times> nat" where
  "packet_copy [] writeOk = ([], 0)"
| "packet_copy (Inl e # reads) writeOk = ([], 0)"
| "packet_copy (Inr pkt # reads) writeOk =
     (if writeOk pkt then (case packet_copy reads writeOk of (out, n) \<Rightarrow> (pkt # out, n + 1)) else ([], 0))"


section \<open>Reading the output of ping\<close>

fun addr_String :: "addr \<Rightarrow> string" where
  "addr_String AddrZero = ''invalid IP''"
| "addr_String (AddrV4 w) = show_v4 w"
| "addr_String (AddrV6 w z) =
     (if Is4In6 (AddrV6 w z) then ''::ffff:'' @ show_v4 (ucast w) else show_v6 w) @ (if z = [] then [] else CHR ''%'' # z)"

text \<open>\<open>bytes.Cut\<close>: the text before and after the first occurrence of the separator.\<close>

fun bytes_Cut :: "string \<Rightarrow> string \<Rightarrow> (string \<times> string) option" where
  "bytes_Cut [] sep = (if sep = [] then Some ([], []) else None)"
| "bytes_Cut (c # cs) sep =
     (if has_prefix (c # cs) sep then Some ([], drop (length sep) (c # cs))
      else map_option (\<lambda>(a, b). (c # a, b)) (bytes_Cut cs sep))"

fun eqSigns :: "string \<Rightarrow> nat \<Rightarrow> nat" where
  "eqSigns [] n = n"
| "eqSigns (b # bb) n = eqSigns bb (if b = CHR ''='' \<or> (b = CHR ''<'' \<and> n = 1) then n + 1 else n)"

lemma bytes_Cut_shorter: "bytes_Cut b [c] = Some (l, r) \<Longrightarrow> length r < length b"
  by (induction b arbitrary: l) (auto simp: has_prefix_def split: if_splits)

function windowsPingOutputIsSuccess :: "addr \<Rightarrow> string \<Rightarrow> bool" where
  "windowsPingOutputIsSuccess ip b =
     (if b = [] then False
      else
        let sub = '' '' @ addr_String ip @ '': '';
            (line, rest) = (case bytes_Cut b [CHR 0x0A] of Some lr \<Rightarrow> lr | None \<Rightarrow> (b, [])) in
        if (case bytes_Cut line sub of Some (_, after) \<Rightarrow> eqSigns after 0 = 3 | None \<Rightarrow> False) then True
        else windowsPingOutputIsSuccess ip rest)"
  by pat_completeness auto
termination
  by (relation "measure (\<lambda>(ip, b). length b)") (auto dest!: bytes_Cut_shorter split: option.splits)

end
