(* ===== verification/NetstackPolicy.thy ===== *)
theory NetstackPolicy
  imports Netstack
begin

text \<open>What the netstack hooks and forwarders promise: who reaches a served port, that a password means encryption,
  what a stealthy node answers, and the reply to a relayed ping.\<close>

section \<open>TCP\<close>

text \<open>The connections on which data flows.\<close>

fun carries_data :: "('h, 'c) tcp_action \<Rightarrow> bool" where
  "carries_data (TcpServed h) = True"
| "carries_data (TcpServedEncrypted h c) = True"
| "carries_data (TcpForwarded d l) = True"
| "carries_data _ = False"

abbreviation req_client :: "tcp_request \<Rightarrow> addr" where
  "req_client r \<equiv> netaddrIPFromNetstackIP (RemoteAddress r)"

abbreviation req_dst :: "tcp_request \<Rightarrow> addr" where
  "req_dst r \<equiv> netaddrIPFromNetstackIP (LocalAddress r)"

abbreviation req_dial :: "tcp_request \<Rightarrow> addr" where
  "req_dial r \<equiv> (if pfx_Contains viaRange (req_dst r) then UnmapVia (req_dst r) else req_dst r)"

abbreviation req_own :: "tcp_request \<Rightarrow> bool" where
  "req_own r \<equiv> \<not> pfx_Contains viaRange (req_dst r) \<and> IsTailscaleIP (req_dst r)"

abbreviation req_handler :: "('h, 'c) tcp_env \<Rightarrow> tcp_request \<Rightarrow> 'h option" where
  "req_handler env r \<equiv> env_TCPHandlerForDst env (AddrPort (req_client r) (RemotePort r)) (AddrPort (req_dst r) (LocalPort r))"

abbreviation req_encrypt :: "('h, 'c) tcp_env \<Rightarrow> string \<Rightarrow> io_error + 'c encrypted_conn" where
  "req_encrypt env \<equiv> newEncryptedTCPConn (env_Sum256 env) (env_cipher env) (env_rand env) (conn_in env) (conn_out env)"

lemma fst_acceptTCP:
  "fst (acceptTCP env ns pm r) =
     (if addr_IsValid (req_client r)
      then accept_action env ns pm r (req_client r) (req_dial r) (req_own r) else TcpReset)"
  by (simp add: acceptTCP_def Let_def)

text \<open>The dispatch with a handler and without.\<close>

definition to_service :: "addr \<Rightarrow> bool" where
  "to_service a \<longleftrightarrow> a = serviceIP \<or> a = serviceIPv6"

lemma accept_action_handled:
  assumes "ns_lb ns" "env_TCPHandlerForDst env (AddrPort cip (RemotePort r)) (AddrPort (req_dst r) (LocalPort r)) = Some h"
  shows "accept_action env ns pm r cip dial own =
     (if to_service dial \<and> LocalPort r = 53 \<or> \<not> source_allowed ns (LocalPort r) cip then TcpIgnored
      else if \<not> CreateEndpoint env then TcpReset
      else case port_password ns (LocalPort r) of None \<Rightarrow> TcpServed h
        | Some pw \<Rightarrow> (case req_encrypt env pw of Inl _ \<Rightarrow> TcpEncryptFailed | Inr c \<Rightarrow> TcpServedEncrypted h c))"
  unfolding accept_action_def Let_def to_service_def if_P [OF assms(1)] assms(2) option.case by (auto simp: assms(1))

lemma accept_action_unhandled:
  assumes "ns_lb ns" "env_TCPHandlerForDst env (AddrPort cip (RemotePort r)) (AddrPort (req_dst r) (LocalPort r)) = None"
  shows "accept_action env ns pm r cip dial own =
     (if to_service dial \<and> LocalPort r = 53 \<or> \<not> source_allowed ns (LocalPort r) cip then TcpIgnored
      else if to_service dial \<or> own then (if StealthDrop ns then TcpIgnored else TcpReset)
      else case forwardTCP env pm cip (AddrPort dial (LocalPort r)) (isLocalIP ns (req_dst r)) of
        (handled, copied, _) \<Rightarrow>
          if handled \<and> copied then TcpForwarded (AddrPort dial (LocalPort r)) (isLocalIP ns (req_dst r)) else TcpReset)"
  unfolding accept_action_def Let_def to_service_def if_P [OF assms(1)] assms(2) option.case by (auto simp: assms(1))

lemma accept_action_carries:
  assumes "ns_lb ns"
  shows "carries_data (accept_action env ns pm r cip dial own) \<Longrightarrow> source_allowed ns (LocalPort r) cip"
  using assms
  by (cases "env_TCPHandlerForDst env (AddrPort cip (RemotePort r)) (AddrPort (req_dst r) (LocalPort r))")
     (simp_all add: accept_action_handled accept_action_unhandled split: if_splits)

lemma accept_action_served:
  assumes "ns_lb ns" "accept_action env ns pm r cip dial own = TcpServed h"
  shows "env_TCPHandlerForDst env (AddrPort cip (RemotePort r)) (AddrPort (req_dst r) (LocalPort r)) = Some h
    \<and> port_password ns (LocalPort r) = None"
  using assms
  by (cases "env_TCPHandlerForDst env (AddrPort cip (RemotePort r)) (AddrPort (req_dst r) (LocalPort r))")
     (simp_all add: accept_action_handled accept_action_unhandled
        split: if_splits option.splits sum.splits prod.splits)

lemma accept_action_encrypted:
  assumes "ns_lb ns" "accept_action env ns pm r cip dial own = TcpServedEncrypted h c"
  shows "env_TCPHandlerForDst env (AddrPort cip (RemotePort r)) (AddrPort (req_dst r) (LocalPort r)) = Some h
    \<and> (\<exists>pw. port_password ns (LocalPort r) = Some pw \<and> req_encrypt env pw = Inr c)"
  using assms
  by (cases "env_TCPHandlerForDst env (AddrPort cip (RemotePort r)) (AddrPort (req_dst r) (LocalPort r))")
     (simp_all add: accept_action_handled accept_action_unhandled
        split: if_splits option.splits sum.splits prod.splits)

lemma accept_action_forwarded:
  assumes "ns_lb ns" "accept_action env ns pm r cip dial own = TcpForwarded d l"
  shows "env_TCPHandlerForDst env (AddrPort cip (RemotePort r)) (AddrPort (req_dst r) (LocalPort r)) = None
    \<and> d = AddrPort dial (LocalPort r) \<and> \<not> own \<and> \<not> to_service dial"
  using assms
  by (cases "env_TCPHandlerForDst env (AddrPort cip (RemotePort r)) (AddrPort (req_dst r) (LocalPort r))")
     (simp_all add: accept_action_handled accept_action_unhandled
        split: if_splits option.splits sum.splits prod.splits)

text \<open>C25: Who gets through \<open>acceptTCP\<close> on a node with a local backend: data flows only for a valid client that
  the port's source filter allows; a plain connection is served only on a port without a password, an encrypted
  one only with the port's password, both by the backend's own handler; a connection is forwarded only
  when the backend has no handler, to the dialled address (a 4via6 address unmapped) and its port, and
  never for a Tailscale address of the node or the service address.  Conversely an allowed client of a
  handled port is served once gVisor creates the endpoint, unless the encryption handshake fails; port 53 of
  the service address is excepted, which \<open>acceptTCP\<close> keeps for DNS before it asks the backend.\<close>

theorem acceptTCP_policy:
  assumes "ns_lb ns"
  shows "let act = fst (acceptTCP env ns pm r); client = req_client r; port = LocalPort r in
    (carries_data act \<longrightarrow> addr_IsValid client \<and> source_allowed ns port client)
    \<and> (\<forall>h. act = TcpServed h \<longrightarrow> req_handler env r = Some h \<and> port_password ns port = None)
    \<and> (\<forall>h c. act = TcpServedEncrypted h c \<longrightarrow>
          req_handler env r = Some h \<and> (\<exists>pw. port_password ns port = Some pw \<and> req_encrypt env pw = Inr c))
    \<and> (\<forall>d l. act = TcpForwarded d l \<longrightarrow>
          req_handler env r = None \<and> d = AddrPort (req_dial r) port \<and> \<not> req_own r \<and> \<not> to_service (req_dial r))
    \<and> (addr_IsValid client \<and> source_allowed ns port client \<and> CreateEndpoint env \<and> \<not> (port = 53 \<and> to_service (req_dial r)) \<longrightarrow>
        (\<forall>h. req_handler env r = Some h \<longrightarrow> act = (case port_password ns port of None \<Rightarrow> TcpServed h
            | Some pw \<Rightarrow> (case req_encrypt env pw of Inl _ \<Rightarrow> TcpEncryptFailed | Inr c \<Rightarrow> TcpServedEncrypted h c))))"
    (is "let act = ?act; client = ?c; port = ?p in ?A act client port \<and> ?B act port \<and> ?C act port \<and> ?D act port \<and> ?E act client port")
proof -
  have "?A ?act ?c ?p" using accept_action_carries [OF assms] by (auto simp: fst_acceptTCP)
  moreover have "?B ?act ?p" by (auto simp: fst_acceptTCP split: if_splits dest!: accept_action_served [OF assms])
  moreover have "?C ?act ?p" by (auto simp: fst_acceptTCP split: if_splits dest!: accept_action_encrypted [OF assms])
  moreover have "?D ?act ?p" by (auto simp: fst_acceptTCP split: if_splits dest!: accept_action_forwarded [OF assms])
  moreover have "?E ?act ?c ?p" by (auto simp: fst_acceptTCP accept_action_handled [OF assms])
  ultimately show ?thesis unfolding Let_def by blast
qed

text \<open>A node that serves port 80 to 100.64.0.0/10 under a password.\<close>

definition demo_ns :: impl where
  "demo_ns = Create \<lparr> ns_lb := True, ns_ready := True, ProcessLocalIPs := True, ProcessSubnets := True,
     AllowedIPsForPort := Some [(80, [Prefix (AddrV4 0x64400000) 10])], PasswordForPort := Some [(80, ''pw'')],
     ServeTargets := [(80, AddrPort ipv4Loopback 8080)], StealthDrop := True, ns_DropICMP := True,
     atomicIsLocalIPFunc := (\<lambda>ip. ip = AddrV4 0x64400001) \<rparr>"

definition demo_env :: "(nat, byte) tcp_env" where
  "demo_env = \<lparr> env_TCPHandlerForDst = (\<lambda>src dst. if ap_Port dst = 80 then Some 7 else None), CreateEndpoint = True,
     env_Sum256 = (\<lambda>b. replicate 32 5), env_cipher = demo_cipher, env_rand = Some (replicate 12 9),
     conn_in = [replicate 12 3], conn_out = \<lparr> sent = [], broken = False \<rparr>, DialTCP = (\<lambda>a. None) \<rparr>"

definition demo_req :: "byte list \<Rightarrow> byte list \<Rightarrow> u16 \<Rightarrow> tcp_request" where
  "demo_req src dst port = \<lparr> RemoteAddress = src, RemotePort = 4000, LocalAddress = dst, LocalPort = port \<rparr>"

theorem acceptTCP_policy_witness:
  "(case fst (acceptTCP demo_env demo_ns [] (demo_req [100, 64, 0, 9] [100, 64, 0, 1] 80)) of
      TcpServedEncrypted h c \<Rightarrow> h = 7 \<and> req_encrypt demo_env ''pw'' = Inr c | _ \<Rightarrow> False)
   \<and> \<not> carries_data (fst (acceptTCP demo_env demo_ns [] (demo_req [10, 0, 0, 9] [100, 64, 0, 1] 80)))"
proof -
  let ?r = "demo_req [100, 64, 0, 9] [100, 64, 0, 1] 80" and ?x = "demo_req [10, 0, 0, 9] [100, 64, 0, 1] 80"
  have t: "ns_lb demo_ns" by code_simp
  have c: "addr_IsValid (req_client ?r) \<and> source_allowed demo_ns (LocalPort ?r) (req_client ?r) \<and> CreateEndpoint demo_env
      \<and> \<not> (LocalPort ?r = 53 \<and> to_service (req_dial ?r))" by code_simp
  have h: "req_handler demo_env ?r = Some 7" "port_password demo_ns (LocalPort ?r) = Some ''pw''"
    "\<not> isl (req_encrypt demo_env ''pw'')" by code_simp+
  have "fst (acceptTCP demo_env demo_ns [] ?r)
      = (case req_encrypt demo_env ''pw'' of Inl _ \<Rightarrow> TcpEncryptFailed | Inr c \<Rightarrow> TcpServedEncrypted 7 c)"
    using acceptTCP_policy [OF t, of demo_env "[]" ?r, unfolded Let_def] c h(1)
    unfolding h(2) option.case by blast
  moreover have "\<not> source_allowed demo_ns (LocalPort ?x) (req_client ?x)" by code_simp
  then have "\<not> carries_data (fst (acceptTCP demo_env demo_ns [] ?x))"
    using acceptTCP_policy [OF t, of demo_env "[]" ?x, unfolded Let_def] by blast
  ultimately show ?thesis using h(3) by (auto split: sum.split)
qed


section \<open>UDP\<close>

text \<open>C26: A UDP flow is set up only for a client the port's source filter allows; it sends to the served
  target when the port has one, and its client side is encrypted exactly when the port has a password.  A
  local flow is attributed: while it lives, asking for the owner of its backend socket gives the client's
  address, and no other registration is touched; the idle timer takes exactly that registration back.
  Any other flow leaves the identity table alone.\<close>

theorem forwardUDP_policy:
  assumes "forwardUDP ListenUDP ns pm client dst = (UdpForwarding f, pm')"
  shows "source_allowed ns (ap_Port dst) (ap_Addr client)
    \<and> uf_password f = port_password ns (ap_Port dst)
    \<and> (case map_of (ServeTargets ns) (ap_Port dst) of
         Some tgt \<Rightarrow> backendRemoteAddr f = tgt \<and> uf_isLocal f
       | None \<Rightarrow> uf_isLocal f = isLocalIP ns (ap_Addr dst) \<and> ap_Port (backendRemoteAddr f) = ap_Port dst)
    \<and> (if uf_isLocal f
       then WhoIsIPPort ''udp'' (backendLocalIPPort f) (pm' # ms) = Some (ap_Addr client)
         \<and> map_of pm (''udp'', backendLocalIPPort f) = None
         \<and> map_of pm' = (map_of pm) ((''udp'', backendLocalIPPort f) \<mapsto> ap_Addr client)
         \<and> map_of (udp_timeout f pm') = map_of pm
       else pm' = pm \<and> udp_timeout f pm' = pm)"
proof -
  obtain remote listen isLocal where b: "udp_backend ns client dst = (remote, listen, isLocal)"
    by (metis surj_pair)
  have allowed: "source_allowed ns (ap_Port dst) (ap_Addr client)"
    using assms by (auto simp: forwardUDP_def Let_def split: if_splits)
  obtain bound zone lport where u: "udp_bind ListenUDP listen = Some (bound, zone, lport)"
    using assms b allowed by (auto simp: forwardUDP_def Let_def split: option.splits)
  have f: "uf_password f = port_password ns (ap_Port dst)" "uf_isLocal f = isLocal" "backendRemoteAddr f = remote"
    using assms b u allowed by (auto simp: forwardUDP_def Let_def split: if_splits sum.splits)
  have reg: "if isLocal then RegisterIPPortIdentity ''udp'' (backendLocalIPPort f) (ap_Addr client) pm = Inr pm' else pm' = pm"
    using assms b u allowed by (auto simp: forwardUDP_def Let_def split: if_splits sum.splits)
  have "case map_of (ServeTargets ns) (ap_Port dst) of Some tgt \<Rightarrow> remote = tgt \<and> isLocal
      | None \<Rightarrow> isLocal = isLocalIP ns (ap_Addr dst) \<and> ap_Port remote = ap_Port dst"
    using b by (auto simp: udp_backend_def Let_def split: option.splits if_splits)
  moreover have "if isLocal
     then WhoIsIPPort ''udp'' (backendLocalIPPort f) (pm' # ms) = Some (ap_Addr client)
       \<and> map_of pm (''udp'', backendLocalIPPort f) = None
       \<and> map_of pm' = (map_of pm) ((''udp'', backendLocalIPPort f) \<mapsto> ap_Addr client)
       \<and> map_of (udp_timeout f pm') = map_of pm
     else pm' = pm \<and> udp_timeout f pm' = pm"
    using reg Register_lookup [of "''udp''"] Unregister_Register [of "''udp''"]
    by (auto simp: udp_timeout_def f(2) WhoIsIPPort_def whoIsSleeps_def split: if_splits)
  ultimately show ?thesis using allowed unfolding f by blast
qed

theorem forwardUDP_policy_witness:
  "\<exists>f pm'. forwardUDP (\<lambda>a. Some ([], ap_Port a)) demo_ns [] (AddrPort (AddrV4 0x64400009) 4000) (AddrPort (AddrV4 0x64400001) 80)
       = (UdpForwarding f, pm')
     \<and> backendRemoteAddr f = AddrPort ipv4Loopback 8080 \<and> uf_password f = Some ''pw''
     \<and> WhoIsIPPort ''udp'' (backendLocalIPPort f) [pm'] = Some (AddrV4 0x64400009)"
proof -
  let ?c = "AddrPort (AddrV4 0x64400009) 4000" and ?d = "AddrPort (AddrV4 0x64400001) 80" and ?L = "\<lambda>a. Some ([], ap_Port a)"
  obtain f pm' where f: "forwardUDP ?L demo_ns [] ?c ?d = (UdpForwarding f, pm')"
  proof -
    have "case fst (forwardUDP ?L demo_ns [] ?c ?d) of UdpForwarding f \<Rightarrow> True | _ \<Rightarrow> False" by code_simp
    then show ?thesis using that by (cases "forwardUDP ?L demo_ns [] ?c ?d") (auto split: udp_action.splits)
  qed
  have "map_of (ServeTargets demo_ns) (ap_Port ?d) = Some (AddrPort ipv4Loopback 8080)"
    "port_password demo_ns (ap_Port ?d) = Some ''pw''" by code_simp+
  with forwardUDP_policy [OF f, of "[]"] f show ?thesis by auto
qed

text \<open>The TCP path refuses a port of the node that is not served; the UDP path forwards it to the loopback
  interface.\<close>

lemma udp_unserved_port_forwarded:
  assumes "AllowedIPsForPort ns = None" "map_of (ServeTargets ns) port = None" "isLocalIP ns ip"
    and "ListenUDP (AddrPort ipv4Loopback (ap_Port client)) = Some ([], lport)"
    and "map_of pm (''udp'', AddrPort ipv4Loopback lport) = None"
  shows "\<exists>f pm'. forwardUDP ListenUDP ns pm client (AddrPort ip port) = (UdpForwarding f, pm')
     \<and> backendRemoteAddr f = AddrPort ipv4Loopback port"
  using assms
  by (auto simp: forwardUDP_def source_allowed_def udp_backend_def udp_bind_def RegisterIPPortIdentity_def Let_def
      ipv4Loopback_def Unmap_def)


section \<open>Stealth\<close>

text \<open>C27: A stealthy node is silent: with ICMP dropping on, an echo request is neither answered nor handed to
  the stack (at most it is left to the host); with stealth dropping on, a TCP request of a valid client to an
  address of the node on a port without a handler gets no answer, and a client outside a port's source
  filter gets no answer either way.\<close>

theorem stealth_silent:
  assumes "ns_lb ns"
  shows "(ns_DropICMP ns \<and> IsEchoRequest p \<longrightarrow> injectInbound ict ns p \<in> {Some (Accept, NoAction), Some (DropSilently, NoAction)})
    \<and> (StealthDrop ns \<and> addr_IsValid (req_client r) \<and> (req_own r \<or> to_service (req_dial r)) \<and> req_handler env r = None \<longrightarrow>
        fst (acceptTCP env ns pm r) = TcpIgnored)
    \<and> (addr_IsValid (req_client r) \<and> \<not> source_allowed ns (LocalPort r) (req_client r) \<longrightarrow>
        fst (acceptTCP env ns pm r) = TcpIgnored)"
proof -
  have "ns_DropICMP ns \<and> IsEchoRequest p \<longrightarrow> injectInbound ict ns p \<in> {Some (Accept, NoAction), Some (DropSilently, NoAction)}"
    by (simp add: injectInbound_def)
  moreover have "StealthDrop ns \<and> addr_IsValid (req_client r) \<and> (req_own r \<or> to_service (req_dial r))
      \<and> req_handler env r = None \<longrightarrow> fst (acceptTCP env ns pm r) = TcpIgnored"
    by (auto simp: fst_acceptTCP accept_action_unhandled [OF assms])
  moreover have "addr_IsValid (req_client r) \<and> \<not> source_allowed ns (LocalPort r) (req_client r) \<longrightarrow>
      fst (acceptTCP env ns pm r) = TcpIgnored"
    by (cases "req_handler env r")
       (auto simp: fst_acceptTCP accept_action_unhandled [OF assms] accept_action_handled [OF assms])
  ultimately show ?thesis by blast
qed

theorem stealth_silent_witness:
  "fst (acceptTCP demo_env demo_ns [] (demo_req [100, 64, 0, 9] [100, 64, 0, 1] 81)) = TcpIgnored
   \<and> fst (acceptTCP demo_env demo_ns [] (demo_req [10, 0, 0, 9] [100, 64, 0, 1] 80)) = TcpIgnored"
proof -
  let ?r = "demo_req [100, 64, 0, 9] [100, 64, 0, 1] 81" and ?x = "demo_req [10, 0, 0, 9] [100, 64, 0, 1] 80"
  have t: "ns_lb demo_ns" by code_simp
  have "StealthDrop demo_ns \<and> addr_IsValid (req_client ?r) \<and> (req_own ?r \<or> to_service (req_dial ?r)) \<and> req_handler demo_env ?r = None"
    "addr_IsValid (req_client ?x) \<and> \<not> source_allowed demo_ns (LocalPort ?x) (req_client ?x)" by code_simp+
  with stealth_silent [OF t, of zero_parsed "\<lambda>_. False" ?r demo_env "[]"]
    stealth_silent [OF t, of zero_parsed "\<lambda>_. False" ?x demo_env "[]"] show ?thesis by blast
qed


section \<open>Relayed pings\<close>

lemma decode_icmp4_frame:
  assumes "Decode b q = Some p" "IPVersion p = 4" "IPProto p = ICMPv4"
  shows "p_b p = b" "20 \<le> length b" "p_length p < 65536" "dataofs p = subofs p + 4" "ap_Port (Src p) = 0" "ap_Port (Dst p) = 0"
    "ap_Addr (Src p) = AddrFrom4 (take 4 (drop 12 b))" "ap_Addr (Dst p) = AddrFrom4 (take 4 (drop 16 b))"
proof -
  have ne: "b \<noteq> []" using assms(1,2) by (auto simp: Decode_def Let_def)
  let ?q = "q \<lparr> p_b := b, CaptureMeta := zero_meta, IPVersion := drop_bit 4 (b ! 0) \<rparr>"
  have d: "Decode b q = (if IPVersion ?q = 4 then decode4 b ?q else if IPVersion ?q = 6 then decode6 b ?q
      else Some (?q \<lparr> IPVersion := 0, IPProto := Unknown \<rparr>))"
    using ne by (simp add: Decode_def Let_def packet_simps Suc_leI)
  have v: "IPVersion ?q = 4"
  proof (rule ccontr)
    assume "IPVersion ?q \<noteq> 4"
    with d assms have "IPVersion ?q = 6" by (auto split: if_splits)
    moreover from this decode6_ok [of ?q b] d assms have "IPVersion p \<in> {0, 6}" by auto
    ultimately show False using assms(2) by simp
  qed
  with d assms have d4: "decode4 b ?q = Some p" by simp
  show len: "20 \<le> length b"
    using d4 assms(3) by (rule_tac ccontr) (auto simp: decode4_def)
  have "p_b p = b \<and> p_length p = unat (Uint16_be (take 2 (drop 2 b))) \<and> dataofs p = subofs p + 4 \<and> ap_Port (Src p) = 0 \<and> ap_Port (Dst p) = 0
      \<and> ap_Addr (Src p) = AddrFrom4 (take 4 (drop 12 b)) \<and> ap_Addr (Dst p) = AddrFrom4 (take 4 (drop 16 b))"
    using d4 assms(3) len ne
    by (simp add: decode4_def decode4_proto_def decode_defs withPort_def withIP_def split: if_splits) auto
  then show "p_b p = b" "p_length p < 65536" "dataofs p = subofs p + 4" "ap_Port (Src p) = 0" "ap_Port (Dst p) = 0"
    "ap_Addr (Src p) = AddrFrom4 (take 4 (drop 12 b))" "ap_Addr (Dst p) = AddrFrom4 (take 4 (drop 16 b))"
    using unsigned_less [of "Uint16_be (take 2 (drop 2 b))", where ?'a = nat] by auto
qed

lemma Is4_AddrFrom4 [simp]: "Is4 (AddrFrom4 bs)"
  by (simp add: AddrFrom4_def)

text \<open>C28: A subnet router answers an IPv4 ping correctly unless ICMP dropping is on: while the stack is ready and not
  closed and subnets are processed, for a decoded echo request with an IP header of at least 20 bytes, cut to its total
  length, to an address that is neither the node's nor a Tailscale address, the inbound hook keeps the packet.  With ICMP
  dropping on that is all.  With it off the hook pings that address and prepares a reply which, sent back, decodes as an
  echo response from the pinged address to the sender with the identifier, sequence number and data of the request; its
  IP header passes the checksum, and so does its ICMP part unless all those bytes are zero.\<close>

theorem echo_reply:
  assumes "Decode b q = Some p" and "IPVersion p = 4" and "IPProto p = ICMPv4" and "IsEchoRequest p"
    and "p_length p = length b" and "20 \<le> subofs p"
    and "ns_ready ns" and "\<not> ns_closed ns" and "ProcessSubnets ns"
    and "\<not> isLocalIP ns (ap_Addr (Dst p))" and "\<not> IsTailscaleIP (ap_Addr (Dst p))"
  shows "\<exists>payload pong p'. Payload p = Some payload
    \<and> injectInbound ict ns p = Some (DropSilently, if ns_DropICMP ns then NoAction else UserPing (ap_Addr (Dst p)) pong)
    \<and> Decode pong q' = Some p' \<and> reads_as p' 4 ICMPv4 (Dst p) (Src p) payload \<and> IsEchoResponse p'
    \<and> checksum_ok (take 20 pong)
    \<and> (list_ex (\<lambda>x. x \<noteq> 0) payload \<longrightarrow> checksum_ok (drop 20 pong))"
proof -
  note f = decode_icmp4_frame [OF assms(1-3)]
  have e: "subofs p + 8 \<le> length b" using assms(3,4) f(1) by (simp add: IsEchoRequest_def)
  let ?payload = "drop (subofs p + 4) b"
  have pl: "Payload p = Some ?payload" using f(1,4) e assms(5) by (simp add: Payload_def slc_in)
  let ?h = "\<lparr> h4_IPProto = ICMPv4, h4_IPID = Uint16_be (take 2 (drop 4 b)), h4_Src = ap_Addr (Src p),
     h4_Dst = ap_Addr (Dst p), i4_Type = b ! subofs p, i4_Code = b ! (subofs p + 1) \<rparr>"
  have h: "parsed_ICMP4Header p = Some ?h"
    using f(1,2) e assms(2,3)
    by (simp add: parsed_ICMP4Header_def parsed_IP4Header_def packet_simps icmp4_header.defs ip4_header.defs)
  let ?r = "icmp4_ToResponse ?h"
  have r: "h4_Src ?r = ap_Addr (Dst p)" "h4_Dst ?r = ap_Addr (Src p)" "i4_Type ?r = ICMP4EchoReply" "i4_Code ?r = 0"
    by (simp_all add: icmp4_ToResponse_def ip4_ToResponse_def)
  have pre: "Is4 (h4_Src ?r)" "Is4 (h4_Dst ?r)" "24 + length ?payload \<le> 65535"
    unfolding r using f(3,7,8) assms(5,6) e by simp_all
  have nz: "list_ex (\<lambda>x. x \<noteq> 0) ?payload \<longleftrightarrow> \<not> (ICMP4EchoReply = 0 \<and> (0 :: byte) = 0 \<and> list_all (\<lambda>x. x = 0) ?payload)"
    by (simp add: list_ex_iff list_all_iff)
  obtain pong p' where g: "Generate (HICMP4 ?r) ?payload = Some pong" "Decode pong q' = Some p'"
    "reads_as p' 4 ICMPv4 (AddrPort (ap_Addr (Dst p)) 0) (AddrPort (ap_Addr (Src p)) 0) ?payload"
    "p_b p' = pong" "subofs p' = 20" "length pong = 24 + length ?payload" "pong ! 20 = ICMP4EchoReply" "pong ! 21 = 0"
    "checksum_ok (take 20 pong)" "list_ex (\<lambda>x. x \<noteq> 0) ?payload \<longrightarrow> checksum_ok (drop 20 pong)"
    using icmp4_roundtrip [OF pre, of q', unfolded r] unfolding nz by blast
  have via: "\<not> pfx_Contains viaRange (ap_Addr (Dst p))" unfolding f(8) by (simp add: TailscaleViaRange_def pfx_Contains_def PrefixFrom_def AddrFrom4_def)
  have "shouldHandlePing ns p = Some (ap_Addr (Dst p))"
    using assms(4,9,11) via by (simp add: shouldHandlePing_def Let_def)
  moreover have "pong_packet p = Some pong" using h pl g(1) f(8) by (simp add: pong_packet_def Let_def)
  ultimately have "injectInbound ict ns p = Some (DropSilently, if ns_DropICMP ns then NoAction else UserPing (ap_Addr (Dst p)) pong)"
    using assms(4,7-10) by (simp add: injectInbound_def shouldProcessInbound_def Let_def)
  moreover have "IsEchoResponse p'"
    using g(3-8) e by (simp add: IsEchoResponse_def reads_as_def)
  moreover have "AddrPort (ap_Addr (Dst p)) 0 = Dst p" "AddrPort (ap_Addr (Src p)) 0 = Src p"
    using f(5,6) by (metis addrport.collapse)+
  ultimately show ?thesis using pl g by metis
qed

definition ping_example :: "byte list" where
  "ping_example = [0x45, 0, 0, 30, 0, 5, 0, 0, 64, 1, 0, 0, 100, 64, 0, 9, 10, 0, 0, 1, 8, 0, 0, 0, 0, 1, 0, 2, 3, 4]"

definition router_ns :: impl where
  "router_ns = Create \<lparr> ns_ready := True, ProcessSubnets := True \<rparr>"

theorem echo_reply_witness:
  "\<exists>pong p'. Decode pong zero_parsed = Some p' \<and> Src p' = AddrPort (AddrV4 0x0a000001) 0
     \<and> Dst p' = AddrPort (AddrV4 0x64400009) 0 \<and> Payload p' = Some [0, 1, 0, 2, 3, 4] \<and> IsEchoResponse p'
     \<and> checksum_ok (drop 20 pong)"
proof -
  obtain p where p: "Decode ping_example zero_parsed = Some p" "IPVersion p = 4" "IPProto p = ICMPv4"
    "p_length p = length ping_example" "20 \<le> subofs p" "IsEchoRequest p"
    "Dst p = AddrPort (AddrV4 0x0a000001) 0" "Src p = AddrPort (AddrV4 0x64400009) 0" "Payload p = Some [0, 1, 0, 2, 3, 4]"
  proof -
    have "case Decode ping_example zero_parsed of None \<Rightarrow> False | Some p \<Rightarrow> IPVersion p = 4 \<and> IPProto p = ICMPv4
      \<and> p_length p = length ping_example \<and> 20 \<le> subofs p \<and> IsEchoRequest p
      \<and> Dst p = AddrPort (AddrV4 0x0a000001) 0 \<and> Src p = AddrPort (AddrV4 0x64400009) 0 \<and> Payload p = Some [0, 1, 0, 2, 3, 4]"
      by code_simp
    then show ?thesis using that by (auto split: option.splits)
  qed
  have "ns_ready router_ns" "\<not> ns_closed router_ns" "ProcessSubnets router_ns"
    "\<not> isLocalIP router_ns (AddrV4 0x0a000001)" "\<not> IsTailscaleIP (AddrV4 0x0a000001)" by code_simp+
  with echo_reply [OF p(1-3,6,4,5), of router_ns "\<lambda>_. False" zero_parsed] p(7-9) show ?thesis
    by (fastforce simp: reads_as_def)
qed

end
