(* ===== verification/NetstackRun.thy ===== *)
theory NetstackRun
  imports NetstackPolicy
begin

text \<open>The addresses netstack registers on its interface while connections come and go: packets, accepted requests,
  ended UDP flows and network map updates in any order.\<close>

section \<open>The interface's addresses\<close>

text \<open>gVisor refuses to add an address it has, and removes an address whatever its prefix length.\<close>

definition nic_add :: "prefix \<Rightarrow> prefix set \<Rightarrow> prefix set" where
  "nic_add p nic = (if pfx_Addr p \<in> pfx_Addr ` nic then nic else insert p nic)"

fun nic_op :: "stack_op \<Rightarrow> prefix set \<Rightarrow> prefix set" where
  "nic_op (AddProtocolAddress ip) nic = nic_add (PrefixFrom ip (int (BitLen ip))) nic"
| "nic_op (RemoveAddress ip) nic = {p \<in> nic. pfx_Addr p \<noteq> ip}"

definition nic_ops :: "stack_op list \<Rightarrow> prefix set \<Rightarrow> prefix set" where
  "nic_ops ops nic = fold nic_op ops nic"

text \<open>What the steps below need of the counts: an address is added with the first reference and removed with
  the last.\<close>

locale ref_counts =
  fixes cnt :: "'s \<Rightarrow> addr \<Rightarrow> int" and inc dec :: "'s \<Rightarrow> addr \<Rightarrow> 's \<times> stack_op list"
  assumes cnt_inc: "cnt (fst (inc s a)) = (cnt s)(a := cnt s a + 1)"
    and ops_inc: "snd (inc s a) = (if cnt s a = 0 then [AddProtocolAddress a] else [])"
    and cnt_dec: "cnt (fst (dec s a)) = (cnt s)(a := cnt s a - 1)"
    and ops_dec: "snd (dec s a) = (if cnt s a = 1 then [RemoveAddress a] else [])"
begin

text \<open>A referenced address is on the interface.\<close>

definition covered :: "'s \<Rightarrow> prefix set \<Rightarrow> addr \<Rightarrow> bool" where
  "covered s nic a \<longleftrightarrow> (0 < cnt s a \<longrightarrow> a \<in> pfx_Addr ` nic)"

lemma covered_inc:
  assumes "covered s nic a" "addr_Zone a = []"
  shows "covered (fst (inc s b)) (nic_ops (snd (inc s b)) nic) a"
  using assms
  by (cases "b = a"; cases a)
     (auto simp: covered_def cnt_inc ops_inc nic_ops_def nic_add_def pfx_Addr_PrefixFrom)

lemma covered_dec:
  assumes "covered s nic a"
  shows "covered (fst (dec s b)) (nic_ops (snd (dec s b)) nic) a"
  using assms by (auto simp: covered_def cnt_dec ops_dec nic_ops_def)

end

lemma conns_update [simp]: "conns (ns \<lparr> connsOpenBySubnetIP := AList.update ip n m \<rparr>) a
    = (if a = ip then n else conns (ns \<lparr> connsOpenBySubnetIP := m \<rparr>) a)"
  by (simp add: conns_def update_conv')

lemma conns_delete [simp]: "conns (ns \<lparr> connsOpenBySubnetIP := AList.delete ip m \<rparr>) a
    = (if a = ip then 0 else conns (ns \<lparr> connsOpenBySubnetIP := m \<rparr>) a)"
  by (simp add: conns_def delete_conv')

interpretation subnet: ref_counts conns addSubnetAddress removeSubnetAddress
  by unfold_locales (auto simp: addSubnetAddress_def removeSubnetAddress_def Let_def fun_eq_iff conns_def update_conv' delete_conv')


section \<open>Runs\<close>

record netrun =
  run_ns :: impl
  run_nic :: "prefix set"
  pendT :: "tcp_request list"
  pendU :: "(udp_flow \<times> addrport) list"

text \<open>The surroundings of requests, the network maps that arrive and the requests that clients send are taken from
  \<open>envs\<close>, \<open>maps\<close> and \<open>reqs\<close>.  A TCP packet
  passes the wrapper and may or may not become a request (gVisor drops repetitions and requests over its
  limit); a UDP packet may or may not start a flow.\<close>

inductive net_reach ::
  "'t bart_ops \<Rightarrow> ('h, 'c) tcp_env set \<Rightarrow> (network_map option \<Rightarrow> bool) \<Rightarrow> (tcp_request \<Rightarrow> bool) \<Rightarrow> netrun \<Rightarrow> bool"
  for bt :: "'t bart_ops" and envs :: "('h, 'c) tcp_env set" and maps :: "network_map option \<Rightarrow> bool" and reqs :: "tcp_request \<Rightarrow> bool"
where
  net_start: "connsOpenBySubnetIP ns = [] \<Longrightarrow> atomicIsLocalIPFunc ns = emptySet \<Longrightarrow>
    net_reach bt envs maps reqs \<lparr> run_ns = ns, run_nic = {}, pendT = [], pendU = [] \<rparr>"
| net_tcp: "net_reach bt envs maps reqs s \<Longrightarrow> reqs r \<Longrightarrow>
    wrapTCPProtocolHandler (run_ns s) (LocalAddress r) = (handled, ns', ops) \<Longrightarrow>
    net_reach bt envs maps reqs (s \<lparr> run_ns := ns', run_nic := nic_ops ops (run_nic s),
      pendT := (if handled \<and> accepted then r # pendT s else pendT s) \<rparr>)"
| net_accept: "net_reach bt envs maps reqs s \<Longrightarrow> r \<in> set (pendT s) \<Longrightarrow> env \<in> envs \<Longrightarrow>
    acceptTCP env (run_ns s) pm r = (act, ns', ops) \<Longrightarrow>
    net_reach bt envs maps reqs (s \<lparr> run_ns := ns', run_nic := nic_ops ops (run_nic s), pendT := remove1 r (pendT s) \<rparr>)"
| net_udp: "net_reach bt envs maps reqs s \<Longrightarrow>
    wrapUDPProtocolHandler (run_ns s) (LocalAddress sess) = (handled, ns', ops) \<Longrightarrow>
    ipPortOfNetstackAddr (LocalAddress sess) (LocalPort sess) = Some dst \<Longrightarrow>
    acceptUDP listen eok ns' pm sess = (res, pm') \<Longrightarrow>
    net_reach bt envs maps reqs (s \<lparr> run_ns := ns', run_nic := nic_ops ops (run_nic s),
      pendU := (case res of UdpForwarding f \<Rightarrow> if handled \<and> accepted then (f, dst) # pendU s else pendU s | _ \<Rightarrow> pendU s) \<rparr>)"
| net_udp_done: "net_reach bt envs maps reqs s \<Longrightarrow> (f, dst) \<in> set (pendU s) \<Longrightarrow>
    udp_done (run_ns s) f dst = (ns', ops) \<Longrightarrow>
    net_reach bt envs maps reqs (s \<lparr> run_ns := ns', run_nic := nic_ops ops (run_nic s), pendU := remove1 (f, dst) (pendU s) \<rparr>)"
| net_update: "net_reach bt envs maps reqs s \<Longrightarrow> maps nm \<Longrightarrow>
    set (old_prefixes all) \<subseteq> run_nic s \<Longrightarrow>
    UpdateNetstackIPs bt (run_ns s) nm all = (ns', removed, added) \<Longrightarrow>
    net_reach bt envs maps reqs (s \<lparr> run_ns := ns', run_nic := fold nic_add added {p \<in> run_nic s. pfx_Addr p \<notin> set removed} \<rparr>)"


section \<open>The invariant\<close>

lemma isLocal_counts [simp]: "isLocalIP (fst (addSubnetAddress ns ip)) = isLocalIP ns"
  "isLocalIP (fst (removeSubnetAddress ns ip)) = isLocalIP ns"
  by (auto simp: isLocalIP_def addSubnetAddress_def removeSubnetAddress_def Let_def fun_eq_iff)

lemma Zone_Unmap: "addr_Zone a = [] \<Longrightarrow> addr_Zone (Unmap a) = []"
  by (cases a) (auto simp: Unmap_def)

lemma Unmap_Zero: "Unmap AddrZero = AddrZero"
  by (simp add: Unmap_def)

lemma netaddr_Unmap: "AddrFromSlice bs = Some ip \<Longrightarrow> Unmap ip = netaddrIPFromNetstackIP bs"
  by (auto simp: AddrFromSlice_def netaddrIPFromNetstackIP_def split: if_splits)

lemma netaddr_plain: "addr_Zone (netaddrIPFromNetstackIP bs) = []" "Unmap (netaddrIPFromNetstackIP bs) = netaddrIPFromNetstackIP bs"
proof -
  have "addr_Zone (AddrFrom4 bs) = []" "addr_Zone (AddrFrom16 bs) = []" by (simp_all add: AddrFrom4_def AddrFrom16_def)
  then show "addr_Zone (netaddrIPFromNetstackIP bs) = []" by (simp add: netaddrIPFromNetstackIP_def Zone_Unmap)
  show "Unmap (netaddrIPFromNetstackIP bs) = netaddrIPFromNetstackIP bs"
    unfolding netaddrIPFromNetstackIP_def by (simp only: Unmap_idem Is4_Unmap [OF Is4_AddrFrom4] Unmap_Zero if_distrib [of Unmap])
qed

lemma wrapTCP_cases:
  assumes "wrapTCPProtocolHandler ns la = (handled, ns', ops)"
  obtains "\<not> handled" "ns' = ns" "ops = []"
  | "handled" "isLocalIP ns (netaddrIPFromNetstackIP la)" "ns' = ns" "ops = []"
  | "handled" "addSubnetAddress ns (netaddrIPFromNetstackIP la) = (ns', ops)"
proof -
  have "wrapTCPProtocolHandler ns la = (case AddrFromSlice la of None \<Rightarrow> (False, ns, [])
      | Some _ \<Rightarrow> if isLocalIP ns (netaddrIPFromNetstackIP la) then (True, ns, [])
          else (True, addSubnetAddress ns (netaddrIPFromNetstackIP la)))"
    by (cases "AddrFromSlice la") (simp_all add: wrapTCPProtocolHandler_def Let_def netaddr_Unmap)
  with assms have "\<not> handled \<and> ns' = ns \<and> ops = []
      \<or> handled \<and> isLocalIP ns (netaddrIPFromNetstackIP la) \<and> ns' = ns \<and> ops = []
      \<or> handled \<and> addSubnetAddress ns (netaddrIPFromNetstackIP la) = (ns', ops)"
    by (cases "AddrFromSlice la"; cases "isLocalIP ns (netaddrIPFromNetstackIP la)") simp_all
  then show thesis using that by blast
qed

lemma wrapUDP_same: "wrapUDPProtocolHandler ns la = wrapTCPProtocolHandler ns la"
  by (simp add: wrapUDPProtocolHandler_def wrapTCPProtocolHandler_def)

lemma nic_add_keeps: "a \<in> pfx_Addr ` nic \<Longrightarrow> a \<in> pfx_Addr ` fold nic_add ps nic"
  by (induction ps arbitrary: nic) (auto simp: nic_add_def)

lemma nic_add_other: "p \<in> fold nic_add ps nic \<Longrightarrow> p \<in> nic \<or> p \<in> set ps"
  by (induction ps arbitrary: nic) (auto simp: nic_add_def split: if_splits)

definition open_count :: "netrun \<Rightarrow> addr \<Rightarrow> nat" where
  "open_count s a = length (filter (\<lambda>r. req_dst r = a) (pendT s))
     + length (filter (\<lambda>(f, d). uf_isLocal f \<and> Unmap (ap_Addr d) = a) (pendU s))"

definition run_inv :: "netrun \<Rightarrow> addr \<Rightarrow> bool" where
  "run_inv s a \<longleftrightarrow> subnet.covered (run_ns s) (run_nic s) a \<and> int (open_count s a) \<le> conns (run_ns s) a
     \<and> (\<forall>p \<in> run_nic s. pfx_Addr p = a \<longrightarrow> p = PrefixFrom a (int (BitLen a)))
     \<and> (\<forall>ip. isLocalIP (run_ns s) ip \<longrightarrow> IsTailscaleIP ip)"

lemma nic_ops_own:
  assumes "\<forall>p \<in> nic. pfx_Addr p = a \<longrightarrow> p = PrefixFrom a (int (BitLen a))" "p \<in> nic_ops ops nic" "pfx_Addr p = a"
    and "\<And>b. AddProtocolAddress b \<in> set ops \<Longrightarrow> addr_Zone b = []"
  shows "p = PrefixFrom a (int (BitLen a))"
  using assms
proof (induction ops arbitrary: nic)
  case (Cons op ops)
  show ?case
  proof (rule Cons.IH [of "nic_op op nic"])
    show "\<forall>p \<in> nic_op op nic. pfx_Addr p = a \<longrightarrow> p = PrefixFrom a (int (BitLen a))"
    proof (cases op)
      case (AddProtocolAddress b)
      with Cons.prems(4) [of b] have "WithZone b [] = b" by (cases b) auto
      with Cons.prems(1) AddProtocolAddress show ?thesis by (auto simp: nic_add_def pfx_Addr_PrefixFrom)
    qed (use Cons.prems(1) in auto)
  qed (use Cons.prems in \<open>auto simp: nic_ops_def\<close>)
qed (auto simp: nic_ops_def)

lemma inv_same:
  assumes "run_inv s a" "run_ns s' = run_ns s" "run_nic s' = nic_ops [] (run_nic s)" "open_count s' a \<le> open_count s a"
  shows "run_inv s' a"
  using assms by (auto simp: run_inv_def nic_ops_def)

lemma inv_add:
  assumes "run_inv s a" "addr_Zone a = []" "addr_Zone b = []" "addSubnetAddress (run_ns s) b = (run_ns s', ops)"
    and "run_nic s' = nic_ops ops (run_nic s)" "open_count s' a \<le> open_count s a + (if b = a then 1 else 0)"
  shows "run_inv s' a"
proof -
  have eq: "run_ns s' = fst (addSubnetAddress (run_ns s) b)" "ops = snd (addSubnetAddress (run_ns s) b)" using assms(4) by auto
  note i = assms(1) [unfolded run_inv_def]
  have "subnet.covered (run_ns s') (run_nic s') a"
    unfolding assms(5) eq using subnet.covered_inc i assms(2) by blast
  moreover have "int (open_count s' a) \<le> conns (run_ns s') a"
    unfolding eq subnet.cnt_inc using i assms(6) by (auto split: if_splits)
  moreover have "p = PrefixFrom a (int (BitLen a))" if "p \<in> run_nic s'" "pfx_Addr p = a" for p
    using nic_ops_own [of "run_nic s" a p ops] that i assms(3,5) by (auto simp: eq subnet.ops_inc split: if_splits)
  moreover have "\<forall>ip. isLocalIP (run_ns s') ip \<longrightarrow> IsTailscaleIP ip" using i by (simp add: eq)
  ultimately show ?thesis by (simp add: run_inv_def)
qed

lemma inv_remove:
  assumes "run_inv s a" "removeSubnetAddress (run_ns s) b = (run_ns s', ops)"
    and "run_nic s' = nic_ops ops (run_nic s)" "open_count s' a + (if b = a then 1 else 0) \<le> open_count s a"
  shows "run_inv s' a"
proof -
  have eq: "run_ns s' = fst (removeSubnetAddress (run_ns s) b)" "ops = snd (removeSubnetAddress (run_ns s) b)" using assms(2) by auto
  note i = assms(1) [unfolded run_inv_def]
  have "subnet.covered (run_ns s') (run_nic s') a"
    unfolding assms(3) eq using subnet.covered_dec i by blast
  moreover have "int (open_count s' a) \<le> conns (run_ns s') a"
    unfolding eq subnet.cnt_dec using i assms(4) by (auto split: if_splits)
  moreover have "p = PrefixFrom a (int (BitLen a))" if "p \<in> run_nic s'" "pfx_Addr p = a" for p
    using nic_ops_own [of "run_nic s" a p ops] that i assms(3) by (auto simp: eq subnet.ops_dec split: if_splits)
  moreover have "\<forall>ip. isLocalIP (run_ns s') ip \<longrightarrow> IsTailscaleIP ip" using i by (simp add: eq)
  ultimately show ?thesis by (simp add: run_inv_def)
qed

text \<open>What the surroundings must respect for an address: the control plane gives the node Tailscale addresses
  and no prefix at this address, and no client sends a 4via6 request that stands for it.\<close>

definition surroundings_ok ::
  "'t bart_ops \<Rightarrow> (network_map option \<Rightarrow> bool) \<Rightarrow> (tcp_request \<Rightarrow> bool) \<Rightarrow> addr \<Rightarrow> bool" where
  "surroundings_ok bt maps reqs a \<longleftrightarrow>
     (\<forall>m ip. maps (Some m) \<and> NewContainsIPFunc bt (GetAddresses m) ip \<longrightarrow> IsTailscaleIP ip)
     \<and> (\<forall>nm ns p. maps nm \<and> p \<in> set (new_prefixes ns nm) \<longrightarrow> pfx_Addr p \<noteq> a)
     \<and> (\<forall>r. reqs r \<and> pfx_Contains viaRange (req_dst r) \<longrightarrow> UnmapVia (req_dst r) \<noteq> a)"

lemma pend_reqs: "net_reach bt envs maps reqs s \<Longrightarrow> r \<in> set (pendT s) \<Longrightarrow> reqs r"
  by (induction arbitrary: r rule: net_reach.induct) (auto split: if_splits dest: notin_set_remove1)

lemma remove1_filter: "x \<in> set xs \<Longrightarrow> length (filter P (remove1 x xs)) + (if P x then 1 else 0) = length (filter P xs)"
  by (induction xs) auto

lemma inv_update:
  assumes "run_inv s a" "surroundings_ok bt maps reqs a" "maps nm" "addr_Zone a = []" "set (old_prefixes all) \<subseteq> run_nic s"
    and "UpdateNetstackIPs bt (run_ns s) nm all = (ns', removed, added)"
  shows "run_inv (s \<lparr> run_ns := ns', run_nic := fold nic_add added {p \<in> run_nic s. pfx_Addr p \<notin> set removed} \<rparr>) a"
proof -
  note i = assms(1) [unfolded run_inv_def] and o = assms(2) [unfolded surroundings_ok_def]
  have u: "conns ns' = conns (run_ns s)" "set added \<subseteq> set (new_prefixes (run_ns s) nm)"
    "isLocalIP ns' = (case nm of Some m \<Rightarrow> NewContainsIPFunc bt (GetAddresses m) | None \<Rightarrow> emptySet)"
    using assms(6) by (auto simp: UpdateNetstackIPs_def Let_def conns_def isLocalIP_def fun_eq_iff)
  have keep: "a \<notin> set removed" if pos: "0 < conns (run_ns s) a"
  proof
    assume "a \<in> set removed"
    then obtain p where p: "p \<in> set (old_prefixes all)" "pfx_Addr p = a"
      "p \<notin> (\<lambda>(ip, _). PrefixFrom ip (int (BitLen ip))) ` set (connsOpenBySubnetIP (run_ns s))"
      using assms(6) by (auto simp: UpdateNetstackIPs_def Let_def)
    have "p = PrefixFrom a (int (BitLen a))" using p(1,2) assms(5) i by blast
    moreover obtain n where "(a, n) \<in> set (connsOpenBySubnetIP (run_ns s))"
      using pos by (auto simp: conns_def split: option.splits dest: map_of_SomeD)
    ultimately show False using p(3) by force
  qed
  let ?rest = "{p \<in> run_nic s. pfx_Addr p \<notin> set removed}"
  have "a \<in> pfx_Addr ` fold nic_add added ?rest" if "0 < conns (run_ns s) a"
  proof (rule nic_add_keeps)
    show "a \<in> pfx_Addr ` ?rest" using that i keep by (auto simp: subnet.covered_def)
  qed
  moreover have "p = PrefixFrom a (int (BitLen a))" if "p \<in> fold nic_add added ?rest" "pfx_Addr p = a" for p
    using nic_add_other [OF that(1)] that(2) i o u(2) assms(3) by blast
  moreover have "IsTailscaleIP ip" if "isLocalIP ns' ip" for ip
    using that o assms(3) unfolding u(3) by (auto simp: emptySet_def split: option.splits)
  ultimately show ?thesis using i by (simp add: run_inv_def subnet.covered_def u(1) open_count_def)
qed

lemma inv_wrap:
  assumes "run_inv s a" "\<not> IsTailscaleIP a" "addr_Zone a = []"
    and "wrapTCPProtocolHandler (run_ns s) la = (handled, run_ns s', ops)" "run_nic s' = nic_ops ops (run_nic s)"
    and "open_count s' a \<le> open_count s a + (if netaddrIPFromNetstackIP la = a \<and> handled then 1 else 0)"
  shows "run_inv s' a"
proof -
  have loc: "isLocalIP (run_ns s) (netaddrIPFromNetstackIP la) \<Longrightarrow> netaddrIPFromNetstackIP la \<noteq> a"
    using assms(1,2) by (auto simp: run_inv_def)
  from assms(4) show ?thesis
  proof (cases rule: wrapTCP_cases)
    case 1
    with assms(5,6) show ?thesis by (intro inv_same [OF assms(1)]) auto
  next
    case 2
    with assms(5,6) loc show ?thesis by (intro inv_same [OF assms(1)]) auto
  next
    case 3
    with assms(5,6) show ?thesis
      by (intro inv_add [OF assms(1,3) netaddr_plain(1) [of la], of s' ops]) (auto split: if_splits)
  qed
qed

lemma inv_accept:
  assumes "run_inv s a" "req_dial r = a \<Longrightarrow> req_dst r = a" "acceptTCP env (run_ns s) pm r = (act, run_ns s', ops)"
    and "run_nic s' = nic_ops ops (run_nic s)" "open_count s' a + (if req_dst r = a then 1 else 0) = open_count s a"
  shows "run_inv s' a"
proof -
  have "(run_ns s', ops) = (run_ns s, []) \<or> (run_ns s', ops) = removeSubnetAddress (run_ns s) (req_dial r)"
    using assms(3) by (auto simp: acceptTCP_def Let_def split: if_splits)
  then show ?thesis
  proof
    assume "(run_ns s', ops) = (run_ns s, [])"
    with assms(4,5) show ?thesis by (intro inv_same [OF assms(1)]) auto
  next
    assume "(run_ns s', ops) = removeSubnetAddress (run_ns s) (req_dial r)"
    with assms(2,4,5) show ?thesis by (intro inv_remove [OF assms(1), of "req_dial r" s' ops]) auto
  qed
qed

lemma inv_udp_done:
  assumes "run_inv s a" "Unmap a = a" "udp_done (run_ns s) f dst = (run_ns s', ops)" "run_nic s' = nic_ops ops (run_nic s)"
    and "open_count s' a + (if uf_isLocal f \<and> Unmap (ap_Addr dst) = a then 1 else 0) = open_count s a"
  shows "run_inv s' a"
proof (cases "uf_isLocal f")
  case True
  with assms(2-5) show ?thesis
    by (intro inv_remove [OF assms(1), of "ap_Addr dst" s' ops]) (auto simp: udp_done_def)
next
  case False
  with assms(3-5) show ?thesis by (intro inv_same [OF assms(1)]) (auto simp: udp_done_def)
qed

lemma run_invariant:
  assumes "net_reach bt envs maps reqs s" "surroundings_ok bt maps reqs a"
    and "\<not> IsTailscaleIP a" "addr_Zone a = []" "Unmap a = a"
  shows "run_inv s a"
  using assms(1)
proof (induction rule: net_reach.induct)
  case (net_start ns)
  then show ?case
    by (simp add: run_inv_def subnet.covered_def open_count_def conns_def isLocalIP_def emptySet_def)
next
  case (net_tcp s r handled ns' ops accepted)
  then show ?case by (intro inv_wrap [OF net_tcp.IH assms(3,4)]) (auto simp: open_count_def)
next
  case (net_accept s r env pm act ns' ops)
  have "req_dial r = a \<Longrightarrow> req_dst r = a"
    using pend_reqs [OF net_accept.hyps(1,2)] assms(2) by (auto simp: surroundings_ok_def split: if_splits)
  then show ?case
    using net_accept.hyps(4) remove1_filter [OF net_accept.hyps(2), of "\<lambda>r. req_dst r = a"]
    by (intro inv_accept [OF net_accept.IH]) (auto simp: open_count_def)
next
  case (net_udp s sess handled ns' ops dst listen eok pm res pm' accepted)
  have "Unmap (ap_Addr dst) = req_dst sess"
    using net_udp.hyps(3) by (auto simp: ipPortOfNetstackAddr_def netaddr_Unmap split: option.splits)
  then show ?case
    using net_udp.hyps(2) [unfolded wrapUDP_same]
    by (intro inv_wrap [OF net_udp.IH assms(3,4)]) (auto simp: open_count_def split: udp_action.splits)
next
  case (net_udp_done s f dst ns' ops)
  then show ?case
    using remove1_filter [OF net_udp_done.hyps(2), of "\<lambda>(f, d). uf_isLocal f \<and> Unmap (ap_Addr d) = a"]
    by (intro inv_udp_done [OF net_udp_done.IH assms(5)]) (auto simp: open_count_def)
next
  case (net_update s nm all ns' removed added)
  then show ?case using inv_update [OF net_update.IH assms(2)] assms(4) by blast
qed


section \<open>Properties\<close>

text \<open>C29: While a TCP request waits, its address stays on the interface: in every run of packets, requests, ended
  flows and network map updates, in any order and with any number of repeated packets, the
  destination of a pending request for a subnet address is registered, as long as the node's own
  addresses are Tailscale addresses, no network map has a prefix at that address, and no 4via6 request
  stands for it.\<close>

theorem pending_address_registered:
  assumes "net_reach bt envs maps reqs s" and "surroundings_ok bt maps reqs (req_dst r)"
    and "r \<in> set (pendT s)" and "\<not> IsTailscaleIP (req_dst r)"
  shows "req_dst r \<in> pfx_Addr ` run_nic s"
proof -
  have "run_inv s (req_dst r)" using run_invariant [OF assms(1,2,4)] netaddr_plain by blast
  moreover have "0 < open_count s (req_dst r)"
    using assms(3) by (auto simp: open_count_def filter_empty_conv)
  ultimately show ?thesis by (auto simp: run_inv_def subnet.covered_def)
qed

definition run_req :: tcp_request where "run_req = demo_req [100, 64, 0, 9] [10, 0, 0, 1] 80"

theorem pending_address_registered_witness:
  "AddrV4 0x0a000001 \<in> pfx_Addr ` nic_ops (snd (snd (wrapTCPProtocolHandler Create (LocalAddress run_req)))) {}"
proof -
  let ?s = "\<lparr> run_ns = Create, run_nic = {}, pendT = [], pendU = [] \<rparr>"
  let ?R = "net_reach list_bart ({} :: (nat, byte) tcp_env set) (\<lambda>_. False) (\<lambda>r. r = run_req)"
  have "?R ?s" by (rule net_start) (simp_all add: Create_def)
  moreover obtain ns' ops where w: "wrapTCPProtocolHandler Create (LocalAddress run_req) = (True, ns', ops)"
  proof -
    have "fst (wrapTCPProtocolHandler Create (LocalAddress run_req))" by code_simp
    then show ?thesis using that by (cases "wrapTCPProtocolHandler Create (LocalAddress run_req)") auto
  qed
  ultimately have run: "?R (?s \<lparr> run_ns := ns', run_nic := nic_ops ops (run_nic ?s), pendT := [run_req] \<rparr>)"
    using net_tcp [of list_bart "{}" "\<lambda>_. False" "\<lambda>r. r = run_req" ?s run_req True ns' ops True] by simp
  have "req_dst run_req = AddrV4 0x0a000001" "\<not> pfx_Contains viaRange (req_dst run_req)" "\<not> IsTailscaleIP (req_dst run_req)"
    by code_simp+
  then show ?thesis
    using pending_address_registered [OF run, of run_req] w by (simp add: surroundings_ok_def)
qed


section \<open>Where the accounting goes wrong\<close>

text \<open>A request to a 4via6 address registers that address and gives up the count of the IPv4 address behind it: when
  it ends, a pending direct request to the IPv4 address loses its registration.\<close>

lemma via_request_drops_address:
  assumes "addr_IsValid (req_client r)" "pfx_Contains viaRange (req_dst r)" "conns ns (UnmapVia (req_dst r)) = 1"
  shows "snd (snd (acceptTCP env ns pm r)) = [RemoveAddress (UnmapVia (req_dst r))]"
  using assms by (simp add: acceptTCP_def Let_def subnet.ops_dec)

text \<open>A UDP flow to the node's own address gives up a count nobody took, so the address is left with a negative
  count, which keeps it on the interface when the network map no longer lists it.\<close>

lemma udp_local_count_negative:
  assumes "conns ns ip = 0" "uf_isLocal f"
  shows "conns (fst (udp_done ns f (AddrPort ip port))) ip = -1"
  using assms by (simp add: udp_done_def subnet.cnt_dec)

lemma stale_address_kept:
  assumes "(ip, n) \<in> set (connsOpenBySubnetIP ns)" "addr_Zone ip = []" "ip \<noteq> AddrZero"
    and "UpdateNetstackIPs bt ns nm [(bs, int (BitLen ip))] = (ns', removed, added)" "netaddrIPFromNetstackIP bs = ip"
  shows "removed = []"
  using assms by (force simp: UpdateNetstackIPs_def Let_def old_prefixes_def split: if_splits)

text \<open>A UDP flow to a subnet address never gives its count up.\<close>

lemma udp_subnet_count_kept: "\<not> uf_isLocal f \<Longrightarrow> udp_done ns f dst = (ns, [])"
  by (simp add: udp_done_def)

end
