(* ===== verification/Dnsname.thy ===== *)
theory Dnsname
  imports Prelude
begin

text \<open>DNS names: \<open>util/dnsname/dnsname.go\<close>.  A Go string is the list of its bytes as characters; an error is its kind,
  and \<open>None\<close> as the result of a check means no error.  Slicing an empty string is a panic.\<close>

section \<open>Characters\<close>

definition code :: "char \<Rightarrow> nat" where "code c = of_char c"

definition islower :: "char \<Rightarrow> bool" where "islower c \<longleftrightarrow> code CHR ''a'' \<le> code c \<and> code c \<le> code CHR ''z''"
definition isupper :: "char \<Rightarrow> bool" where "isupper c \<longleftrightarrow> code CHR ''A'' \<le> code c \<and> code c \<le> code CHR ''Z''"
definition isalpha :: "char \<Rightarrow> bool" where "isalpha c \<longleftrightarrow> islower c \<or> isupper c"
definition isalphanum :: "char \<Rightarrow> bool" where
  "isalphanum c \<longleftrightarrow> isalpha c \<or> (code CHR ''0'' \<le> code c \<and> code c \<le> code CHR ''9'')"
definition isdnschar :: "char \<Rightarrow> bool" where "isdnschar c \<longleftrightarrow> isalphanum c \<or> c = CHR ''-''"

definition tolower :: "char \<Rightarrow> char" where
  "tolower c = (if isupper c then char_of (code c + code CHR ''a'' - code CHR ''A'') else c)"

definition separators :: "char \<Rightarrow> bool" where "separators c \<longleftrightarrow> c \<in> {CHR '' '', CHR ''.'', CHR ''@'', CHR ''_''}"

abbreviation maxLabelLength :: nat where "maxLabelLength \<equiv> 63"
abbreviation maxNameLength :: nat where "maxNameLength \<equiv> 254"


section \<open>Strings\<close>

definition strings_TrimSuffix :: "'a list \<Rightarrow> 'a list \<Rightarrow> 'a list" where
  "strings_TrimSuffix s suf = (if has_suffix s suf then take (length s - length suf) s else s)"

definition strings_TrimPrefix :: "'a list \<Rightarrow> 'a list \<Rightarrow> 'a list" where
  "strings_TrimPrefix s pre = (if has_prefix s pre then drop (length pre) s else s)"

definition trim_byte :: "'a \<Rightarrow> 'a list \<Rightarrow> 'a list" where
  "trim_byte c s = rev (dropWhile (\<lambda>x. x = c) (rev (dropWhile (\<lambda>x. x = c) s)))"


section \<open>Names\<close>

datatype dns_error = NameTooLong | BadLabel | EmptyLabel | LabelTooLong | BadStart | BadEnd | BadChar

text \<open>The loop of \<open>ToFQDN\<close> looks at the labels that a dot ends.\<close>

fun dotted_labels_ok :: "string \<Rightarrow> nat \<Rightarrow> bool" where
  "dotted_labels_ok [] n = True"
| "dotted_labels_ok (c # s) n =
     (if c = CHR ''.'' then 0 < n \<and> n \<le> maxLabelLength \<and> dotted_labels_ok s 0 else dotted_labels_ok s (n + 1))"

definition ToFQDN :: "string \<Rightarrow> dns_error + string" where
  "ToFQDN s0 =
     (if s0 = [] \<or> s0 = ''.'' then Inr ''.''
      else
        let s = (if hd s0 = CHR ''.'' then tl s0 else s0);
            raw = s;
            dotted = (last s = CHR ''.'');
            totalLen = (if dotted then length s else length s + 1);
            s = (if dotted then butlast s else s) in
        if maxNameLength < totalLen then Inl NameTooLong
        else if \<not> dotted_labels_ok s 0 then Inl BadLabel
        else Inr (if last raw \<noteq> CHR ''.'' then raw @ ''.'' else raw))"

definition WithoutTrailingDot :: "string \<Rightarrow> string option" where
  "WithoutTrailingDot f = (if f = [] then None else Some (butlast f))"

definition fqdn_NumLabels :: "string \<Rightarrow> nat" where
  "fqdn_NumLabels f = (if f = ''.'' then 0 else count_list f CHR ''.'')"

definition fqdn_Contains :: "string \<Rightarrow> string \<Rightarrow> bool" where
  "fqdn_Contains f other =
     (if f = other then True
      else let cmp = (if f \<noteq> ''.'' then CHR ''.'' # f else f) in has_suffix other cmp)"

definition Parent :: "string \<Rightarrow> string" where
  "Parent f = (case index_byte f CHR ''.'' of None \<Rightarrow> [] | Some i \<Rightarrow> drop (i + 1) f)"

definition ValidLabel :: "string \<Rightarrow> dns_error option" where
  "ValidLabel label =
     (if length label = 0 then Some EmptyLabel
      else if maxLabelLength < length label then Some LabelTooLong
      else if \<not> isalphanum (hd label) then Some BadStart
      else if \<not> isalphanum (last label) then Some BadEnd
      else if length label < 2 then None
      else if list_all isdnschar (butlast (tl label)) then None
      else Some BadChar)"

text \<open>\<open>SanitizeLabel\<close>: cut to 63 bytes, drop what is not alphanumeric at both ends, then turn inner separators
  into hyphens, keep DNS characters in lower case and drop the rest.\<close>

fun sanitize_inner :: "nat \<Rightarrow> nat \<Rightarrow> string \<Rightarrow> string" where
  "sanitize_inner i n [] = []"
| "sanitize_inner i n (c # s) =
     (let boundary = (i = 0 \<or> i = n - 1) in
      if \<not> boundary \<and> separators c then CHR ''-'' # sanitize_inner (i + 1) n s
      else if isdnschar c then tolower c # sanitize_inner (i + 1) n s
      else sanitize_inner (i + 1) n s)"

definition SanitizeLabel :: "string \<Rightarrow> string" where
  "SanitizeLabel label =
     (let s = take maxLabelLength label;
          s = dropWhile (\<lambda>c. \<not> isalphanum c) s;
          s = rev (dropWhile (\<lambda>c. \<not> isalphanum c) (rev s)) in
      sanitize_inner 0 (length s) s)"

definition dns_HasSuffix :: "string \<Rightarrow> string \<Rightarrow> bool" where
  "dns_HasSuffix name suffix =
     (let name = strings_TrimSuffix name ''.'';
          suffix = strings_TrimSuffix suffix ''.'';
          suffix = strings_TrimPrefix suffix ''.'';
          nameBase = strings_TrimSuffix name suffix in
      length nameBase < length name \<and> has_suffix nameBase ''.'')"

definition dns_TrimSuffix :: "string \<Rightarrow> string \<Rightarrow> string" where
  "dns_TrimSuffix name suffix =
     (let name = (if dns_HasSuffix name suffix
                  then strings_TrimSuffix (strings_TrimSuffix name ''.'') (trim_byte CHR ''.'' suffix) else name) in
      strings_TrimSuffix name ''.'')"

definition TrimCommonSuffixes :: "string \<Rightarrow> string" where
  "TrimCommonSuffixes hostname =
     strings_TrimSuffix (strings_TrimSuffix (strings_TrimSuffix hostname ''.local'') ''.localdomain'') ''.lan''"

definition SanitizeHostname :: "string \<Rightarrow> string" where
  "SanitizeHostname hostname = SanitizeLabel (TrimCommonSuffixes hostname)"

definition dns_NumLabels :: "string \<Rightarrow> nat" where
  "dns_NumLabels hostname = (if hostname = [] \<or> hostname = ''.'' then 0 else count_list hostname CHR ''.'')"

definition FirstLabel :: "string \<Rightarrow> string" where
  "FirstLabel hostname = takeWhile (\<lambda>c. c \<noteq> CHR ''.'') hostname"

fun first_error :: "('a \<Rightarrow> 'e option) \<Rightarrow> 'a list \<Rightarrow> 'e option" where
  "first_error f [] = None"
| "first_error f (x # xs) = (case f x of Some e \<Rightarrow> Some e | None \<Rightarrow> first_error f xs)"

text \<open>The outer \<open>None\<close> of \<open>ValidHostname\<close> is a panic.\<close>

definition ValidHostname :: "string \<Rightarrow> dns_error option option" where
  "ValidHostname hostname =
     (case ToFQDN hostname of
        Inl e \<Rightarrow> Some (Some e)
      | Inr fqdn \<Rightarrow> map_option (\<lambda>s. first_error ValidLabel (split_byte CHR ''.'' s)) (WithoutTrailingDot fqdn))"


section \<open>Sanitised labels\<close>

lemma code_less: "code c < 256"
  by (simp add: code_def)

lemma code_char_of: "n < 256 \<Longrightarrow> code (char_of n) = n"
  by (simp add: code_def)

lemmas char_defs = islower_def isupper_def isalpha_def isalphanum_def isdnschar_def

lemma tolower_class:
  "isalphanum c \<Longrightarrow> isalphanum (tolower c)" "\<not> isupper (tolower c)" "isdnschar c \<Longrightarrow> isdnschar (tolower c)"
  "\<not> isupper c \<Longrightarrow> tolower c = c"
  by (auto simp: tolower_def char_defs code_def)

lemma separator_not_dns: "isdnschar c \<Longrightarrow> \<not> separators c"
  by (auto simp: separators_def char_defs code_def)

text \<open>The characters of a sanitised label.\<close>

definition plain_char :: "char \<Rightarrow> bool" where "plain_char c \<longleftrightarrow> isdnschar c \<and> \<not> isupper c"

lemma hyphen_plain: "plain_char CHR ''-''"
  by (simp add: plain_char_def char_defs code_def)

lemma tolower_plain: "isdnschar c \<Longrightarrow> plain_char (tolower c)"
  by (simp add: plain_char_def tolower_class)

lemma inner_plain: "c \<in> set (sanitize_inner i n s) \<Longrightarrow> plain_char c"
  by (induction s arbitrary: i) (auto simp: Let_def hyphen_plain tolower_plain split: if_splits)

lemma inner_length: "length (sanitize_inner i n s) \<le> length s"
  by (induction s arbitrary: i) (auto simp: Let_def intro: le_SucI)

lemma inner_Cons: "\<exists>pre. sanitize_inner i n (c # s) = pre @ sanitize_inner (i + 1) n s"
  by (simp add: Let_def)

lemma inner_last:
  "s \<noteq> [] \<Longrightarrow> isalphanum (last s) \<Longrightarrow> i + length s = n \<Longrightarrow>
    sanitize_inner i n s \<noteq> [] \<and> last (sanitize_inner i n s) = tolower (last s)"
proof (induction s arbitrary: i)
  case (Cons c s)
  show ?case
  proof (cases "s = []")
    case True
    with Cons.prems show ?thesis by (auto simp: Let_def isdnschar_def)
  next
    case False
    with Cons.prems Cons.IH [of "i + 1"]
    have "sanitize_inner (i + 1) n s \<noteq> [] \<and> last (sanitize_inner (i + 1) n s) = tolower (last s)" by simp
    moreover obtain pre where "sanitize_inner i n (c # s) = pre @ sanitize_inner (i + 1) n s" using inner_Cons by blast
    ultimately show ?thesis using False by simp
  qed
qed simp

lemma inner_hd: "isalphanum c \<Longrightarrow> hd (sanitize_inner 0 n (c # s)) = tolower c \<and> sanitize_inner 0 n (c # s) \<noteq> []"
  by (simp add: isdnschar_def)

lemma inner_fixed: "list_all plain_char s \<Longrightarrow> sanitize_inner i n s = s"
  by (induction s arbitrary: i) (auto simp: plain_char_def separator_not_dns tolower_class)

text \<open>Valid lower-case labels.\<close>

definition clean_label :: "string \<Rightarrow> bool" where
  "clean_label s \<longleftrightarrow> s \<noteq> [] \<and> length s \<le> 63 \<and> isalphanum (hd s) \<and> isalphanum (last s) \<and> list_all plain_char s"

lemma clean_label_valid: "clean_label s \<Longrightarrow> ValidLabel s = None"
  by (cases s) (auto simp: clean_label_def ValidLabel_def plain_char_def list_all_iff dest: in_set_butlastD)

lemma clean_label_fixed: "clean_label s \<Longrightarrow> SanitizeLabel s = s"
proof -
  assume c: "clean_label s"
  then have "dropWhile (\<lambda>c. \<not> isalphanum c) s = s" by (cases s) (auto simp: clean_label_def)
  moreover have "dropWhile (\<lambda>c. \<not> isalphanum c) (rev s) = rev s"
    using c by (cases s rule: rev_cases) (auto simp: clean_label_def)
  ultimately show ?thesis using c by (simp add: SanitizeLabel_def inner_fixed clean_label_def)
qed

lemma hd_dropWhile_alnum: "dropWhile (\<lambda>c. \<not> isalphanum c) s \<noteq> [] \<Longrightarrow> isalphanum (hd (dropWhile (\<lambda>c. \<not> isalphanum c) s))"
  using hd_dropWhile [of "\<lambda>c. \<not> isalphanum c" s] by simp

lemma inner_clean:
  assumes "t \<noteq> []" "isalphanum (hd t)" "isalphanum (last t)" "length t \<le> 63"
  shows "clean_label (sanitize_inner 0 (length t) t)"
proof -
  obtain c u where t: "t = c # u" using assms(1) by (cases t) auto
  have h: "hd (sanitize_inner 0 (length t) t) = tolower c" using inner_hd [of c "length t" u] assms(2) t by simp
  have l: "sanitize_inner 0 (length t) t \<noteq> []" "last (sanitize_inner 0 (length t) t) = tolower (last t)"
    using inner_last [OF assms(1,3), of 0 "length t"] by simp_all
  have "list_all plain_char (sanitize_inner 0 (length t) t)" using inner_plain by (auto simp: list_all_iff)
  moreover have "length (sanitize_inner 0 (length t) t) \<le> 63" using inner_length [of 0 "length t" t] assms(4) by simp
  moreover have "isalphanum (tolower c)" using assms(2) t by (simp add: tolower_class)
  ultimately show ?thesis unfolding clean_label_def h l(2) using l(1) tolower_class(1) [OF assms(3)] by blast
qed

lemma SanitizeLabel_clean: "SanitizeLabel s = [] \<or> clean_label (SanitizeLabel s)"
proof -
  define a where "a = dropWhile (\<lambda>c. \<not> isalphanum c) (take 63 s)"
  define t where "t = rev (dropWhile (\<lambda>c. \<not> isalphanum c) (rev a))"
  have san: "SanitizeLabel s = sanitize_inner 0 (length t) t" by (simp add: SanitizeLabel_def Let_def a_def t_def)
  show ?thesis
  proof (cases "t = []")
    case True
    then show ?thesis by (simp add: san)
  next
    case False
    have "rev a = takeWhile (\<lambda>c. \<not> isalphanum c) (rev a) @ rev t" by (simp add: t_def)
    then have a: "a = t @ rev (takeWhile (\<lambda>c. \<not> isalphanum c) (rev a))" by (metis rev_append rev_rev_ident)
    have "isalphanum (last t)" using hd_dropWhile_alnum [of "rev a"] False by (simp add: t_def last_rev)
    moreover have "hd t = hd a" using a False by (metis hd_append2)
    moreover have "a \<noteq> []" using False by (subst a) simp
    then have "isalphanum (hd a)" unfolding a_def by (rule hd_dropWhile_alnum)
    moreover have "length t \<le> length a" using arg_cong [OF a, of length] by simp
    moreover have "length a \<le> 63" using length_dropWhile_le [of "\<lambda>c. \<not> isalphanum c" "take 63 s"] by (simp add: a_def)
    ultimately show ?thesis using inner_clean [OF False] by (simp add: san)
  qed
qed


section \<open>Names as lists of labels\<close>

text \<open>The name of a list of labels, with its final dot.\<close>

definition name_of :: "string list \<Rightarrow> string" where
  "name_of ls = (if ls = [] then ''.'' else concat (map (\<lambda>l. l @ ''.'') ls))"

definition labels_ok :: "string list \<Rightarrow> bool" where
  "labels_ok ls \<longleftrightarrow> list_all (\<lambda>l. l \<noteq> [] \<and> CHR ''.'' \<notin> set l) ls"

lemma split_append: "split_byte c (x @ c # y) = split_byte c x @ split_byte c y"
proof (induction x)
  case Nil
  then show ?case by (cases "split_byte c y") auto
next
  case (Cons a x)
  then show ?case by (cases "split_byte c x") auto
qed

lemma split_dotted: "labels_ok ls \<Longrightarrow> split_byte CHR ''.'' (concat (map (\<lambda>l. l @ ''.'') ls)) = ls @ [[]]"
  by (induction ls) (auto simp: labels_ok_def split_byte_append)

lemma dotted_end: "ls \<noteq> [] \<Longrightarrow> \<exists>x. concat (map (\<lambda>l. l @ ''.'') ls) = x @ ''.''"
  by (induction ls rule: rev_induct) auto

lemma name_of_Nil: "name_of [] = ''.''"
  by (simp add: name_of_def)

lemma name_of_inj:
  assumes "labels_ok a" "labels_ok b" "name_of a = name_of b"
  shows "a = b"
proof -
  have dot: "ls = []" if ok: "labels_ok ls" and eq: "name_of ls = ''.''" for ls
  proof (cases ls)
    case (Cons l ls')
    with ok obtain c l' where "l = c # l'" "c \<noteq> CHR ''.''" by (cases l) (auto simp: labels_ok_def)
    with eq Cons show ?thesis by (simp add: name_of_def)
  qed simp
  consider "a = []" | "b = []" | "a \<noteq> []" "b \<noteq> []" by blast
  then show ?thesis
  proof cases
    case 1
    with assms(3) have "name_of b = ''.''" by (simp only: name_of_Nil)
    with dot [OF assms(2)] 1 show ?thesis by (simp only:)
  next
    case 2
    with assms(3) have "name_of a = ''.''" by (simp only: name_of_Nil)
    with dot [OF assms(1)] 2 show ?thesis by (simp only:)
  next
    case 3
    with assms(3) have "concat (map (\<lambda>l. l @ ''.'') a) = concat (map (\<lambda>l. l @ ''.'') b)" by (simp only: name_of_def if_False)
    from arg_cong [OF this, of "split_byte CHR ''.''"] have "a @ [[]] = b @ [[]]"
      by (simp only: split_dotted [OF assms(1)] split_dotted [OF assms(2)])
    then show ?thesis by (simp only: append_same_eq)
  qed
qed

lemma has_suffix_iff: "has_suffix s p \<longleftrightarrow> (\<exists>x. s = x @ p)"
proof
  assume "has_suffix s p"
  then have "take (length p) (rev s) = rev p" by (simp add: has_suffix_def has_prefix_def)
  then have "s = rev (drop (length p) (rev s)) @ p"
    by (metis append_take_drop_id rev_append rev_rev_ident)
  then show "\<exists>x. s = x @ p" by blast
qed (auto simp: has_suffix_def has_prefix_def)

text \<open>C30: A domain contains exactly the names below it: for names made of non-empty labels without dots,
  \<open>Contains\<close> holds between two names just when the labels of the first end the labels of the second, the
  root containing every name; it never mistakes a shared ending inside a label for a shared domain.\<close>

theorem fqdn_Contains_labels:
  assumes "labels_ok a" and "labels_ok b"
  shows "fqdn_Contains (name_of a) (name_of b) \<longleftrightarrow> (\<exists>c. b = c @ a)"
proof (cases "a = []")
  case True
  have "has_suffix (name_of b) ''.''"
    using dotted_end [of b] by (cases "b = []") (auto simp: name_of_def has_suffix_iff)
  with True show ?thesis by (auto simp: fqdn_Contains_def name_of_def Let_def)
next
  case a: False
  let ?d = "\<lambda>ls. concat (map (\<lambda>l. l @ ''.'') ls)"
  have na: "name_of a = ?d a" using a by (simp add: name_of_def)
  have ne: "?d a \<noteq> ''.''" using name_of_inj [OF assms(1), of "[]"] a na by (auto simp: labels_ok_def name_of_def)
  have "has_suffix (name_of b) (CHR ''.'' # ?d a) \<longleftrightarrow> (\<exists>c. c \<noteq> [] \<and> b = c @ a)"
  proof
    assume "has_suffix (name_of b) (CHR ''.'' # ?d a)"
    then obtain x where x: "name_of b = x @ CHR ''.'' # ?d a" by (auto simp: has_suffix_iff)
    have "?d a \<noteq> []" using a by (cases a) auto
    then have "b \<noteq> []" using arg_cong [OF x, of length] by (auto simp: name_of_def)
    with x have "?d b = x @ CHR ''.'' # ?d a" by (simp add: name_of_def)
    then have "b @ [[]] = split_byte CHR ''.'' x @ a @ [[]]"
      using split_dotted [OF assms(1)] split_dotted [OF assms(2)] split_append [of "CHR ''.''" x "?d a"] by simp
    then show "\<exists>c. c \<noteq> [] \<and> b = c @ a" by auto
  next
    assume "\<exists>c. c \<noteq> [] \<and> b = c @ a"
    then obtain c where "c \<noteq> []" "b = c @ a" by blast
    moreover obtain x where "?d c = x @ ''.''" using dotted_end \<open>c \<noteq> []\<close> by blast
    ultimately show "has_suffix (name_of b) (CHR ''.'' # ?d a)" using a by (auto simp: has_suffix_iff name_of_def)
  qed
  moreover have "name_of a = name_of b \<longleftrightarrow> a = b" using name_of_inj [OF assms] by auto
  ultimately have "fqdn_Contains (name_of a) (name_of b) \<longleftrightarrow> a = b \<or> (\<exists>c. c \<noteq> [] \<and> b = c @ a)"
    using na ne by (simp add: fqdn_Contains_def)
  also have "\<dots> \<longleftrightarrow> (\<exists>c. b = c @ a)" by blast
  finally show ?thesis .
qed

theorem fqdn_Contains_labels_witness:
  "fqdn_Contains ''b.c.'' ''a.b.c.'' \<and> \<not> fqdn_Contains ''b.c.'' ''ab.c.''"
proof -
  have "labels_ok [''b'', ''c'']" "labels_ok [''a'', ''b'', ''c'']" "labels_ok [''ab'', ''c'']" by code_simp+
  from fqdn_Contains_labels [OF this(1,2)] fqdn_Contains_labels [OF this(1,3)] show ?thesis
    by (simp add: name_of_def)
qed


section \<open>Host names\<close>

text \<open>C31: Sanitising gives clean labels: \<open>SanitizeLabel\<close> returns the empty string or a label that
  \<open>ValidLabel\<close> accepts, in lower case; sanitising again changes nothing; and a lower-case valid label is
  returned as it is.\<close>

theorem SanitizeLabel_valid:
  "(SanitizeLabel s = [] \<or> ValidLabel (SanitizeLabel s) = None) \<and> list_all (\<lambda>c. \<not> isupper c) (SanitizeLabel s)
   \<and> SanitizeLabel (SanitizeLabel s) = SanitizeLabel s \<and> (clean_label s \<longrightarrow> SanitizeLabel s = s)"
proof (cases "SanitizeLabel s = []")
  case True
  moreover have "SanitizeLabel [] = []" by (simp add: SanitizeLabel_def Let_def)
  ultimately show ?thesis using clean_label_fixed by auto
next
  case False
  with SanitizeLabel_clean have c: "clean_label (SanitizeLabel s)" by blast
  moreover from c have "list_all (\<lambda>c. \<not> isupper c) (SanitizeLabel s)"
    by (auto simp: clean_label_def list_all_iff plain_char_def)
  ultimately show ?thesis using clean_label_fixed [OF c] clean_label_valid [OF c] clean_label_fixed [of s] by auto
qed

theorem SanitizeLabel_valid_witness:
  "SanitizeLabel ''-My Host_1.'' = ''my-host-1'' \<and> ValidLabel (SanitizeLabel ''-My Host_1.'') = None
   \<and> SanitizeLabel ''my-host-1'' = ''my-host-1''"
proof -
  have "SanitizeLabel ''-My Host_1.'' = ''my-host-1''" "clean_label ''my-host-1''" by code_simp+
  with SanitizeLabel_valid [of "''-My Host_1.''"] SanitizeLabel_valid [of "''my-host-1''"] show ?thesis by auto
qed

lemma first_error_None: "first_error f xs = None \<longleftrightarrow> list_all (\<lambda>x. f x = None) xs"
  by (induction xs) (auto split: option.splits)

lemma ValidLabel_length: "ValidLabel l = None \<Longrightarrow> 0 < length l \<and> length l \<le> 63"
  by (auto simp: ValidLabel_def split: if_splits)

text \<open>The loop of \<open>ToFQDN\<close> accepts a body all of whose labels are valid.\<close>

lemma dotted_labels_valid:
  assumes "list_all (\<lambda>l. 0 < length l \<and> length l \<le> 63) (split_byte CHR ''.'' s)"
  shows "dotted_labels_ok s 0"
proof -
  have "dotted_labels_ok s n" if "0 < n + length (hd (split_byte CHR ''.'' s))" "n + length (hd (split_byte CHR ''.'' s)) \<le> 63"
    "list_all (\<lambda>l. 0 < length l \<and> length l \<le> 63) (tl (split_byte CHR ''.'' s))" for n
    using that
  proof (induction s arbitrary: n)
    case (Cons c s)
    obtain y ys where "split_byte CHR ''.'' s = y # ys" by (cases "split_byte CHR ''.'' s") auto
    with Cons show ?case by (cases "c = CHR ''.''") auto
  qed simp
  then show ?thesis using assms by (cases "split_byte CHR ''.'' s") auto
qed

definition hostname_body :: "string \<Rightarrow> string" where
  "hostname_body h = strings_TrimSuffix (strings_TrimPrefix h ''.'') ''.''"

lemma TrimSuffix_dot: "strings_TrimSuffix s ''.'' = (if s \<noteq> [] \<and> last s = CHR ''.'' then butlast s else s)"
  by (cases s rule: rev_cases) (auto simp: strings_TrimSuffix_def has_suffix_def has_prefix_def)

lemma TrimPrefix_dot: "strings_TrimPrefix s ''.'' = (if s \<noteq> [] \<and> hd s = CHR ''.'' then tl s else s)"
  by (cases s) (auto simp: strings_TrimPrefix_def has_prefix_def)

lemma ToFQDN_body:
  "ToFQDN h = (if h = [] \<or> h = ''.'' then Inr ''.''
     else if 253 < length (hostname_body h) then Inl NameTooLong
     else if dotted_labels_ok (hostname_body h) 0 then Inr (hostname_body h @ ''.'') else Inl BadLabel)"
proof (cases "h = [] \<or> h = ''.''")
  case True
  then show ?thesis by (auto simp: ToFQDN_def)
next
  case False
  let ?s = "if hd h = CHR ''.'' then tl h else h"
  have ne: "?s \<noteq> []" using False by (cases h) auto
  have b: "hostname_body h = (if last ?s = CHR ''.'' then butlast ?s else ?s)"
    using False ne unfolding hostname_body_def TrimPrefix_dot TrimSuffix_dot by simp
  have t: "(if last ?s = CHR ''.'' then length ?s else length ?s + 1) = length (hostname_body h) + 1"
    using ne by (simp add: b)
  have r: "(if last ?s \<noteq> CHR ''.'' then ?s @ ''.'' else ?s) = hostname_body h @ ''.''"
    unfolding b using append_butlast_last_id [OF ne] by (cases "last ?s = CHR ''.''") simp_all
  show ?thesis using False unfolding ToFQDN_def Let_def t r b [symmetric] by simp
qed

text \<open>A host name is accepted exactly when it is a sequence of valid labels: \<open>ValidHostname\<close> never panics, and
  it accepts a name just when, after dropping one leading and one trailing dot, every part between dots
  is a valid label and the rest has at most 253 bytes.\<close>

lemma ValidHostname_spec:
  "ValidHostname h \<noteq> None
   \<and> (ValidHostname h = Some None \<longleftrightarrow>
        list_all (\<lambda>l. ValidLabel l = None) (split_byte CHR ''.'' (hostname_body h)) \<and> length (hostname_body h) \<le> 253)"
proof (cases "h = [] \<or> h = ''.''")
  case True
  then have "hostname_body h = []" by (auto simp: hostname_body_def TrimPrefix_dot TrimSuffix_dot)
  with True show ?thesis by (auto simp: ValidHostname_def ToFQDN_def WithoutTrailingDot_def ValidLabel_def)
next
  case False
  let ?b = "hostname_body h"
  have "list_all (\<lambda>l. ValidLabel l = None) (split_byte CHR ''.'' ?b) \<Longrightarrow> dotted_labels_ok ?b 0"
    using ValidLabel_length by (intro dotted_labels_valid) (auto simp: list_all_iff)
  with False show ?thesis
    by (auto simp: ValidHostname_def ToFQDN_body WithoutTrailingDot_def first_error_None)
qed


section \<open>Where the names are not what they say\<close>

text \<open>\<open>ToFQDN\<close> does not look at the last label: it may be too long or empty.  \<open>NumLabels\<close> counts dots, so it
  misses one label of a name without a final dot.\<close>

lemma ToFQDN_last_label:
  "ToFQDN (replicate 64 CHR ''a'') = Inr (replicate 64 CHR ''a'' @ ''.'')" "ToFQDN ''a..'' = Inr ''a..''"
  by code_simp+

lemma dns_NumLabels_off: "dns_NumLabels ''foo.bar'' = 1"
  by code_simp

end
