(* ===== verification/Serve.thy ===== *)
theory Serve
  imports Tsaddr Dnsname
begin

text \<open>Serve configurations: \<open>ipn/serve.go\<close>.

  A Go map is an association list; iteration visits it in list order, and a missing entry and a nil map
  both read as nothing.  A nil \<open>ServeConfig\<close> or an invalid view is \<open>None\<close> where the code allows one.  Handlers of
  web pages are values: two mounts never share one handler object.\<close>

type_synonym host_port = string
type_synonym service_name = string

record tcp_port_handler =
  HTTPS :: bool
  HTTP :: bool
  TCPForward :: string
  TerminateTLS :: string
  ProxyProtocol :: int

record http_handler =
  hh_Path :: string
  hh_Proxy :: string
  hh_Text :: string
  hh_Redirect :: string

type_synonym web_config = "(string \<times> http_handler) list"

record service_config =
  svc_TCP :: "(u16 \<times> tcp_port_handler) list"
  svc_Web :: "(host_port \<times> web_config) list"
  svc_Tun :: bool

datatype serve_config = ServeConfig
  (sc_TCP: "(u16 \<times> tcp_port_handler) list")
  (sc_Web: "(host_port \<times> web_config) list")
  (sc_Services: "(service_name \<times> service_config) list")
  (sc_AllowFunnel: "(host_port \<times> bool) list")
  (sc_Foreground: "(string \<times> serve_config) list")

fun set_TCP :: "(u16 \<times> tcp_port_handler) list \<Rightarrow> serve_config \<Rightarrow> serve_config" where
  "set_TCP m (ServeConfig t w s a f) = ServeConfig m w s a f"

fun set_Web :: "(host_port \<times> web_config) list \<Rightarrow> serve_config \<Rightarrow> serve_config" where
  "set_Web m (ServeConfig t w s a f) = ServeConfig t m s a f"

fun set_Services :: "(service_name \<times> service_config) list \<Rightarrow> serve_config \<Rightarrow> serve_config" where
  "set_Services m (ServeConfig t w s a f) = ServeConfig t w m a f"

fun set_AllowFunnel :: "(host_port \<times> bool) list \<Rightarrow> serve_config \<Rightarrow> serve_config" where
  "set_AllowFunnel m (ServeConfig t w s a f) = ServeConfig t w s m f"

definition JoinHostPort :: "string \<Rightarrow> string \<Rightarrow> string" where
  "JoinHostPort host port =
     (if CHR '':'' \<in> set host then ''['' @ host @ '']:'' @ port else host @ '':'' @ port)"

definition host_port :: "string \<Rightarrow> u16 \<Rightarrow> host_port" where
  "host_port host port = JoinHostPort host (show_nat (unat port))"

definition zero_handler :: tcp_port_handler where
  "zero_handler = \<lparr> HTTPS = False, HTTP = False, TCPForward = [], TerminateTLS = [], ProxyProtocol = 0 \<rparr>"

definition zero_service :: service_config where
  "zero_service = \<lparr> svc_TCP = [], svc_Web = [], svc_Tun = False \<rparr>"


section \<open>Service names\<close>

definition WithoutPrefix :: "service_name \<Rightarrow> string" where
  "WithoutPrefix sn = (if has_prefix sn ''svc:'' then drop 4 sn else [])"

definition AsServiceName :: "string \<Rightarrow> service_name" where
  "AsServiceName s =
     (if \<not> has_prefix s ''svc:'' then []
      else if drop 4 s = [] then []
      else if ValidLabel (drop 4 s) \<noteq> None then []
      else s)"


section \<open>Reading a configuration\<close>

definition GetWebHandler :: "serve_config \<Rightarrow> service_name \<Rightarrow> host_port \<Rightarrow> string \<Rightarrow> http_handler option" where
  "GetWebHandler sc svcName hp mount =
     (if svcName \<noteq> [] then
        (case map_of (sc_Services sc) svcName of
           None \<Rightarrow> None
         | Some svc \<Rightarrow> (case map_of (svc_Web svc) hp of None \<Rightarrow> None | Some webCfg \<Rightarrow> map_of webCfg mount))
      else (case map_of (sc_Web sc) hp of None \<Rightarrow> None | Some webCfg \<Rightarrow> map_of webCfg mount))"

definition WebHandlerExists :: "serve_config \<Rightarrow> service_name \<Rightarrow> host_port \<Rightarrow> string \<Rightarrow> bool" where
  "WebHandlerExists sc svcName hp mount \<longleftrightarrow> GetWebHandler sc svcName hp mount \<noteq> None"

definition GetTCPPortHandler :: "serve_config \<Rightarrow> u16 \<Rightarrow> service_name \<Rightarrow> tcp_port_handler option" where
  "GetTCPPortHandler sc port svcName =
     (if svcName \<noteq> [] then
        (case map_of (sc_Services sc) svcName of None \<Rightarrow> None | Some svc \<Rightarrow> map_of (svc_TCP svc) port)
      else map_of (sc_TCP sc) port)"

definition web_any :: "(http_handler \<Rightarrow> bool) \<Rightarrow> (host_port \<times> web_config) list \<Rightarrow> bool" where
  "web_any P webs = list_ex (\<lambda>(_, handlers). list_ex (\<lambda>(_, h). P h) handlers) webs"

fun HasPathHandler :: "serve_config \<Rightarrow> bool" where
  "HasPathHandler (ServeConfig t w s a fg) =
     (web_any (\<lambda>h. hh_Path h \<noteq> []) w
      \<or> list_ex (\<lambda>(_, svc). web_any (\<lambda>h. hh_Path h \<noteq> []) (svc_Web svc)) s
      \<or> list_ex (\<lambda>x. x) (map (\<lambda>(_, c). HasPathHandler c) fg))"

definition unix_forward :: "(u16 \<times> tcp_port_handler) list \<Rightarrow> bool" where
  "unix_forward t = list_ex (\<lambda>(_, ph). has_prefix (TCPForward ph) ''unix:'') t"

fun IsServingUnixAny :: "serve_config \<Rightarrow> bool" where
  "IsServingUnixAny (ServeConfig t w s a fg) =
     (list_ex (\<lambda>x. x) (map (\<lambda>(_, c). IsServingUnixAny c) fg)
      \<or> unix_forward t
      \<or> web_any (\<lambda>h. has_prefix (hh_Proxy h) ''unix:'') w
      \<or> list_ex (\<lambda>(_, svc). unix_forward (svc_TCP svc)
          \<or> web_any (\<lambda>h. has_prefix (hh_Proxy h) ''unix:'') (svc_Web svc)) s)"

definition IsTCPForwardingAny :: "serve_config \<Rightarrow> bool" where
  "IsTCPForwardingAny sc = list_ex (\<lambda>(_, h). TCPForward h \<noteq> []) (sc_TCP sc)"

definition service_handlers :: "serve_config \<Rightarrow> service_name \<Rightarrow> (u16 \<times> tcp_port_handler) list" where
  "service_handlers sc svcName =
     (if svcName \<noteq> [] then (case map_of (sc_Services sc) svcName of None \<Rightarrow> [] | Some svc \<Rightarrow> svc_TCP svc)
      else sc_TCP sc)"

definition IsServingHTTPS :: "serve_config \<Rightarrow> u16 \<Rightarrow> service_name \<Rightarrow> bool" where
  "IsServingHTTPS sc port svcName =
     (case map_of (service_handlers sc svcName) port of None \<Rightarrow> False | Some th \<Rightarrow> HTTPS th)"

definition IsServingHTTP :: "serve_config \<Rightarrow> u16 \<Rightarrow> service_name \<Rightarrow> bool" where
  "IsServingHTTP sc port svcName =
     (case map_of (service_handlers sc svcName) port of None \<Rightarrow> False | Some th \<Rightarrow> HTTP th)"

definition IsServingWeb :: "serve_config \<Rightarrow> u16 \<Rightarrow> service_name \<Rightarrow> bool" where
  "IsServingWeb sc port svcName \<longleftrightarrow> IsServingHTTP sc port svcName \<or> IsServingHTTPS sc port svcName"

definition IsTCPForwardingOnPort :: "serve_config \<Rightarrow> u16 \<Rightarrow> service_name \<Rightarrow> bool" where
  "IsTCPForwardingOnPort sc port svcName =
     (if map_of (service_handlers sc svcName) port = None then False else \<not> IsServingWeb sc port svcName)"

text \<open>The first entry of a list of configurations for which a lookup succeeds.\<close>

fun find_first :: "('a \<Rightarrow> 'b option) \<Rightarrow> 'a list \<Rightarrow> 'b option" where
  "find_first f [] = None"
| "find_first f (x # xs) = (case f x of Some y \<Rightarrow> Some y | None \<Rightarrow> find_first f xs)"

definition FindConfig :: "serve_config \<Rightarrow> u16 \<Rightarrow> (serve_config \<times> bool) option" where
  "FindConfig sc port =
     (if map_of (sc_TCP sc) port \<noteq> None then Some (sc, False)
      else find_first (\<lambda>(_, c). if map_of (sc_TCP c) port \<noteq> None then Some (c, True) else None) (sc_Foreground sc))"

fun IsFunnelOn :: "serve_config \<Rightarrow> bool" where
  "IsFunnelOn (ServeConfig t w s a fg) =
     (list_ex (\<lambda>(_, b). b) a \<or> list_ex (\<lambda>x. x) (map (\<lambda>(_, c). IsFunnelOn c) fg))"

definition TCPs :: "serve_config \<Rightarrow> (u16 \<times> tcp_port_handler) list" where
  "TCPs v = sc_TCP v @ concat (map (\<lambda>(_, c). sc_TCP c) (sc_Foreground v))"

definition Webs :: "serve_config \<Rightarrow> (host_port \<times> web_config) list" where
  "Webs v = sc_Web v @ concat (map (\<lambda>(_, c). sc_Web c) (sc_Foreground v)) @ concat (map (\<lambda>(_, s). svc_Web s) (sc_Services v))"

definition FindServiceTCP :: "serve_config \<Rightarrow> service_name \<Rightarrow> u16 \<Rightarrow> tcp_port_handler option" where
  "FindServiceTCP v svcName port =
     (case map_of (sc_Services v) svcName of None \<Rightarrow> None | Some svcCfg \<Rightarrow> map_of (svc_TCP svcCfg) port)"

definition FindServiceWeb :: "serve_config \<Rightarrow> service_name \<Rightarrow> host_port \<Rightarrow> web_config option" where
  "FindServiceWeb v svcName hp =
     (case map_of (sc_Services v) svcName of None \<Rightarrow> None | Some svcCfg \<Rightarrow> map_of (svc_Web svcCfg) hp)"

definition FindForegroundTCP :: "serve_config \<Rightarrow> u16 \<Rightarrow> tcp_port_handler option" where
  "FindForegroundTCP v port = find_first (\<lambda>(_, c). map_of (sc_TCP c) port) (sc_Foreground v)"

definition FindTCP :: "serve_config \<Rightarrow> u16 \<Rightarrow> tcp_port_handler option" where
  "FindTCP v port = (case FindForegroundTCP v port of Some h \<Rightarrow> Some h | None \<Rightarrow> map_of (sc_TCP v) port)"

definition FindWeb :: "serve_config \<Rightarrow> host_port \<Rightarrow> web_config option" where
  "FindWeb v hp =
     (case find_first (\<lambda>(_, c). map_of (sc_Web c) hp) (sc_Foreground v) of Some w \<Rightarrow> Some w | None \<Rightarrow> map_of (sc_Web v) hp)"

definition HasAllowFunnel :: "serve_config \<Rightarrow> bool" where
  "HasAllowFunnel v \<longleftrightarrow> sc_AllowFunnel v \<noteq> [] \<or> list_ex (\<lambda>(_, c). sc_AllowFunnel c \<noteq> []) (sc_Foreground v)"

definition HasFunnelForTarget :: "serve_config \<Rightarrow> host_port \<Rightarrow> bool" where
  "HasFunnelForTarget v target \<longleftrightarrow>
     map_of (sc_AllowFunnel v) target = Some True
     \<or> list_ex (\<lambda>(_, c). map_of (sc_AllowFunnel c) target = Some True) (sc_Foreground v)"

text \<open>A protocol of 0 in a range stands for TCP and UDP.\<close>

record proto_port_range =
  ppr_Proto :: nat
  ppr_First :: u16
  ppr_Last :: u16

text \<open>The ranges are built from left to right; the head of the accumulator is the last range.\<close>

fun merge_ports :: "u16 list \<Rightarrow> proto_port_range list \<Rightarrow> proto_port_range list" where
  "merge_ports [] acc = rev acc"
| "merge_ports (p # ps) [] = merge_ports ps [\<lparr> ppr_Proto = 6, ppr_First = p, ppr_Last = p \<rparr>]"
| "merge_ports (p # ps) (r # acc) =
     (if p = ppr_Last r + 1 then merge_ports ps (r \<lparr> ppr_Last := p \<rparr> # acc)
      else merge_ports ps (\<lparr> ppr_Proto = 6, ppr_First = p, ppr_Last = p \<rparr> # r # acc))"

definition ServicePortRange :: "service_config \<Rightarrow> proto_port_range list" where
  "ServicePortRange v =
     (if svc_Tun v then [\<lparr> ppr_Proto = 0, ppr_First = 0, ppr_Last = 65535 \<rparr>]
      else merge_ports (sort (remdups (filter (\<lambda>p. 0 < p) (map fst (svc_TCP v))))) [])"


section \<open>Changing a configuration\<close>

text \<open>\<open>SetWebHandler\<close>: the handlers of a mount that differs from the new one only by a final slash go.\<close>

definition put_handler :: "string \<Rightarrow> http_handler \<Rightarrow> web_config \<Rightarrow> web_config" where
  "put_handler mount handler handlers =
     filter (\<lambda>(k, _). k = mount \<or> strings_TrimSuffix mount ''/'' \<noteq> strings_TrimSuffix k ''/'')
       (AList.update mount handler handlers)"

definition put_web :: "host_port \<Rightarrow> string \<Rightarrow> http_handler \<Rightarrow> (host_port \<times> web_config) list \<Rightarrow> (host_port \<times> web_config) list" where
  "put_web hp mount handler webs =
     AList.update hp (put_handler mount handler (case map_of webs hp of Some w \<Rightarrow> w | None \<Rightarrow> [])) webs"

definition SetWebHandler ::
  "serve_config \<Rightarrow> http_handler \<Rightarrow> string \<Rightarrow> u16 \<Rightarrow> string \<Rightarrow> bool \<Rightarrow> string \<Rightarrow> serve_config" where
  "SetWebHandler sc handler host port mount useTLS mds =
     (let svcName = AsServiceName host;
          th = zero_handler \<lparr> HTTPS := useTLS, HTTP := \<not> useTLS \<rparr> in
      if svcName \<noteq> [] then
        let hp = host_port (WithoutPrefix svcName @ ''.'' @ mds) port;
            svc = (case map_of (sc_Services sc) svcName of Some s \<Rightarrow> s | None \<Rightarrow> zero_service);
            svc = svc \<lparr> svc_TCP := AList.update port th (svc_TCP svc), svc_Web := put_web hp mount handler (svc_Web svc) \<rparr> in
        set_Services (AList.update svcName svc (sc_Services sc)) sc
      else
        set_Web (put_web (host_port host port) mount handler (sc_Web sc)) (set_TCP (AList.update port th (sc_TCP sc)) sc))"

definition SetTCPForwarding :: "serve_config \<Rightarrow> u16 \<Rightarrow> string \<Rightarrow> bool \<Rightarrow> int \<Rightarrow> string \<Rightarrow> serve_config" where
  "SetTCPForwarding sc port fwdAddr terminateTLS proxyProtocol host =
     (let h = zero_handler \<lparr> TCPForward := fwdAddr, ProxyProtocol := proxyProtocol \<rparr>;
          h = (if terminateTLS then h \<lparr> TerminateTLS := host \<rparr> else h) in
      set_TCP (AList.update port h (sc_TCP sc)) sc)"

definition SetTCPForwardingForService ::
  "serve_config \<Rightarrow> u16 \<Rightarrow> string \<Rightarrow> bool \<Rightarrow> service_name \<Rightarrow> int \<Rightarrow> string \<Rightarrow> serve_config" where
  "SetTCPForwardingForService sc port fwdAddr terminateTLS svcName proxyProtocol magicDNSSuffix =
     (let svc = (case map_of (sc_Services sc) svcName of Some s \<Rightarrow> s | None \<Rightarrow> zero_service);
          h = zero_handler \<lparr> TCPForward := fwdAddr, ProxyProtocol := proxyProtocol \<rparr>;
          h = (if terminateTLS then h \<lparr> TerminateTLS := WithoutPrefix svcName @ ''.'' @ magicDNSSuffix \<rparr> else h) in
      set_Services (AList.update svcName (svc \<lparr> svc_TCP := AList.update port h (svc_TCP svc) \<rparr>) (sc_Services sc)) sc)"

definition SetFunnel :: "serve_config \<Rightarrow> string \<Rightarrow> u16 \<Rightarrow> bool \<Rightarrow> serve_config" where
  "SetFunnel sc host port setOn =
     (let hp = host_port host port in
      if setOn then set_AllowFunnel (AList.update hp True (sc_AllowFunnel sc)) sc
      else if map_of (sc_AllowFunnel sc) hp \<noteq> None then set_AllowFunnel (AList.delete hp (sc_AllowFunnel sc)) sc
      else sc)"

text \<open>Removing the web handlers of a host and port the configuration does not have is a nil dereference.\<close>

definition RemoveWebHandler :: "serve_config \<Rightarrow> string \<Rightarrow> u16 \<Rightarrow> string list \<Rightarrow> bool \<Rightarrow> serve_config option" where
  "RemoveWebHandler sc host port mounts cleanupFunnel =
     (let hp = host_port host port in
      case map_of (sc_Web sc) hp of
        None \<Rightarrow> None
      | Some web \<Rightarrow>
          let web' = fold AList.delete mounts web in
          if web' = [] then
            let sc = set_Web (AList.delete hp (sc_Web sc)) sc;
                sc = set_TCP (AList.delete port (sc_TCP sc)) sc in
            Some (if cleanupFunnel then set_AllowFunnel (AList.delete hp (sc_AllowFunnel sc)) sc else sc)
          else Some (set_Web (AList.update hp web' (sc_Web sc)) sc))"

definition RemoveServiceWebHandler ::
  "serve_config \<Rightarrow> service_name \<Rightarrow> string \<Rightarrow> u16 \<Rightarrow> string list \<Rightarrow> serve_config option" where
  "RemoveServiceWebHandler sc svcName hostName port mounts =
     (case map_of (sc_Services sc) svcName of
        None \<Rightarrow> Some sc
      | Some svc \<Rightarrow>
          let hp = host_port hostName port in
          case map_of (svc_Web svc) hp of
            None \<Rightarrow> None
          | Some web \<Rightarrow>
              let web' = fold AList.delete mounts web;
                  svc = (if web' = [] then svc \<lparr> svc_Web := AList.delete hp (svc_Web svc), svc_TCP := AList.delete port (svc_TCP svc) \<rparr>
                         else svc \<lparr> svc_Web := AList.update hp web' (svc_Web svc) \<rparr>) in
              Some (if svc_Web svc = [] \<and> svc_TCP svc = [] then set_Services (AList.delete svcName (sc_Services sc)) sc
                    else set_Services (AList.update svcName svc (sc_Services sc)) sc))"

definition RemoveTCPForwarding :: "serve_config \<Rightarrow> service_name \<Rightarrow> u16 \<Rightarrow> serve_config" where
  "RemoveTCPForwarding sc svcName port =
     (if svcName \<noteq> [] then
        (case map_of (sc_Services sc) svcName of
           None \<Rightarrow> sc
         | Some svc \<Rightarrow>
             let svc = svc \<lparr> svc_TCP := AList.delete port (svc_TCP svc) \<rparr> in
             if svc_Web svc = [] \<and> svc_TCP svc = [] then set_Services (AList.delete svcName (sc_Services sc)) sc
             else set_Services (AList.update svcName svc (sc_Services sc)) sc)
      else set_TCP (AList.delete port (sc_TCP sc)) sc)"


section \<open>Lookups after changes\<close>

lemma sc_sel_simps [simp]:
  "sc_TCP (set_TCP m sc) = m" "sc_Web (set_TCP m sc) = sc_Web sc" "sc_Services (set_TCP m sc) = sc_Services sc"
  "sc_AllowFunnel (set_TCP m sc) = sc_AllowFunnel sc" "sc_Foreground (set_TCP m sc) = sc_Foreground sc"
  "sc_TCP (set_Web w sc) = sc_TCP sc" "sc_Web (set_Web w sc) = w" "sc_Services (set_Web w sc) = sc_Services sc"
  "sc_AllowFunnel (set_Web w sc) = sc_AllowFunnel sc" "sc_Foreground (set_Web w sc) = sc_Foreground sc"
  "sc_TCP (set_Services v sc) = sc_TCP sc" "sc_Web (set_Services v sc) = sc_Web sc" "sc_Services (set_Services v sc) = v"
  "sc_AllowFunnel (set_Services v sc) = sc_AllowFunnel sc" "sc_Foreground (set_Services v sc) = sc_Foreground sc"
  "sc_TCP (set_AllowFunnel a sc) = sc_TCP sc" "sc_Web (set_AllowFunnel a sc) = sc_Web sc"
  "sc_Services (set_AllowFunnel a sc) = sc_Services sc" "sc_AllowFunnel (set_AllowFunnel a sc) = a"
  "sc_Foreground (set_AllowFunnel a sc) = sc_Foreground sc"
  by (cases sc; simp)+

lemma find_first_None: "find_first f xs = None \<longleftrightarrow> (\<forall>x \<in> set xs. f x = None)"
  by (induction xs) (auto split: option.splits)

lemma find_first_Some: "find_first f xs = Some y \<Longrightarrow> \<exists>x \<in> set xs. f x = Some y"
  by (induction xs) (auto split: option.splits)

text \<open>A forward that is set is found, unless a foreground session has the port; other ports keep their handler.
  Removing it again restores every lookup.\<close>

lemma FindTCP_SetTCPForwarding:
  "FindTCP (SetTCPForwarding sc port fwd tls pp host) q =
     (case FindForegroundTCP sc q of Some h \<Rightarrow> Some h
      | None \<Rightarrow> if q = port
          then Some \<lparr> HTTPS = False, HTTP = False, TCPForward = fwd, TerminateTLS = (if tls then host else []), ProxyProtocol = pp \<rparr>
          else map_of (sc_TCP sc) q)"
  by (auto simp: FindTCP_def FindForegroundTCP_def SetTCPForwarding_def Let_def update_conv' zero_handler_def split: option.split)

lemma Remove_SetTCPForwarding:
  "map_of (sc_TCP sc) port = None \<Longrightarrow>
     FindTCP (RemoveTCPForwarding (SetTCPForwarding sc port fwd tls pp host) [] port) q = FindTCP sc q"
  by (auto simp: FindTCP_def FindForegroundTCP_def SetTCPForwarding_def RemoveTCPForwarding_def Let_def update_conv'
      delete_conv' split: option.split)


section \<open>Port ranges of a service\<close>

definition in_range :: "proto_port_range \<Rightarrow> u16 \<Rightarrow> bool" where
  "in_range r q \<longleftrightarrow> ppr_First r \<le> q \<and> q \<le> ppr_Last r"

definition apart :: "proto_port_range \<Rightarrow> proto_port_range \<Rightarrow> bool" where
  "apart r s \<longleftrightarrow> unat (ppr_Last r) + 1 < unat (ppr_First s)"

lemma u16_succ: "(a :: u16) < p \<Longrightarrow> unat (a + 1) = unat a + 1"
  using unsigned_less [of p, where ?'a = nat] by (simp add: word_less_nat_alt unat_word_ariths)

lemma u16_top: "(q :: u16) \<le> 65535"
  using unsigned_less [of q, where ?'a = nat] by (simp add: word_le_nat_alt)

lemma in_range_extend:
  assumes "ppr_First r \<le> ppr_Last r" "ppr_Last r < p" "p = ppr_Last r + 1"
  shows "in_range (r \<lparr> ppr_Last := p \<rparr>) q \<longleftrightarrow> in_range r q \<or> q = p"
proof -
  have p: "unat p = unat (ppr_Last r) + 1" using u16_succ [OF assms(2)] assms(3) by simp
  have "q \<le> p \<longleftrightarrow> q \<le> ppr_Last r \<or> q = p"
    using p by (auto simp: word_le_nat_alt word_unat_eq_iff)
  moreover have "ppr_First r \<le> p" using assms(1,2) by (meson order.trans less_imp_le)
  ultimately show ?thesis by (auto simp: in_range_def)
qed

text \<open>The accumulator: non-empty ranges, the latest first, each apart from the next.\<close>

definition acc_ok :: "proto_port_range list \<Rightarrow> bool" where
  "acc_ok acc \<longleftrightarrow> list_all (\<lambda>r. ppr_First r \<le> ppr_Last r) acc \<and> sorted_wrt (\<lambda>s r. apart r s) acc"

lemma merge_ports_ok:
  assumes "sorted_wrt (<) ps" "acc_ok acc" "\<And>r p. r \<in> set acc \<Longrightarrow> p \<in> set ps \<Longrightarrow> ppr_Last r < p"
  shows "(\<exists>r \<in> set (merge_ports ps acc). in_range r q) \<longleftrightarrow> (\<exists>r \<in> set acc. in_range r q) \<or> q \<in> set ps"
    and "sorted_wrt apart (merge_ports ps acc)"
proof -
  have "((\<exists>r \<in> set (merge_ports ps acc). in_range r q) \<longleftrightarrow> (\<exists>r \<in> set acc. in_range r q) \<or> q \<in> set ps)
      \<and> sorted_wrt apart (merge_ports ps acc)"
    using assms
  proof (induction ps acc rule: merge_ports.induct)
    case (1 acc)
    then show ?case by (simp add: acc_ok_def sorted_wrt_rev)
  next
    case (2 p ps)
    let ?n = "\<lparr> ppr_Proto = 6, ppr_First = p, ppr_Last = p \<rparr>"
    have "acc_ok [?n]" by (simp add: acc_ok_def)
    moreover have "in_range ?n q \<longleftrightarrow> q = p" by (auto simp: in_range_def)
    ultimately show ?case using 2 by simp
  next
    case (3 p ps r acc)
    let ?n = "\<lparr> ppr_Proto = 6, ppr_First = p, ppr_Last = p \<rparr>" and ?e = "r \<lparr> ppr_Last := p \<rparr>"
    have lt: "ppr_Last r < p" using "3.prems"(3) by simp
    have r: "ppr_First r \<le> ppr_Last r" using "3.prems"(2) by (simp add: acc_ok_def)
    show ?case
    proof (cases "p = ppr_Last r + 1")
      case True
      have "acc_ok (?e # acc)" using "3.prems"(2) lt by (auto simp: acc_ok_def apart_def)
      moreover have "\<And>x y. x \<in> set (?e # acc) \<Longrightarrow> y \<in> set ps \<Longrightarrow> ppr_Last x < y"
        using "3.prems"(1,3) by auto
      ultimately have "((\<exists>x \<in> set (merge_ports ps (?e # acc)). in_range x q) \<longleftrightarrow> (\<exists>x \<in> set (?e # acc). in_range x q) \<or> q \<in> set ps)
          \<and> sorted_wrt apart (merge_ports ps (?e # acc))"
        using 3(1) [OF True] "3.prems"(1) by simp
      with True in_range_extend [OF r lt True, of q] show ?thesis by auto
    next
      case False
      have "unat (ppr_Last r) + 1 < unat p"
        using lt False u16_succ [OF lt] by (metis Suc_eq_plus1 Suc_leI le_neq_implies_less word_less_nat_alt word_unat_eq_iff)
      then have "apart r ?n" by (simp add: apart_def)
      moreover have "apart x ?n" if "x \<in> set acc" for x
      proof -
        have "apart x r" using "3.prems"(2) that by (simp add: acc_ok_def)
        with r \<open>apart r ?n\<close> show ?thesis by (simp add: apart_def word_le_nat_alt)
      qed
      ultimately have "acc_ok (?n # r # acc)" using "3.prems"(2) by (simp add: acc_ok_def)
      moreover have "in_range ?n q \<longleftrightarrow> q = p" by (auto simp: in_range_def)
      moreover have "\<And>x y. x \<in> set (?n # r # acc) \<Longrightarrow> y \<in> set ps \<Longrightarrow> ppr_Last x < y"
        using "3.prems"(1,3) by auto
      ultimately show ?thesis using 3(2) [OF False] "3.prems"(1) False by auto
    qed
  qed
  then show "(\<exists>r \<in> set (merge_ports ps acc). in_range r q) \<longleftrightarrow> (\<exists>r \<in> set acc. in_range r q) \<or> q \<in> set ps"
    "sorted_wrt apart (merge_ports ps acc)" by blast+
qed

text \<open>The ranges a service announces: all ports when it runs in tun mode; otherwise exactly the non-zero ports it
  has handlers for, in increasing ranges no two of which touch.\<close>

lemma ServicePortRange_exact:
  "list_ex (\<lambda>r. in_range r q) (ServicePortRange v) \<longleftrightarrow> svc_Tun v \<or> (0 < q \<and> map_of (svc_TCP v) q \<noteq> None)"
  "sorted_wrt apart (ServicePortRange v)"
proof -
  let ?ps = "sort (remdups (filter (\<lambda>p. 0 < p) (map fst (svc_TCP v))))"
  have s: "sorted_wrt (<) ?ps" by (simp add: strict_sorted_iff)
  have "map_of (svc_TCP v) q \<noteq> None \<longleftrightarrow> q \<in> fst ` set (svc_TCP v)" by (simp add: map_of_eq_None_iff)
  with merge_ports_ok(1) [OF s, of "[]" q] u16_top [of q]
  show "list_ex (\<lambda>r. in_range r q) (ServicePortRange v) \<longleftrightarrow> svc_Tun v \<or> (0 < q \<and> map_of (svc_TCP v) q \<noteq> None)"
    by (auto simp: ServicePortRange_def acc_ok_def list_ex_iff in_range_def)
  show "sorted_wrt apart (ServicePortRange v)"
    using merge_ports_ok(2) [OF s, of "[]"] by (simp add: ServicePortRange_def acc_ok_def)
qed

end
