(* ===== verification/ServeLocal.thy ===== *)
theory ServeLocal
  imports Serve Netstack
begin

text \<open>How the local backend keeps and uses its serve configuration: \<open>ipn/ipnlocal/serve.go\<close>, \<open>ipn/ipnlocal/netstack.go\<close> and
  the interception of ports in \<open>ipn/ipnlocal/local.go\<close>.

  JSON encoding and the hash of a configuration are parameters, \<open>None\<close> being an encoding error.  A stored value is its bytes under the key of
  the current profile.  Web serving, certificates and metrics are left out: a handler is what it will do with the
  connection.\<close>

record json_ops =
  je_Marshal :: "serve_config \<Rightarrow> string option"
  je_Unmarshal :: "string \<Rightarrow> serve_config option"
  je_ETag :: "serve_config option \<Rightarrow> string option"

definition json_ok :: "json_ops \<Rightarrow> serve_config \<Rightarrow> bool" where
  "json_ok js c \<longleftrightarrow> (\<exists>j. je_Marshal js c = Some j \<and> j \<noteq> [] \<and> je_Unmarshal js j = Some c)"

record local_backend =
  lb_serveConfig :: "serve_config option"
  lb_lastServeConfJSON :: string
  lb_store :: "string option"
  lb_prefsValid :: bool
  lb_ShieldsUp :: bool
  lb_RunSSH :: bool
  lb_profileID :: string
  lb_configLocked :: bool
  lb_netMap :: "network_map option"
  lb_notifyWatchers :: "string list"
  lb_intercept :: "u16 \<Rightarrow> bool"
  lb_ipVIPServiceMap :: "(addr \<times> service_name) list"
  lb_webClient :: bool
  lb_exposeRemoteWebClient :: bool
  lb_peerAPIPorts :: "(addr \<times> u16) list"

definition self_valid :: "local_backend \<Rightarrow> bool" where
  "self_valid b \<longleftrightarrow> (case lb_netMap b of Some (Some _) \<Rightarrow> True | _ \<Rightarrow> False)"


section \<open>Port interception\<close>

definition generateInterceptTCPPortFunc :: "u16 list \<Rightarrow> u16 \<Rightarrow> bool" where
  "generateInterceptTCPPortFunc ports =
     (let ports = remdups_adj (sort ports) in
      case ports of
        [] \<Rightarrow> (\<lambda>p. False)
      | [a] \<Rightarrow> (\<lambda>p. a = p)
      | [a, b] \<Rightarrow> (\<lambda>p. a = p \<or> b = p)
      | [a, b, c] \<Rightarrow> (\<lambda>p. a = p \<or> b = p \<or> c = p)
      | _ \<Rightarrow> if 16 < length ports
             then (\<lambda>p. map_of (map (\<lambda>q. (q, True)) ports) p = Some True)
             else (\<lambda>p. list_ex (\<lambda>q. q = p) ports))"

definition generateInterceptVIPServicesTCPPortFunc :: "(addr \<times> (u16 \<Rightarrow> bool)) list \<Rightarrow> addrport \<Rightarrow> bool" where
  "generateInterceptVIPServicesTCPPortFunc svcAddrPorts ap =
     (case map_of svcAddrPorts (ap_Addr ap) of Some f \<Rightarrow> f (ap_Port ap) | None \<Rightarrow> False)"

definition ShouldExposeRemoteWebClient :: "local_backend \<Rightarrow> bool" where
  "ShouldExposeRemoteWebClient b \<longleftrightarrow> lb_webClient b \<and> lb_exposeRemoteWebClient b"

abbreviation webClientPort :: u16 where "webClientPort \<equiv> 5252"
abbreviation DriveLocalPort :: u16 where "DriveLocalPort \<equiv> 8080"

definition reloadServeConfigLocked :: "json_ops \<Rightarrow> local_backend \<Rightarrow> local_backend" where
  "reloadServeConfigLocked js b =
     (if \<not> self_valid b \<or> \<not> lb_prefsValid b \<or> lb_profileID b = []
      then b \<lparr> lb_lastServeConfJSON := [], lb_serveConfig := None \<rparr>
      else case lb_store b of
          None \<Rightarrow> b \<lparr> lb_lastServeConfJSON := [], lb_serveConfig := None \<rparr>
        | Some confj \<Rightarrow>
            if lb_lastServeConfJSON b = confj then b
            else let b = b \<lparr> lb_lastServeConfJSON := confj \<rparr> in
              case je_Unmarshal js confj of
                None \<Rightarrow> b \<lparr> lb_serveConfig := None \<rparr>
              | Some (ServeConfig t w s a fg) \<Rightarrow>
                  b \<lparr> lb_serveConfig := Some (ServeConfig t w s a
                        (filter (\<lambda>(sessionID, _). sessionID \<in> set (lb_notifyWatchers b)) fg)) \<rparr>)"

definition serve_ports :: "local_backend \<Rightarrow> u16 list" where
  "serve_ports b = (case lb_serveConfig b of None \<Rightarrow> [] | Some sc \<Rightarrow> filter (\<lambda>p. 0 < p) (map fst (TCPs sc)))"

definition setTCPPortsInterceptedFromNetmapAndPrefsLocked :: "json_ops \<Rightarrow> local_backend \<Rightarrow> local_backend" where
  "setTCPPortsInterceptedFromNetmapAndPrefsLocked js b0 =
     (let b = reloadServeConfigLocked js b0;
          ssh = (if lb_prefsValid b \<and> lb_RunSSH b then [22] else []);
          web = (if ShouldExposeRemoteWebClient b then [webClientPort] else []) in
      b \<lparr> lb_intercept := generateInterceptTCPPortFunc (ssh @ web @ serve_ports b) \<rparr>)"

definition ShouldInterceptTCPPort :: "local_backend \<Rightarrow> u16 \<Rightarrow> bool" where
  "ShouldInterceptTCPPort b port = lb_intercept b port"


section \<open>Updating the configuration\<close>

datatype serveType = serveTypeHTTPS | serveTypeHTTP | serveTypeTCP | serveTypeTLSTerminatedTCP | serveTypeNone

definition serveTypeFromPortHandler :: "tcp_port_handler \<Rightarrow> serveType" where
  "serveTypeFromPortHandler ph =
     (if HTTP ph then serveTypeHTTP
      else if HTTPS ph then serveTypeHTTPS
      else if TerminateTLS ph \<noteq> [] then serveTypeTLSTerminatedTCP
      else if TCPForward ph \<noteq> [] then serveTypeTCP
      else serveTypeNone)"

datatype serve_error = FunnelShieldsUp | ConfigFileLocked | NoNetMap | NoSelfNode | ErrETagMismatch
  | TunWithHandlers service_name | ListenerExists u16 | ForegroundListenerExists u16
  | ServeTypeChange u16 | ServiceTypeChange service_name u16 | TunTurnedOn service_name | TunBlocks service_name
  | ETagFailed | EncodingFailed | WriteStateFailed

definition check_tun :: "serve_config \<Rightarrow> serve_error option" where
  "check_tun incoming = first_error (\<lambda>(svcName, svcCfg).
     if svc_Tun svcCfg \<and> (svc_TCP svcCfg \<noteq> [] \<or> svc_Web svcCfg \<noteq> []) then Some (TunWithHandlers svcName) else None)
     (sc_Services incoming)"

definition check_new_foreground :: "serve_config \<Rightarrow> serve_config \<Rightarrow> serve_error option" where
  "check_new_foreground existing incoming = first_error (\<lambda>(sessionID, incomingFg).
     if map_of (sc_Foreground existing) sessionID = None
     then first_error (\<lambda>(port, _). if FindTCP existing port \<noteq> None then Some (ListenerExists port) else None) (TCPs incomingFg)
     else None) (sc_Foreground incoming)"

definition check_background :: "serve_config \<Rightarrow> serve_config \<Rightarrow> serve_error option" where
  "check_background existing incoming = first_error (\<lambda>(port, _).
     if FindForegroundTCP existing port \<noteq> None then Some (ForegroundListenerExists port) else None) (sc_TCP incoming)"

definition check_types :: "serve_config \<Rightarrow> serve_config \<Rightarrow> serve_error option" where
  "check_types existing incoming = first_error (\<lambda>(port, incomingHandler).
     case FindTCP existing port of
       None \<Rightarrow> None
     | Some existingHandler \<Rightarrow>
         if serveTypeFromPortHandler incomingHandler \<noteq> serveTypeFromPortHandler existingHandler
         then Some (ServeTypeChange port) else None) (sc_TCP incoming)"

definition check_service :: "service_config \<Rightarrow> service_name \<Rightarrow> service_config \<Rightarrow> serve_error option" where
  "check_service existingSvcCfg svcName incomingSvcCfg =
     (case first_error (\<lambda>(port, incomingHandler).
         case map_of (svc_TCP existingSvcCfg) port of
           None \<Rightarrow> None
         | Some existingHandler \<Rightarrow>
             if serveTypeFromPortHandler incomingHandler \<noteq> serveTypeFromPortHandler existingHandler
             then Some (ServiceTypeChange svcName port) else None) (svc_TCP incomingSvcCfg) of
       Some e \<Rightarrow> Some e
     | None \<Rightarrow>
         if svc_Tun incomingSvcCfg \<and> (svc_TCP existingSvcCfg \<noteq> [] \<or> svc_Web existingSvcCfg \<noteq> [])
         then Some (TunTurnedOn svcName)
         else if (svc_TCP incomingSvcCfg \<noteq> [] \<or> svc_Web incomingSvcCfg \<noteq> []) \<and> svc_Tun existingSvcCfg
         then Some (TunBlocks svcName) else None)"

definition check_services :: "serve_config \<Rightarrow> serve_config \<Rightarrow> serve_error option" where
  "check_services existing incoming = first_error (\<lambda>(svcName, incomingSvcCfg).
     case map_of (sc_Services existing) svcName of
       None \<Rightarrow> None | Some existingSvcCfg \<Rightarrow> check_service existingSvcCfg svcName incomingSvcCfg) (sc_Services incoming)"

definition validateServeConfigUpdate :: "serve_config option \<Rightarrow> serve_config option \<Rightarrow> serve_error option" where
  "validateServeConfigUpdate existing incoming =
     (case incoming of
        None \<Rightarrow> None
      | Some inc \<Rightarrow>
         (case check_tun inc of
            Some e \<Rightarrow> Some e
          | None \<Rightarrow>
             (case existing of
                None \<Rightarrow> None
              | Some ex \<Rightarrow> first_error (\<lambda>chk. chk ex inc)
                  [check_new_foreground, check_background, check_types, check_services])))"

text \<open>\<open>setServeConfigLocked\<close> returns the new backend, the foreground sessions it cancels and the back ends whose
  addresses are resolved in the background.\<close>

definition setServeConfigLocked ::
  "json_ops \<Rightarrow> bool \<Rightarrow> local_backend \<Rightarrow> serve_config option \<Rightarrow> string
     \<Rightarrow> serve_error + (local_backend \<times> string list \<times> string list)" where
  "setServeConfigLocked js writeOk b config etag =
     (if (case config of Some c \<Rightarrow> IsFunnelOn c | None \<Rightarrow> False) \<and> lb_ShieldsUp b then Inl FunnelShieldsUp
      else if lb_configLocked b then Inl ConfigFileLocked
      else case lb_netMap b of
          None \<Rightarrow> Inl NoNetMap
        | Some None \<Rightarrow> Inl NoSelfNode
        | Some (Some _) \<Rightarrow>
            let prevConfig = lb_serveConfig b in
            if etag \<noteq> [] \<and> je_ETag js prevConfig = None then Inl ETagFailed
            else if etag \<noteq> [] \<and> je_ETag js prevConfig \<noteq> Some etag then Inl ErrETagMismatch
            else case validateServeConfigUpdate prevConfig config of
                Some e \<Rightarrow> Inl e
              | None \<Rightarrow>
                 (case (case config of None \<Rightarrow> Some None | Some c \<Rightarrow> map_option Some (je_Marshal js c)) of
                    None \<Rightarrow> Inl EncodingFailed
                  | Some bs \<Rightarrow>
                      if \<not> writeOk then Inl WriteStateFailed
                      else
                        let b' = setTCPPortsInterceptedFromNetmapAndPrefsLocked js (b \<lparr> lb_store := bs \<rparr>);
                            has = (\<lambda>k. case lb_serveConfig b' of None \<Rightarrow> False | Some c \<Rightarrow> map_of (sc_Foreground c) k \<noteq> None);
                            gone = (case prevConfig of None \<Rightarrow> []
                              | Some c \<Rightarrow> filter (\<lambda>k. \<not> has k \<and> k \<in> set (lb_notifyWatchers b)) (map fst (sc_Foreground c)));
                            warm = (case config of None \<Rightarrow> []
                              | Some c \<Rightarrow> filter (\<lambda>d. d \<noteq> []) (map (\<lambda>(_, h). TCPForward h) (sc_TCP c))) in
                        Inr (b', gone, warm)))"

definition SetServeConfig ::
  "json_ops \<Rightarrow> bool \<Rightarrow> local_backend \<Rightarrow> serve_config option \<Rightarrow> string
     \<Rightarrow> serve_error + (local_backend \<times> string list \<times> string list)" where
  "SetServeConfig js writeOk b config etag = setServeConfigLocked js writeOk b config etag"

definition DeleteForegroundSession ::
  "json_ops \<Rightarrow> bool \<Rightarrow> local_backend \<Rightarrow> string \<Rightarrow> serve_error + (local_backend \<times> string list \<times> string list)" where
  "DeleteForegroundSession js writeOk b sessionID =
     (case lb_serveConfig b of
        None \<Rightarrow> Inr (b, [], [])
      | Some (ServeConfig t w s a fg) \<Rightarrow>
          if map_of fg sessionID = None then Inr (b, [], [])
          else setServeConfigLocked js writeOk b (Some (ServeConfig t w s a (AList.delete sessionID fg))) [])"


section \<open>Handlers\<close>

text \<open>What a connection is handed to; a forward carries the back end, the name whose TLS is terminated and the
  version of the PROXY header.\<close>

datatype serve_handler = WebClientConn | Quad100Port80 | DriveConn | PeerAPIConn
  | ServeHTTP bool | Forward string string int

definition tcpHandlerForServeTCP :: "tcp_port_handler \<Rightarrow> serve_handler option" where
  "tcpHandlerForServeTCP tcph =
     (if HTTPS tcph \<or> HTTP tcph then (if HTTPS tcph then Some (ServeHTTP True) else Some (ServeHTTP False))
      else if TCPForward tcph \<noteq> [] then Some (Forward (TCPForward tcph) (TerminateTLS tcph) (ProxyProtocol tcph))
      else None)"

definition tcpHandlerForVIPService :: "local_backend \<Rightarrow> addrport \<Rightarrow> serve_handler option" where
  "tcpHandlerForVIPService b dstAddr =
     (case lb_serveConfig b of
        None \<Rightarrow> None
      | Some sc \<Rightarrow>
         (case map_of (lb_ipVIPServiceMap b) (ap_Addr dstAddr) of
            None \<Rightarrow> None
          | Some dstSvc \<Rightarrow>
             (case FindServiceTCP sc dstSvc (ap_Port dstAddr) of
                None \<Rightarrow> None | Some tcph \<Rightarrow> tcpHandlerForServeTCP tcph)))"

definition tcpHandlerForServe :: "local_backend \<Rightarrow> u16 \<Rightarrow> serve_handler option" where
  "tcpHandlerForServe b dport =
     (case lb_serveConfig b of
        None \<Rightarrow> None
      | Some sc \<Rightarrow> (case FindTCP sc dport of None \<Rightarrow> None | Some tcph \<Rightarrow> tcpHandlerForServeTCP tcph))"

definition backend_isLocalIP :: "local_backend \<Rightarrow> addr \<Rightarrow> bool" where
  "backend_isLocalIP b ip \<longleftrightarrow>
     (case lb_netMap b of None \<Rightarrow> False | Some nm \<Rightarrow> PrefixFrom ip (int (BitLen ip)) \<in> set (GetAddresses nm))"

definition GetPeerAPIPort :: "local_backend \<Rightarrow> addr \<Rightarrow> u16 option" where
  "GetPeerAPIPort b ip = map_of (lb_peerAPIPorts b) ip"

definition TCPHandlerForDst :: "local_backend \<Rightarrow> addrport \<Rightarrow> addrport \<Rightarrow> serve_handler option" where
  "TCPHandlerForDst b src dst =
     (let hittingServiceIP = (ap_Addr dst = TailscaleServiceIP \<or> ap_Addr dst = TailscaleServiceIPv6) in
      if hittingServiceIP \<and> ap_Port dst = 80 then (if lb_webClient b then Some WebClientConn else Some Quad100Port80)
      else if hittingServiceIP \<and> ap_Port dst = DriveLocalPort then Some DriveConn
      else case tcpHandlerForVIPService b dst of
          Some h \<Rightarrow> Some h
        | None \<Rightarrow>
            if \<not> backend_isLocalIP b (ap_Addr dst) then None
            else if ap_Port dst = webClientPort \<and> ShouldExposeRemoteWebClient b then Some WebClientConn
            else if GetPeerAPIPort b (ap_Addr dst) = Some (ap_Port dst) then Some PeerAPIConn
            else tcpHandlerForServe b (ap_Port dst))"

text \<open>What becomes of a connection that comes in through the public ingress.\<close>

datatype 'h ingress = IngressRST | IngressGone | IngressHandled 'h

definition HandleIngressTCPConn ::
  "(u16 \<Rightarrow> serve_handler option) option \<Rightarrow> local_backend \<Rightarrow> host_port \<Rightarrow> bool \<Rightarrow> serve_handler ingress" where
  "HandleIngressTCPConn getTCPHandlerForFunnelFlow b target connOk =
     (case lb_serveConfig b of
        None \<Rightarrow> IngressRST
      | Some sc \<Rightarrow>
          if \<not> HasFunnelForTarget sc target then IngressRST
          else case SplitHostPort target of
              None \<Rightarrow> IngressRST
            | Some (host, port) \<Rightarrow>
                if port = [] \<or> \<not> list_all is_digit port \<or> 65535 < dec_val port then IngressRST
                else
                  let dport = of_nat (dec_val port);
                      funnel = (case getTCPHandlerForFunnelFlow of None \<Rightarrow> None | Some f \<Rightarrow> f dport);
                      handler = (case funnel of Some h \<Rightarrow> Some h | None \<Rightarrow> tcpHandlerForServe b dport) in
                  case handler of
                    None \<Rightarrow> IngressRST
                  | Some h \<Rightarrow> if connOk then IngressHandled h else IngressGone)"


section \<open>Targets\<close>

text \<open>A back end with its pinned address.  \<open>lookup\<close> resolves a host (\<open>None\<close> for an error), \<open>probe\<close> tries an address.\<close>

record serve_target =
  st_host :: string
  st_port :: string
  st_cur :: string

definition newServeTarget :: "string \<Rightarrow> serve_target" where
  "newServeTarget hostport =
     (case SplitHostPort hostport of
        None \<Rightarrow> \<lparr> st_host = hostport, st_port = [], st_cur = [] \<rparr>
      | Some (host, port) \<Rightarrow> \<lparr> st_host = host, st_port = port, st_cur = [] \<rparr>)"

definition serveTargetFor :: "(string \<times> serve_target) list \<Rightarrow> string \<Rightarrow> serve_target \<times> (string \<times> serve_target) list" where
  "serveTargetFor cache backDst =
     (case map_of cache backDst of
        Some st \<Rightarrow> (st, cache)
      | None \<Rightarrow> let st = newServeTarget backDst in (st, AList.update backDst st cache))"

definition target_addr :: "(string \<Rightarrow> string list option) \<Rightarrow> (string \<Rightarrow> bool) \<Rightarrow> serve_target \<Rightarrow> string \<times> serve_target" where
  "target_addr lookup probe st =
     (if st_cur st \<noteq> [] then (st_cur st, st)
      else if st_port st = [] then (st_host st, st)
      else if net_ParseIP (st_host st) \<noteq> None
      then let cur = JoinHostPort (st_host st) (st_port st) in (cur, st \<lparr> st_cur := cur \<rparr>)
      else case lookup (st_host st) of
          None \<Rightarrow> (JoinHostPort (st_host st) (st_port st), st)
        | Some [] \<Rightarrow> (JoinHostPort (st_host st) (st_port st), st)
        | Some (ip # ips) \<Rightarrow>
            let cands = map (\<lambda>i. JoinHostPort i (st_port st)) (ip # ips);
                cur = (case find_first (\<lambda>cand. if probe cand then Some cand else None) cands of
                    Some cand \<Rightarrow> cand | None \<Rightarrow> hd cands) in
            (cur, st \<lparr> st_cur := cur \<rparr>))"

definition invalidate :: "serve_target \<Rightarrow> serve_target" where
  "invalidate st = st \<lparr> st_cur := [] \<rparr>"

text \<open>\<open>dial\<close>: the resolver and the prober are those at the time of the two resolutions; \<open>dial1\<close> and \<open>dial2\<close>
  say whether an address can be dialled the first and the second time, before the context of both dials ends.  The
  result is the address of the connection, or an error.\<close>

definition target_dial ::
  "(string \<Rightarrow> string list option) \<times> (string \<Rightarrow> bool) \<Rightarrow> (string \<Rightarrow> string list option) \<times> (string \<Rightarrow> bool)
     \<Rightarrow> (string \<Rightarrow> bool) \<Rightarrow> (string \<Rightarrow> bool) \<Rightarrow> serve_target \<Rightarrow> string option \<times> serve_target" where
  "target_dial env1 env2 dial1 dial2 st =
     (case target_addr (fst env1) (snd env1) st of (target, st1) \<Rightarrow>
        if dial1 target then (Some target, st1)
        else case target_addr (fst env2) (snd env2) (invalidate st1) of (t2, st2) \<Rightarrow>
          if t2 \<noteq> target \<and> dial2 t2 then (Some t2, st2) else (None, st2))"


section \<open>Interception is membership\<close>

lemma map_of_True: "map_of (map (\<lambda>q. (q, True)) qs) p = Some True \<longleftrightarrow> p \<in> set qs"
  by (induction qs) auto

lemma intercept_iff: "generateInterceptTCPPortFunc ports p \<longleftrightarrow> p \<in> set ports"
proof -
  define qs where "qs = remdups_adj (sort ports)"
  have "set qs = set ports" by (simp add: qs_def)
  moreover have "generateInterceptTCPPortFunc ports p \<longleftrightarrow> p \<in> set qs"
    unfolding generateInterceptTCPPortFunc_def qs_def [symmetric] Let_def
    by (auto simp: map_of_True list_ex_iff split: list.splits simp del: map_of_map)
  ultimately show ?thesis by simp
qed


section \<open>A configuration takes effect\<close>

text \<open>The remembered JSON always belongs to the configuration in use.\<close>

definition lb_inv :: "json_ops \<Rightarrow> local_backend \<Rightarrow> bool" where
  "lb_inv js b \<longleftrightarrow> lb_lastServeConfJSON b \<noteq> [] \<longrightarrow>
     (case je_Unmarshal js (lb_lastServeConfJSON b) of
        None \<Rightarrow> lb_serveConfig b = None
      | Some (ServeConfig t w s a fg) \<Rightarrow> \<exists>P. lb_serveConfig b = Some (ServeConfig t w s a (filter P fg)))"

lemma lb_inv_cong:
  assumes "lb_lastServeConfJSON b' = lb_lastServeConfJSON b" "lb_serveConfig b' = lb_serveConfig b"
  shows "lb_inv js b' = lb_inv js b"
  unfolding lb_inv_def assms ..

lemma reload_inv: "lb_inv js b \<Longrightarrow> lb_inv js (reloadServeConfigLocked js b)"
  by (auto simp: lb_inv_def reloadServeConfigLocked_def Let_def split: option.splits serve_config.splits)

lemma set_inv:
  assumes "lb_inv js b" "setServeConfigLocked js wok b c etag = Inr (b', gone, warm)"
  shows "lb_inv js b'"
proof -
  obtain bs where "b' = setTCPPortsInterceptedFromNetmapAndPrefsLocked js (b \<lparr> lb_store := bs \<rparr>)"
    using assms(2) by (auto simp: setServeConfigLocked_def Let_def split: if_splits option.splits)
  moreover have "lb_inv js (reloadServeConfigLocked js (b \<lparr> lb_store := bs \<rparr>))"
    using assms(1) lb_inv_cong [of "b \<lparr> lb_store := bs \<rparr>" b js] by (intro reload_inv) simp
  ultimately show ?thesis
    using lb_inv_cong [of b' "reloadServeConfigLocked js (b \<lparr> lb_store := bs \<rparr>)" js]
    by (simp add: setTCPPortsInterceptedFromNetmapAndPrefsLocked_def Let_def)
qed

lemma reload_stored:
  assumes "json_ok js c" "lb_inv js b" "self_valid b" "lb_prefsValid b" "lb_profileID b \<noteq> []"
    and "lb_store b = je_Marshal js c" "sc_Foreground c = []"
  shows "lb_serveConfig (reloadServeConfigLocked js b) = Some c"
proof -
  obtain j where j: "je_Marshal js c = Some j" "j \<noteq> []" "je_Unmarshal js j = Some c"
    using assms(1) by (auto simp: json_ok_def)
  obtain t w s a where c: "c = ServeConfig t w s a []" using assms(7) by (cases c) auto
  show ?thesis
    using assms(2-6) j by (auto simp: reloadServeConfigLocked_def lb_inv_def c Let_def)
qed

lemma reload_same [simp]:
  "lb_netMap (reloadServeConfigLocked js b) = lb_netMap b" "lb_prefsValid (reloadServeConfigLocked js b) = lb_prefsValid b"
  "lb_RunSSH (reloadServeConfigLocked js b) = lb_RunSSH b" "lb_webClient (reloadServeConfigLocked js b) = lb_webClient b"
  "lb_exposeRemoteWebClient (reloadServeConfigLocked js b) = lb_exposeRemoteWebClient b"
  "lb_peerAPIPorts (reloadServeConfigLocked js b) = lb_peerAPIPorts b"
  "lb_ipVIPServiceMap (reloadServeConfigLocked js b) = lb_ipVIPServiceMap b"
  by (simp_all add: reloadServeConfigLocked_def Let_def split: option.split serve_config.split)

text \<open>A destination that no built-in service of the node takes.\<close>

definition plain_dst :: "local_backend \<Rightarrow> addr \<Rightarrow> u16 \<Rightarrow> bool" where
  "plain_dst b ip port \<longleftrightarrow> backend_isLocalIP b ip \<and> ip \<noteq> TailscaleServiceIP \<and> ip \<noteq> TailscaleServiceIPv6
     \<and> map_of (lb_ipVIPServiceMap b) ip = None \<and> \<not> (port = webClientPort \<and> ShouldExposeRemoteWebClient b)
     \<and> GetPeerAPIPort b ip \<noteq> Some port"

lemma TCPHandlerForDst_plain:
  "plain_dst b ip port \<Longrightarrow> TCPHandlerForDst b src (AddrPort ip port) = tcpHandlerForServe b port"
  by (auto simp: TCPHandlerForDst_def plain_dst_def tcpHandlerForVIPService_def Let_def split: option.split)

lemma plain_dst_cong:
  assumes "lb_netMap b' = lb_netMap b" "lb_ipVIPServiceMap b' = lb_ipVIPServiceMap b" "lb_webClient b' = lb_webClient b"
    and "lb_exposeRemoteWebClient b' = lb_exposeRemoteWebClient b" "lb_peerAPIPorts b' = lb_peerAPIPorts b"
  shows "plain_dst b' = plain_dst b"
  unfolding plain_dst_def backend_isLocalIP_def ShouldExposeRemoteWebClient_def GetPeerAPIPort_def fun_eq_iff assms by simp

lemma intercepted_from_config:
  assumes "lb_serveConfig (reloadServeConfigLocked js b) = Some c" "sc_Foreground c = []" "lb_prefsValid b" "0 < port"
  shows "lb_intercept (setTCPPortsInterceptedFromNetmapAndPrefsLocked js b) port \<longleftrightarrow>
    port = 22 \<and> lb_RunSSH b \<or> port = webClientPort \<and> ShouldExposeRemoteWebClient b \<or> map_of (sc_TCP c) port \<noteq> None"
  using assms
  by (auto simp: setTCPPortsInterceptedFromNetmapAndPrefsLocked_def Let_def intercept_iff serve_ports_def TCPs_def
      ShouldExposeRemoteWebClient_def map_of_eq_None_iff)

text \<open>The backend after an accepted update.\<close>

lemma set_config_result:
  assumes "json_ok js c" "lb_inv js b" "lb_prefsValid b" "lb_profileID b \<noteq> []" "sc_Foreground c = []"
    and "SetServeConfig js wok b (Some c) etag = Inr (b', gone, warm)"
  shows "lb_serveConfig (reloadServeConfigLocked js (b \<lparr> lb_store := je_Marshal js c \<rparr>)) = Some c"
    and "b' = setTCPPortsInterceptedFromNetmapAndPrefsLocked js (b \<lparr> lb_store := je_Marshal js c \<rparr>)"
    and "lb_serveConfig b' = Some c" and "plain_dst b' = plain_dst b" and "lb_inv js b'"
proof -
  let ?b = "b \<lparr> lb_store := je_Marshal js c \<rparr>"
  have set: "setServeConfigLocked js wok b (Some c) etag = Inr (b', gone, warm)"
    using assms(6) by (simp add: SetServeConfig_def)
  obtain j where j: "je_Marshal js c = Some j" using assms(1) by (auto simp: json_ok_def)
  have sv: "self_valid b" using set by (auto simp: setServeConfigLocked_def self_valid_def split: if_splits option.splits)
  show b': "b' = setTCPPortsInterceptedFromNetmapAndPrefsLocked js ?b"
    using set j by (auto simp: setServeConfigLocked_def Let_def split: if_splits option.splits)
  have inv: "lb_inv js ?b" using assms(2) lb_inv_cong [of ?b b js] by simp
  show r: "lb_serveConfig (reloadServeConfigLocked js ?b) = Some c"
    by (rule reload_stored [OF assms(1) inv]) (use assms(3-5) sv in \<open>simp_all add: self_valid_def\<close>)
  then show "lb_serveConfig b' = Some c" unfolding b' by (simp add: setTCPPortsInterceptedFromNetmapAndPrefsLocked_def Let_def)
  show "plain_dst b' = plain_dst b"
    by (rule plain_dst_cong) (simp_all add: b' setTCPPortsInterceptedFromNetmapAndPrefsLocked_def Let_def)
  show "lb_inv js b'" by (rule set_inv [OF assms(2) set])
qed

lemma configured_handler:
  assumes "lb_serveConfig b = Some c" "sc_Foreground c = []" "plain_dst b ip port"
  shows "TCPHandlerForDst b src (AddrPort ip port) =
    (case map_of (sc_TCP c) port of None \<Rightarrow> None | Some h \<Rightarrow> tcpHandlerForServeTCP h)"
  using assms by (simp add: TCPHandlerForDst_plain tcpHandlerForServe_def FindTCP_def FindForegroundTCP_def)

text \<open>C32: A serve configuration that is accepted takes effect at once and survives in the store: after
  \<open>SetServeConfig\<close> succeeds on a logged-in node with a configuration without foreground sessions, that
  configuration is the one in use, the packet path intercepts exactly its non-zero ports beside SSH and the web
  client, and a connection to the node's own address on a port no built-in service takes gets
  the configured handler, or none for a port that is not configured.\<close>

theorem SetServeConfig_effective:
  assumes "json_ok js c" and "lb_inv js b" and "lb_prefsValid b" and "lb_profileID b \<noteq> []" and "sc_Foreground c = []"
    and "SetServeConfig js wok b (Some c) etag = Inr (b', gone, warm)"
  shows "lb_serveConfig b' = Some c \<and> lb_store b' = je_Marshal js c \<and> lb_inv js b'
    \<and> (0 < port \<longrightarrow> (ShouldInterceptTCPPort b' port \<longleftrightarrow>
          port = 22 \<and> lb_RunSSH b \<or> port = webClientPort \<and> ShouldExposeRemoteWebClient b \<or> map_of (sc_TCP c) port \<noteq> None))
    \<and> (plain_dst b ip port \<longrightarrow> TCPHandlerForDst b' src (AddrPort ip port) =
          (case map_of (sc_TCP c) port of None \<Rightarrow> None | Some h \<Rightarrow> tcpHandlerForServeTCP h))"
proof -
  note r = set_config_result [OF assms]
  have "lb_store b' = je_Marshal js c"
    unfolding r(2) setTCPPortsInterceptedFromNetmapAndPrefsLocked_def Let_def
    by (simp add: reloadServeConfigLocked_def Let_def split: option.split serve_config.split)
  moreover have "plain_dst b ip port \<longrightarrow> TCPHandlerForDst b' src (AddrPort ip port) =
      (case map_of (sc_TCP c) port of None \<Rightarrow> None | Some h \<Rightarrow> tcpHandlerForServeTCP h)"
    using configured_handler [OF r(3) assms(5), unfolded r(4)] by blast
  ultimately show ?thesis
    using r(3,5) intercepted_from_config [OF r(1) assms(5), of port] assms(3)
    unfolding ShouldInterceptTCPPort_def r(2) [symmetric] by (auto simp: ShouldExposeRemoteWebClient_def)
qed

definition demo_handler :: tcp_port_handler where
  "demo_handler = zero_handler \<lparr> TCPForward := ''127.0.0.1:8080'' \<rparr>"

definition demo_config :: serve_config where
  "demo_config = ServeConfig [(80, demo_handler)] [] [] [] []"

definition demo_json :: json_ops where
  "demo_json = \<lparr> je_Marshal = (\<lambda>c. if c = demo_config then Some ''conf'' else None),
     je_Unmarshal = (\<lambda>j. if j = ''conf'' then Some demo_config else None), je_ETag = (\<lambda>_. Some ''etag'') \<rparr>"

definition demo_backend :: local_backend where
  "demo_backend = \<lparr> lb_serveConfig = None, lb_lastServeConfJSON = [], lb_store = None, lb_prefsValid = True,
     lb_ShieldsUp = False, lb_RunSSH = False, lb_profileID = ''p1'', lb_configLocked = False,
     lb_netMap = Some (Some \<lparr> Addresses = [Prefix (AddrV4 0x64400001) 32], AllowedIPs = [] \<rparr>), lb_notifyWatchers = [],
     lb_intercept = (\<lambda>_. False), lb_ipVIPServiceMap = [], lb_webClient = False, lb_exposeRemoteWebClient = False,
     lb_peerAPIPorts = [] \<rparr>"

lemma demo_json_ok: "json_ok demo_json demo_config"
  by (simp add: json_ok_def demo_json_def)

lemma demo_inv: "lb_inv js demo_backend"
  by (simp add: lb_inv_def demo_backend_def)

theorem SetServeConfig_effective_witness:
  "\<exists>b' gone warm. SetServeConfig demo_json True demo_backend (Some demo_config) [] = Inr (b', gone, warm)
     \<and> ShouldInterceptTCPPort b' 80 \<and> \<not> ShouldInterceptTCPPort b' 81
     \<and> TCPHandlerForDst b' (AddrPort (AddrV4 0x64400009) 4000) (AddrPort (AddrV4 0x64400001) 80) = Some (Forward ''127.0.0.1:8080'' [] 0)"
proof -
  have "isl (SetServeConfig demo_json True demo_backend (Some demo_config) []) = False" by code_simp
  then obtain b' gone warm where s: "SetServeConfig demo_json True demo_backend (Some demo_config) [] = Inr (b', gone, warm)"
    by (cases "SetServeConfig demo_json True demo_backend (Some demo_config) []") auto
  have pre: "lb_prefsValid demo_backend" "lb_profileID demo_backend \<noteq> []" "sc_Foreground demo_config = []"
    "plain_dst demo_backend (AddrV4 0x64400001) 80" "\<not> lb_RunSSH demo_backend" "\<not> ShouldExposeRemoteWebClient demo_backend"
    "map_of (sc_TCP demo_config) 80 = Some demo_handler" "map_of (sc_TCP demo_config) 81 = None"
    "tcpHandlerForServeTCP demo_handler = Some (Forward ''127.0.0.1:8080'' [] 0)" by code_simp+
  note e = SetServeConfig_effective [OF demo_json_ok demo_inv pre(1-3) s]
  from e [of 80 "AddrV4 0x64400001" "AddrPort (AddrV4 0x64400009) 4000"]
    e [of 81 "AddrV4 0x64400001" "AddrPort (AddrV4 0x64400009) 4000"] pre s show ?thesis by simp
qed


section \<open>Updates that are accepted\<close>

text \<open>What validation lets through: a background port never takes over a foreground port nor changes the kind of
  service of a port, a new foreground session only opens free ports, and no service combines tun mode with
  handlers.\<close>

lemma first_error_member: "first_error f xs = None \<Longrightarrow> x \<in> set xs \<Longrightarrow> f x = None"
  by (simp add: first_error_None list_all_iff)

lemma validate_sound:
  assumes "validateServeConfigUpdate (Some ex) (Some inc) = None"
  shows "(port, h) \<in> set (sc_TCP inc) \<Longrightarrow> FindForegroundTCP ex port = None"
    and "(port, h) \<in> set (sc_TCP inc) \<Longrightarrow> FindTCP ex port = Some h' \<Longrightarrow> serveTypeFromPortHandler h = serveTypeFromPortHandler h'"
    and "(sid, fg) \<in> set (sc_Foreground inc) \<Longrightarrow> map_of (sc_Foreground ex) sid = None \<Longrightarrow> (port, h) \<in> set (TCPs fg) \<Longrightarrow>
      FindTCP ex port = None"
    and "(svc, cfg) \<in> set (sc_Services inc) \<Longrightarrow> svc_Tun cfg \<Longrightarrow> svc_TCP cfg = [] \<and> svc_Web cfg = []"
proof -
  have c: "check_tun inc = None" "check_new_foreground ex inc = None" "check_background ex inc = None" "check_types ex inc = None"
    using assms by (auto simp: validateServeConfigUpdate_def split: option.splits)
  show "(port, h) \<in> set (sc_TCP inc) \<Longrightarrow> FindForegroundTCP ex port = None"
    using first_error_member [OF c(3) [unfolded check_background_def], of "(port, h)"] by (auto split: if_splits)
  show "(port, h) \<in> set (sc_TCP inc) \<Longrightarrow> FindTCP ex port = Some h' \<Longrightarrow> serveTypeFromPortHandler h = serveTypeFromPortHandler h'"
    using first_error_member [OF c(4) [unfolded check_types_def], of "(port, h)"] by (auto split: if_splits)
  show "(svc, cfg) \<in> set (sc_Services inc) \<Longrightarrow> svc_Tun cfg \<Longrightarrow> svc_TCP cfg = [] \<and> svc_Web cfg = []"
    using first_error_member [OF c(1) [unfolded check_tun_def], of "(svc, cfg)"] by (auto split: if_splits)
  assume fg: "(sid, fg) \<in> set (sc_Foreground inc)" "map_of (sc_Foreground ex) sid = None" and p: "(port, h) \<in> set (TCPs fg)"
  have "first_error (\<lambda>(port, _). if FindTCP ex port \<noteq> None then Some (ListenerExists port) else None) (TCPs fg) = None"
    using first_error_member [OF c(2) [unfolded check_new_foreground_def] fg(1)] fg(2) by simp
  from first_error_member [OF this p] show "FindTCP ex port = None" by (auto split: if_splits)
qed


section \<open>Finding a reachable target\<close>

lemma target_addr_probed:
  assumes "net_ParseIP (st_host st) = None" "st_port st \<noteq> []" "st_cur st = []" "lookup (st_host st) = Some ips"
    and "i \<in> set ips" "probe (JoinHostPort i (st_port st))"
  shows "\<exists>k \<in> set ips. fst (target_addr lookup probe st) = JoinHostPort k (st_port st) \<and> probe (JoinHostPort k (st_port st))"
proof -
  obtain ip rest where ips: "ips = ip # rest" using assms(5) by (cases ips) auto
  let ?f = "\<lambda>cand. if probe cand then Some cand else None" and ?cs = "map (\<lambda>i. JoinHostPort i (st_port st)) ips"
  have "find_first ?f ?cs \<noteq> None" using assms(5,6) by (auto simp: find_first_None)
  then obtain y where y: "find_first ?f ?cs = Some y" by blast
  with find_first_Some [OF y] have "y \<in> set ?cs" "probe y" by (auto split: if_splits)
  moreover have "fst (target_addr lookup probe st) = y"
    using assms(1-4) y unfolding ips by (simp add: target_addr_def Let_def)
  ultimately show ?thesis by auto
qed

text \<open>C33: A connection finds a back end that is up: whatever address is pinned and whatever the first resolution gives,
  when the host name then resolves to addresses one of which can be dialled, probing an address tells whether
  it can be dialled, and none of them comes up between the two dials, \<open>dial\<close> returns a connection to an address
  that could be dialled.\<close>

theorem target_dial_finds:
  assumes "net_ParseIP (st_host st) = None" and "st_port st \<noteq> []" and "lookup (st_host st) = Some ips"
    and "\<forall>i \<in> set ips. probe (JoinHostPort i (st_port st)) = dial2 (JoinHostPort i (st_port st))"
    and "\<forall>i \<in> set ips. dial2 (JoinHostPort i (st_port st)) \<longrightarrow> dial1 (JoinHostPort i (st_port st))"
    and "i \<in> set ips" and "dial2 (JoinHostPort i (st_port st))"
  shows "\<exists>t. fst (target_dial env (lookup, probe) dial1 dial2 st) = Some t \<and> (dial1 t \<or> dial2 t)"
proof (cases "dial1 (fst (target_addr (fst env) (snd env) st))")
  case True
  then show ?thesis by (cases "target_addr (fst env) (snd env) st") (simp add: target_dial_def)
next
  case False
  obtain target st1 where a: "target_addr (fst env) (snd env) st = (target, st1)" by fastforce
  have st1: "st_host st1 = st_host st" "st_port st1 = st_port st"
    using a by (auto simp: target_addr_def Let_def split: if_splits option.splits list.splits)
  have inv: "st_cur (invalidate st1) = []" "st_host (invalidate st1) = st_host st" "st_port (invalidate st1) = st_port st"
    by (simp_all add: invalidate_def st1)
  obtain t2 st2 where a2: "target_addr lookup probe (invalidate st1) = (t2, st2)" by fastforce
  obtain k where "k \<in> set ips" "t2 = JoinHostPort k (st_port st)" "probe (JoinHostPort k (st_port st))"
    using target_addr_probed [of "invalidate st1" lookup ips i probe] assms a2 by (auto simp: inv)
  then have "dial2 t2" "dial1 t2" using assms(4,5) by simp_all
  moreover have "t2 \<noteq> target" using \<open>dial1 t2\<close> False a by auto
  ultimately show ?thesis using False a a2 by (simp add: target_dial_def)
qed

theorem target_dial_finds_witness:
  "\<exists>t. fst (target_dial (\<lambda>_. None, \<lambda>_. False) (\<lambda>_. Some [''10.0.0.1'', ''10.0.0.2''], \<lambda>a. a = ''10.0.0.2:80'') (\<lambda>a. a = ''10.0.0.2:80'')
     (\<lambda>a. a = ''10.0.0.2:80'') \<lparr> st_host = ''db'', st_port = ''80'', st_cur = ''10.0.0.9:80'' \<rparr>) = Some t \<and> t = ''10.0.0.2:80''"
proof -
  have "net_ParseIP ''db'' = None" by code_simp
  then show ?thesis
    using target_dial_finds [of "\<lparr> st_host = ''db'', st_port = ''80'', st_cur = ''10.0.0.9:80'' \<rparr>"
        "\<lambda>_. Some [''10.0.0.1'', ''10.0.0.2'']" "[''10.0.0.1'', ''10.0.0.2'']" "\<lambda>a. a = ''10.0.0.2:80''" "\<lambda>a. a = ''10.0.0.2:80''"
        "\<lambda>a. a = ''10.0.0.2:80''"
        "''10.0.0.2''" "(\<lambda>_. None, \<lambda>_. False)"]
    by (simp add: JoinHostPort_def)
qed

end
