(* ===== verification/CliTunnel.thy ===== *)
theory CliTunnel
  imports CliArgs NetstackRun ServeLocal
begin

text \<open>Running a tunnel: \<open>cmd/tunnneji-tail/cli/tunnel.go\<close> and \<open>cmd/tunnneji-tail/cli/engine.go\<close>.

  A group of ports is turned into the netstack's tables and into one serve configuration; client ports listen on the
  loopback interface and carry each connection and each datagram source into the network.  Name resolution, dialling
  and the random bytes are arguments.  A datagram's source is its printed form beside its address.\<close>

section \<open>Configuration\<close>

text \<open>A Go conversion to \<open>uint16\<close> keeps the low 16 bits.\<close>

definition uint16 :: "int \<Rightarrow> u16" where "uint16 n = of_int n"

definition createUserspaceEngine :: impl where
  "createUserspaceEngine = Create \<lparr> ProcessLocalIPs := True, ProcessSubnets := True \<rparr>"

definition UseNetstackForIP :: "addr \<Rightarrow> bool" where
  "UseNetstackForIP ip =
     (if Is4 ip then (let b4 = As4_bytes ip in b4 ! 0 = 100 \<and> 64 \<le> b4 ! 1 \<and> b4 ! 1 \<le> 127)
      else if Is6 ip then (let b = As16_bytes ip in b ! 0 = 0xfd \<and> b ! 1 = 0x7a)
      else False)"

definition or_empty :: "'a list option \<Rightarrow> 'a list" where
  "or_empty m = (case m of None \<Rightarrow> [] | Some xs \<Rightarrow> xs)"

definition configure_port :: "(string \<Rightarrow> string list option) \<Rightarrow> port_entry \<Rightarrow> impl \<Rightarrow> impl" where
  "configure_port lookup pe ns =
     (if \<not> IsServer pe then ns
      else
        let p = uint16 (ListenPort pe);
            allowed = or_empty (AllowedIPsForPort ns);
            allowed = (if pe_Accept pe \<noteq> [] then AList.update p (pe_Accept pe) allowed else allowed);
            pws = or_empty (PasswordForPort ns);
            pws = (if Password pe \<noteq> [] then AList.update p (Password pe) pws else pws);
            tgts = (case ParseAddr (resolveHost lookup (TargetAddr pe)) of
                Some hostIP \<Rightarrow> AList.update p (AddrPort hostIP (uint16 (TargetPort pe))) (ServeTargets ns)
              | None \<Rightarrow> ServeTargets ns) in
        ns \<lparr> AllowedIPsForPort := Some allowed, PasswordForPort := Some pws, ServeTargets := tgts \<rparr>)"

definition configure_netstack :: "(string \<Rightarrow> string list option) \<Rightarrow> tunnel_group \<Rightarrow> impl \<Rightarrow> impl" where
  "configure_netstack lookup grp ns =
     (let ns = fold (\<lambda>(_, pe). configure_port lookup pe) (Ports grp) ns in
      ns \<lparr> ns_DropICMP := DropICMP grp, StealthDrop := DropICMP grp \<rparr>)"

definition prefs_hostname :: "tunnel_group \<Rightarrow> string" where
  "prefs_hostname grp = (if Hostname grp \<noteq> [] then Hostname grp else ''tailscaled'')"

definition serve_entry :: "port_entry \<Rightarrow> (u16 \<times> tcp_port_handler) list \<Rightarrow> (u16 \<times> tcp_port_handler) list" where
  "serve_entry pe m =
     (if \<not> IsServer pe then m
      else AList.update (uint16 (ListenPort pe))
        (zero_handler \<lparr> TCPForward := TargetAddr pe @ '':'' @ show_int (TargetPort pe) \<rparr>) m)"

definition group_serve_config :: "tunnel_group \<Rightarrow> serve_config" where
  "group_serve_config grp = ServeConfig (fold (\<lambda>(_, pe). serve_entry pe) (Ports grp) []) [] [] [] []"

text \<open>The loop that applies the serve configuration sees one backend per attempt, each with whether the store can be
  written; it gives up after 60.  Nothing is applied when the group serves nothing.\<close>

fun set_serve_attempts ::
  "json_ops \<Rightarrow> nat \<Rightarrow> serve_config \<Rightarrow> (local_backend \<times> bool) list \<Rightarrow> local_backend option" where
  "set_serve_attempts js n conf [] = None"
| "set_serve_attempts js n conf ((b, writeOk) # bs) =
     (if n = 0 then None
      else case SetServeConfig js writeOk b (Some conf) [] of
          Inr (b', _) \<Rightarrow> Some b'
        | Inl _ \<Rightarrow> set_serve_attempts js (n - 1) conf bs)"

definition apply_serve_config :: "json_ops \<Rightarrow> tunnel_group \<Rightarrow> (local_backend \<times> bool) list \<Rightarrow> local_backend option" where
  "apply_serve_config js grp bs =
     (let conf = group_serve_config grp in
      if sc_TCP conf = [] then None else set_serve_attempts js 60 conf bs)"

text \<open>The network is ready when one of 30 looks at the network map finds a valid self node.\<close>

fun vpn_ready :: "nat \<Rightarrow> network_map option list \<Rightarrow> bool" where
  "vpn_ready n [] = False"
| "vpn_ready n (nm # nms) = (0 < n \<and> (case nm of Some (Some _) \<Rightarrow> True | _ \<Rightarrow> vpn_ready (n - 1) nms))"

definition client_listens :: "network_map option list \<Rightarrow> bool" where
  "client_listens nms = vpn_ready 30 nms"

definition label :: "string \<Rightarrow> string" where
  "label sub = (if sub = [] then ''-'' else sub)"

definition portSub :: "string \<Rightarrow> string" where
  "portSub portKey =
     (if 1 < length portKey \<and> list_ex is_digit (drop 1 portKey)
      then takeWhile (\<lambda>c. \<not> is_digit c) (drop 1 portKey) else [])"


section \<open>TCP connections of a client port\<close>

definition accept_ok :: "port_entry \<Rightarrow> addr \<Rightarrow> bool" where
  "accept_ok pe srcIP \<longleftrightarrow> pe_Accept pe = [] \<or> list_ex (\<lambda>pfx. pfx_Contains pfx srcIP) (pe_Accept pe)"

definition dial_target :: "(string \<Rightarrow> string list option) \<Rightarrow> port_entry \<Rightarrow> string" where
  "dial_target lookup pe = resolveHost lookup (TargetAddr pe) @ '':'' @ show_int (TargetPort pe)"

text \<open>The outcome of \<open>handleConn\<close>: the connection is filtered, cannot be dialled, cannot agree on keys, or bytes are
  copied, plainly or through a writer and a reader.\<close>

datatype 'c client_conn = ConnFiltered | ConnDialFailed | ConnKeyFailed io_error | ConnPlain string
  | ConnEncrypted string "'c chacha_writer" "'c chacha_reader"

definition handleConn ::
  "(string \<Rightarrow> string list option) \<Rightarrow> (string \<Rightarrow> (byte list list \<times> wconn) option) \<Rightarrow> (byte list \<Rightarrow> byte list) \<Rightarrow> 'c cipher_ops
     \<Rightarrow> byte list option \<Rightarrow> port_entry \<Rightarrow> addr option \<Rightarrow> 'c client_conn" where
  "handleConn lookup UserDial Sum256 ops rnd pe remoteTCPAddr =
     (if (case remoteTCPAddr of Some srcIP \<Rightarrow> \<not> accept_ok pe srcIP | None \<Rightarrow> False) then ConnFiltered
      else
        let target = dial_target lookup pe in
        case UserDial target of
          None \<Rightarrow> ConnDialFailed
        | Some (input, output) \<Rightarrow>
            if Password pe = [] then ConnPlain target
            else
              let key = DeriveKey Sum256 (Password pe) in
              case fst (NewChacha20Writer ops rnd output key) of
                Inl e \<Rightarrow> ConnKeyFailed e
              | Inr enc \<Rightarrow>
                 (case fst (NewChacha20Reader ops input key) of
                    Inl e \<Rightarrow> ConnKeyFailed e
                  | Inr dec \<Rightarrow> ConnEncrypted target enc dec))"


section \<open>Datagrams of a client port\<close>

text \<open>A session is a connection into the network, numbered in the order of dialling.\<close>

record udp_session =
  us_remote :: nat
  us_local :: string
  us_encryptKey :: "byte list option"

text \<open>The state of \<open>handleUDP\<close> and of its \<open>udpRemoteToLocal\<close> goroutines: the session table, the running goroutines, the
  closed connections, the source (with its address) each connection was dialled for, and what was written, to a
  connection on behalf of a source or to a local address on behalf of a connection.  \<open>uh_write\<close> is the datagram between the lookup of its session and the write.\<close>

record udp_handler =
  uh_sessions :: "(string \<times> udp_session) list"
  uh_running :: "udp_session list"
  uh_closed :: "nat list"
  uh_dialled :: "(string \<times> addr) list"
  uh_write :: "(string \<times> udp_session \<times> byte list) option"
  uh_toVPN :: "(string \<times> nat \<times> byte list) list"
  uh_toLocal :: "(string \<times> nat \<times> byte list) list"

definition udp_start :: udp_handler where
  "udp_start = \<lparr> uh_sessions = [], uh_running = [], uh_closed = [], uh_dialled = [], uh_write = None,
     uh_toVPN = [], uh_toLocal = [] \<rparr>"

definition udp_key :: "(byte list \<Rightarrow> byte list) \<Rightarrow> port_entry \<Rightarrow> byte list option" where
  "udp_key Sum256 pe = (if Password pe \<noteq> [] then Some (DeriveKey Sum256 (Password pe)) else None)"

text \<open>A datagram arrives at the local socket: filter, then find or dial the session.\<close>

definition udp_recv :: "byte list option \<Rightarrow> port_entry \<Rightarrow> string \<Rightarrow> addr \<Rightarrow> byte list \<Rightarrow> bool \<Rightarrow> udp_handler \<Rightarrow> udp_handler" where
  "udp_recv key pe src srcIP data dialOk h =
     (if \<not> accept_ok pe srcIP then h
      else case map_of (uh_sessions h) src of
          Some sess \<Rightarrow> h \<lparr> uh_write := Some (src, sess, data) \<rparr>
        | None \<Rightarrow>
            if \<not> dialOk then h
            else
              let sess = \<lparr> us_remote = length (uh_dialled h), us_local = src, us_encryptKey = key \<rparr> in
              h \<lparr> uh_dialled := uh_dialled h @ [(src, srcIP)], uh_sessions := AList.update src sess (uh_sessions h),
                  uh_running := sess # uh_running h, uh_write := Some (src, sess, data) \<rparr>)"

text \<open>The datagram is encrypted when the port has a password and written to the session's connection; a failed write
  ends the session.\<close>

definition udp_write :: "'c cipher_ops \<Rightarrow> byte list option \<Rightarrow> byte list option \<Rightarrow> bool \<Rightarrow> udp_handler \<Rightarrow> udp_handler" where
  "udp_write ops key rnd writeOk h =
     (case uh_write h of
        None \<Rightarrow> h
      | Some (src, sess, data) \<Rightarrow>
          let h = h \<lparr> uh_write := None \<rparr> in
          case (case key of Some k \<Rightarrow> EncryptUDPPacket ops rnd data k | None \<Rightarrow> Inr data) of
            Inl e \<Rightarrow> h
          | Inr pkt \<Rightarrow>
              if writeOk then h \<lparr> uh_toVPN := (src, us_remote sess, pkt) # uh_toVPN h \<rparr>
              else h \<lparr> uh_sessions := AList.delete src (uh_sessions h), uh_closed := us_remote sess # uh_closed h \<rparr>)"

text \<open>The end of \<open>udpRemoteToLocal\<close>: the session leaves the table if it is still there, and its connection is closed.\<close>

definition udp_end :: "udp_session \<Rightarrow> udp_handler \<Rightarrow> udp_handler" where
  "udp_end sess h =
     h \<lparr> uh_sessions := (if map_of (uh_sessions h) (us_local sess) = Some sess
                        then AList.delete (us_local sess) (uh_sessions h) else uh_sessions h),
         uh_running := remove1 sess (uh_running h), uh_closed := us_remote sess # uh_closed h \<rparr>"

text \<open>A read of \<open>udpRemoteToLocal\<close>: an error ends it, a datagram that cannot be decrypted is skipped, any other is sent to
  the session's local source.\<close>

definition udp_reply :: "'c cipher_ops \<Rightarrow> udp_session \<Rightarrow> io_error + byte list \<Rightarrow> bool \<Rightarrow> udp_handler \<Rightarrow> udp_handler" where
  "udp_reply ops sess read writeOk h =
     (case read of
        Inl e \<Rightarrow> udp_end sess h
      | Inr pkt \<Rightarrow>
         (case (case us_encryptKey sess of Some k \<Rightarrow> DecryptUDPPacket ops pkt k | None \<Rightarrow> Inr pkt) of
            Inl e \<Rightarrow> h
          | Inr data \<Rightarrow>
              if writeOk then h \<lparr> uh_toLocal := (us_local sess, us_remote sess, data) # uh_toLocal h \<rparr>
              else udp_end sess h))"

text \<open>All interleavings of the reading loop and the goroutines of the sessions.\<close>

inductive udp_reach :: "'c cipher_ops \<Rightarrow> byte list option \<Rightarrow> port_entry \<Rightarrow> udp_handler \<Rightarrow> bool"
  for ops :: "'c cipher_ops" and key :: "byte list option" and pe :: port_entry
where
  udp_init: "udp_reach ops key pe udp_start"
| udp_recv: "udp_reach ops key pe h \<Longrightarrow> uh_write h = None \<Longrightarrow>
    udp_reach ops key pe (udp_recv key pe src srcIP data dialOk h)"
| udp_write: "udp_reach ops key pe h \<Longrightarrow> udp_reach ops key pe (udp_write ops key rnd writeOk h)"
| udp_reply: "udp_reach ops key pe h \<Longrightarrow> sess \<in> set (uh_running h) \<Longrightarrow>
    udp_reach ops key pe (udp_reply ops sess read writeOk h)"


section \<open>What the netstack is told\<close>

text \<open>The server ports of a list of ports, as 16-bit numbers.\<close>

definition served_ports :: "(string \<times> port_entry) list \<Rightarrow> u16 list" where
  "served_ports ports = map (\<lambda>pe. uint16 (ListenPort pe)) (filter IsServer (map snd ports))"

lemma served_ports_simps [simp]:
  "served_ports [] = []"
  "served_ports (x # xs) = (if IsServer (snd x) then [uint16 (ListenPort (snd x))] else []) @ served_ports xs"
  by (simp_all add: served_ports_def)

lemma served_ports_mem: "(k, pe) \<in> set ports \<Longrightarrow> IsServer pe \<Longrightarrow> uint16 (ListenPort pe) \<in> set (served_ports ports)"
  by (force simp: served_ports_def)

abbreviation add_ports :: "(string \<Rightarrow> string list option) \<Rightarrow> (string \<times> port_entry) list \<Rightarrow> impl \<Rightarrow> impl" where
  "add_ports lookup ports ns \<equiv> fold (\<lambda>(_, pe). configure_port lookup pe) ports ns"

lemma configure_port_other:
  assumes "IsServer pe \<longrightarrow> uint16 (ListenPort pe) \<noteq> p"
  shows "port_password (configure_port lookup pe ns) p = port_password ns p"
    and "source_allowed (configure_port lookup pe ns) p a = source_allowed ns p a"
    and "map_of (ServeTargets (configure_port lookup pe ns)) p = map_of (ServeTargets ns) p"
  using assms
  by (auto simp: configure_port_def port_password_def source_allowed_def or_empty_def update_conv' Let_def split: option.split)

lemma configure_port_own:
  assumes "IsServer pe" "port_password ns (uint16 (ListenPort pe)) = None" "\<forall>a. source_allowed ns (uint16 (ListenPort pe)) a"
    and "map_of (ServeTargets ns) (uint16 (ListenPort pe)) = None"
  shows "port_password (configure_port lookup pe ns) (uint16 (ListenPort pe)) = (if Password pe = [] then None else Some (Password pe))"
    and "pe_Accept pe \<noteq> [] \<Longrightarrow> source_allowed (configure_port lookup pe ns) (uint16 (ListenPort pe)) a = accept_ok pe a"
    and "pe_Accept pe = [] \<Longrightarrow> source_allowed (configure_port lookup pe ns) (uint16 (ListenPort pe)) a"
    and "map_of (ServeTargets (configure_port lookup pe ns)) (uint16 (ListenPort pe)) =
      map_option (\<lambda>ip. AddrPort ip (uint16 (TargetPort pe))) (ParseAddr (resolveHost lookup (TargetAddr pe)))"
  using assms
  by (auto simp: configure_port_def port_password_def source_allowed_def or_empty_def accept_ok_def update_conv' Let_def
      split: option.splits if_splits)

lemma add_ports_other:
  assumes "p \<notin> set (served_ports ports)"
  shows "port_password (add_ports lookup ports ns) p = port_password ns p
    \<and> source_allowed (add_ports lookup ports ns) p a = source_allowed ns p a
    \<and> map_of (ServeTargets (add_ports lookup ports ns)) p = map_of (ServeTargets ns) p"
  using assms
proof (induction ports arbitrary: ns)
  case (Cons x ports)
  then have "IsServer (snd x) \<longrightarrow> uint16 (ListenPort (snd x)) \<noteq> p" "p \<notin> set (served_ports ports)"
    by (auto split: if_splits)
  with Cons.IH [of "configure_port lookup (snd x) ns"] configure_port_other [of "snd x" p lookup ns] show ?case
    by (simp add: case_prod_unfold)
qed simp

definition port_configured :: "(string \<Rightarrow> string list option) \<Rightarrow> port_entry \<Rightarrow> impl \<Rightarrow> bool" where
  "port_configured lookup pe ns \<longleftrightarrow>
     port_password ns (uint16 (ListenPort pe)) = (if Password pe = [] then None else Some (Password pe))
     \<and> (\<forall>a. source_allowed ns (uint16 (ListenPort pe)) a = accept_ok pe a)
     \<and> map_of (ServeTargets ns) (uint16 (ListenPort pe)) =
         map_option (\<lambda>ip. AddrPort ip (uint16 (TargetPort pe))) (ParseAddr (resolveHost lookup (TargetAddr pe)))"

text \<open>Ports that are distinct as 16-bit numbers are all configured as their entries say.\<close>

lemma add_ports_configured:
  assumes "distinct (served_ports ports)" "(k, pe) \<in> set ports" "IsServer pe"
    and "\<forall>p. port_password ns p = None \<and> (\<forall>a. source_allowed ns p a) \<and> map_of (ServeTargets ns) p = None \<or> p \<notin> set (served_ports ports)"
  shows "port_configured lookup pe (add_ports lookup ports ns)"
  using assms
proof (induction ports arbitrary: ns)
  case (Cons x ports)
  let ?ns = "configure_port lookup (snd x) ns" and ?p = "uint16 (ListenPort pe)"
  have step: "add_ports lookup (x # ports) ns = add_ports lookup ports ?ns" by (simp add: case_prod_unfold)
  show ?case
  proof (cases "snd x = pe \<and> ?p \<notin> set (served_ports ports)")
    case True
    then have fresh: "port_password ns ?p = None" "\<forall>a. source_allowed ns ?p a" "map_of (ServeTargets ns) ?p = None"
      using Cons.prems(3,4) by auto
    note own = configure_port_own [OF Cons.prems(3) fresh, of lookup]
    have "source_allowed ?ns ?p a = accept_ok pe a" for a
      using own(2,3) True by (cases "pe_Accept pe = []") (auto simp: accept_ok_def)
    with own True add_ports_other [of ?p ports lookup ?ns] show ?thesis unfolding port_configured_def step by simp
  next
    case False
    have sub: "set (served_ports ports) \<subseteq> set (served_ports (x # ports))" by auto
    have d: "distinct (served_ports ports)" using Cons.prems(1) by (auto split: if_splits)
    have m: "(k, pe) \<in> set ports"
      using Cons.prems(1-3) False by (cases x) (auto split: if_splits)
    have o: "port_password ?ns p = port_password ns p \<and> (\<forall>a. source_allowed ?ns p a = source_allowed ns p a)
        \<and> map_of (ServeTargets ?ns) p = map_of (ServeTargets ns) p" if "p \<in> set (served_ports ports)" for p
    proof -
      have "IsServer (snd x) \<longrightarrow> uint16 (ListenPort (snd x)) \<noteq> p"
        using Cons.prems(1) that by (auto split: if_splits)
      from configure_port_other [OF this] show ?thesis by blast
    qed
    have "port_password ?ns p = None \<and> (\<forall>a. source_allowed ?ns p a) \<and> map_of (ServeTargets ?ns) p = None
        \<or> p \<notin> set (served_ports ports)" for p
      using o [of p] sub Cons.prems(4) by (cases "p \<in> set (served_ports ports)") (simp, metis subsetD, simp)
    then show ?thesis unfolding step by (intro Cons.IH [OF d m Cons.prems(3)] allI)
  qed
qed simp

lemma engine_fresh:
  "port_password createUserspaceEngine p = None" "source_allowed createUserspaceEngine p a"
  "map_of (ServeTargets createUserspaceEngine) p = None"
  by (simp_all add: createUserspaceEngine_def Create_def port_password_def source_allowed_def)

lemma port_configured_cong:
  assumes "PasswordForPort ns' = PasswordForPort ns" "AllowedIPsForPort ns' = AllowedIPsForPort ns" "ServeTargets ns' = ServeTargets ns"
  shows "port_configured lookup pe ns' = port_configured lookup pe ns"
  unfolding port_configured_def port_password_def source_allowed_def assms ..

lemma configured_by_group:
  assumes "distinct (served_ports (Ports g))" "(k, pe) \<in> set (Ports g)" "IsServer pe"
    and "Start (configure_netstack lookup g createUserspaceEngine) True = Some ns"
  shows "port_configured lookup pe ns" "ns_lb ns"
proof -
  let ?ns = "add_ports lookup (Ports g) createUserspaceEngine"
  have c: "port_configured lookup pe ?ns"
    by (rule add_ports_configured [OF assms(1-3)]) (simp add: engine_fresh)
  have ns: "ns = ?ns \<lparr> ns_DropICMP := DropICMP g, StealthDrop := DropICMP g, ns_lb := True, ns_ready := True \<rparr>"
    using assms(4) unfolding Start_def configure_netstack_def Let_def by (simp split: if_split_asm)
  show "ns_lb ns" unfolding ns by simp
  have "port_configured lookup pe ns = port_configured lookup pe ?ns" unfolding ns by (rule port_configured_cong) simp_all
  with c show "port_configured lookup pe ns" by simp
qed

lemma configure_port_ready: "ns_ready (configure_port lookup pe ns) = ns_ready ns"
  unfolding configure_port_def Let_def by simp

lemma add_ports_ready: "ns_ready (add_ports lookup ports ns) = ns_ready ns"
  by (induction ports arbitrary: ns) (simp_all add: configure_port_ready case_prod_unfold)

text \<open>Starting the configured netstack never panics.\<close>

lemma Start_configured: "\<exists>ns. Start (configure_netstack lookup g createUserspaceEngine) True = Some ns"
proof -
  have "\<not> ns_ready createUserspaceEngine" by (simp add: createUserspaceEngine_def Create_def)
  then have "\<not> ns_ready (configure_netstack lookup g createUserspaceEngine)"
    unfolding configure_netstack_def Let_def by (simp add: add_ports_ready)
  then show ?thesis by (simp add: Start_def)
qed


section \<open>What the backend is told\<close>

abbreviation add_entries :: "(string \<times> port_entry) list \<Rightarrow> (u16 \<times> tcp_port_handler) list \<Rightarrow> (u16 \<times> tcp_port_handler) list" where
  "add_entries ports m \<equiv> fold (\<lambda>(_, pe). serve_entry pe) ports m"

lemma serve_entries_other: "p \<notin> set (served_ports ports) \<Longrightarrow> map_of (add_entries ports m) p = map_of m p"
  by (induction ports arbitrary: m) (auto simp: serve_entry_def update_conv' split: if_splits)

lemma serve_entries:
  assumes "distinct (served_ports ports)" "(k, pe) \<in> set ports" "IsServer pe"
  shows "map_of (add_entries ports m) (uint16 (ListenPort pe)) =
    Some (zero_handler \<lparr> TCPForward := TargetAddr pe @ '':'' @ show_int (TargetPort pe) \<rparr>)"
  using assms
proof (induction ports arbitrary: m)
  case (Cons x ports)
  show ?case
  proof (cases "(k, pe) \<in> set ports")
    case True
    then show ?thesis using Cons by (cases x) (auto split: if_splits)
  next
    case False
    then have x: "x = (k, pe)" and u: "uint16 (ListenPort pe) \<notin> set (served_ports ports)" using Cons.prems by auto
    have "add_entries (x # ports) m = add_entries ports (serve_entry pe m)" by (simp add: x)
    then have "map_of (add_entries (x # ports) m) (uint16 (ListenPort pe)) = map_of (serve_entry pe m) (uint16 (ListenPort pe))"
      by (simp only: serve_entries_other [OF u])
    also have "\<dots> = Some (zero_handler \<lparr> TCPForward := TargetAddr pe @ '':'' @ show_int (TargetPort pe) \<rparr>)"
      using Cons.prems(3) by (simp add: serve_entry_def update_conv')
    finally show ?thesis .
  qed
qed simp

text \<open>The handler of a forward.\<close>

abbreviation forward_to :: "port_entry \<Rightarrow> serve_handler" where
  "forward_to pe \<equiv> Forward (TargetAddr pe @ '':'' @ show_int (TargetPort pe)) [] 0"

text \<open>The backends of the attempts belong to a logged-in node.\<close>

definition attempts_ok :: "json_ops \<Rightarrow> (local_backend \<times> bool) list \<Rightarrow> bool" where
  "attempts_ok js bs \<longleftrightarrow> list_all (\<lambda>(b, _). lb_inv js b \<and> lb_prefsValid b \<and> lb_profileID b \<noteq> []) bs"

lemma attempts_result:
  assumes "json_ok js c" "sc_Foreground c = []" "attempts_ok js bs" "set_serve_attempts js n c bs = Some b'"
  shows "lb_serveConfig b' = Some c \<and> lb_inv js b'"
  using assms(3,4)
proof (induction bs arbitrary: n)
  case (Cons x bs)
  obtain b wok where x: "x = (b, wok)" by (metis surj_pair)
  obtain m where n: "n = Suc m" using Cons.prems(2) by (cases n) (auto simp: x)
  show ?case
  proof (cases "SetServeConfig js wok b (Some c) []")
    case (Inl e)
    then show ?thesis using Cons.IH [of m] Cons.prems by (simp add: x n attempts_ok_def)
  next
    case (Inr y)
    obtain gone warm where y: "SetServeConfig js wok b (Some c) [] = Inr (b', gone, warm)"
      using Inr Cons.prems(2) by (cases y) (simp add: x n)
    have "lb_inv js b" "lb_prefsValid b" "lb_profileID b \<noteq> []" using Cons.prems(1) by (simp_all add: x attempts_ok_def)
    from set_config_result(3,5) [OF assms(1) this assms(2) y] show ?thesis by simp
  qed
qed simp

lemma group_handler:
  assumes "json_ok js (group_serve_config g)" "attempts_ok js bs" "apply_serve_config js g bs = Some b"
    and "plain_dst b ip p"
  shows "TCPHandlerForDst b src (AddrPort ip p) =
    (case map_of (add_entries (Ports g) []) p of None \<Rightarrow> None | Some h \<Rightarrow> tcpHandlerForServeTCP h)"
proof -
  have c: "sc_Foreground (group_serve_config g) = []" by (simp add: group_serve_config_def)
  have "set_serve_attempts js 60 (group_serve_config g) bs = Some b"
    using assms(3) by (simp add: apply_serve_config_def Let_def del: set_serve_attempts.simps split: if_splits)
  from attempts_result [OF assms(1) c assms(2) this] have "lb_serveConfig b = Some (group_serve_config g)" by simp
  from configured_handler [OF this c assms(4)] show ?thesis by (simp add: group_serve_config_def)
qed

lemma group_handler_served:
  assumes "json_ok js (group_serve_config g)" "attempts_ok js bs" "apply_serve_config js g bs = Some b"
    and "distinct (served_ports (Ports g))" "(k, pe) \<in> set (Ports g)" "IsServer pe" "plain_dst b ip (uint16 (ListenPort pe))"
  shows "TCPHandlerForDst b src (AddrPort ip (uint16 (ListenPort pe))) = Some (forward_to pe)"
  unfolding group_handler [OF assms(1-3,7)] serve_entries [OF assms(4-6)]
  by (simp add: tcpHandlerForServeTCP_def zero_handler_def)


text \<open>An attempt in time is enough, and only the first 60 count.\<close>

lemma attempts_succeed:
  assumes "i < n" "i < length bs" "bs ! i = (b, wok)" "SetServeConfig js wok b (Some c) [] = Inr x"
  shows "\<exists>b'. set_serve_attempts js n c bs = Some b'"
  using assms
proof (induction bs arbitrary: i n)
  case (Cons y bs)
  obtain m where n: "n = Suc m" using Cons.prems(1) by (cases n) auto
  show ?case
  proof (cases i)
    case 0
    then show ?thesis using Cons.prems by (cases x) (simp add: n)
  next
    case (Suc j)
    then show ?thesis using Cons.prems Cons.IH [of j m] by (cases y) (auto simp: n split: sum.split)
  qed
qed simp

lemma vpn_ready_iff: "vpn_ready n nms \<longleftrightarrow> (\<exists>i < n. i < length nms \<and> (\<exists>s. nms ! i = Some (Some s)))"
proof (induction nms arbitrary: n)
  case (Cons nm nms)
  then show ?case by (cases n) (auto simp: Ex_less_Suc2 split: option.split)
qed simp

text \<open>Client ports wait for a channel that only the first 30 looks can close: a network that comes up later never
  starts them.\<close>

lemma late_network_ignored:
  assumes "list_all (\<lambda>nm. \<nexists>s. nm = Some (Some s)) nms" "30 \<le> length nms"
  shows "\<not> client_listens (nms @ later)"
  using assms by (auto simp: client_listens_def vpn_ready_iff nth_append list_all_length)


section \<open>Ports of a parsed command line\<close>

definition ports_in_range :: "(string \<times> port_entry) list \<Rightarrow> bool" where
  "ports_in_range ports = list_all (\<lambda>(_, pe). IsServer pe \<longrightarrow> 0 \<le> ListenPort pe \<and> ListenPort pe < 65536) ports"

lemma uint16_inj: "0 \<le> a \<Longrightarrow> a < 65536 \<Longrightarrow> 0 \<le> b \<Longrightarrow> b < 65536 \<Longrightarrow> uint16 a = uint16 b \<longleftrightarrow> a = b"
  by (simp add: uint16_def word_of_int_eq_iff take_bit_eq_mod)

lemma distinct_served:
  assumes "distinct (map (\<lambda>(k, pe). dir_of pe @ show_int (ListenPort pe)) ports)" "ports_in_range ports"
  shows "distinct (served_ports ports)"
  using assms
proof (induction ports)
  case (Cons x ports)
  have "uint16 (ListenPort (snd x)) \<notin> set (served_ports ports)" if "IsServer (snd x)"
  proof
    assume "uint16 (ListenPort (snd x)) \<in> set (served_ports ports)"
    then obtain k pe where pe: "(k, pe) \<in> set ports" "IsServer pe" "uint16 (ListenPort pe) = uint16 (ListenPort (snd x))"
      by (auto simp: served_ports_def)
    then have "ListenPort pe = ListenPort (snd x)"
      using Cons.prems(2) that uint16_inj [of "ListenPort pe" "ListenPort (snd x)"]
      by (fastforce simp: ports_in_range_def list_all_iff)
    then have "dir_of pe @ show_int (ListenPort pe) = dir_of (snd x) @ show_int (ListenPort (snd x))"
      using pe(2) that by (simp add: dir_of_def)
    then have "(\<lambda>(k, pe). dir_of pe @ show_int (ListenPort pe)) x \<in> (\<lambda>(k, pe). dir_of pe @ show_int (ListenPort pe)) ` set ports"
      using pe(1) by (intro image_eqI [of _ _ "(k, pe)"]) (simp_all add: case_prod_unfold)
    with Cons.prems(1) show False by simp
  qed
  with Cons show ?case by (simp add: ports_in_range_def)
qed simp

lemma parsed_ports_distinct:
  assumes "parseTunnelArgs stat ord args = Inr gs" "ord_ok ord" "g \<in> set gs" "ports_in_range (Ports g)"
  shows "distinct (served_ports (Ports g))"
proof -
  from assms obtain st n rg where "scan_args args empty_scan = Inr st" and c: "checked_group stat st n = Inr rg"
    and b: "build_group ord n rg = Inr g" by (metis parseTunnelArgs_groups)
  then have inv: "scan_inv (flag_pairs args) st" by (intro scan_of)
  obtain used where "ports_inv n rg (group_entries ord n rg) (used, Ports g)" using result_group [OF inv c assms(2) b] .
  then show ?thesis using assms(4) by (intro distinct_served) (simp_all add: ports_inv_def)
qed


section \<open>A request to a served port\<close>

lemma accept_configured:
  assumes "port_configured lookup pe ns" "ns_lb ns" "LocalPort r = uint16 (ListenPort pe)"
    and "req_handler env r = Some h" "\<not> to_service (req_dial r)"
  shows "fst (acceptTCP env ns pm r) =
    (if \<not> addr_IsValid (req_client r) then TcpReset
     else if \<not> accept_ok pe (req_client r) then TcpIgnored
     else if \<not> CreateEndpoint env then TcpReset
     else if Password pe = [] then TcpServed h
     else case req_encrypt env (Password pe) of Inl _ \<Rightarrow> TcpEncryptFailed | Inr c \<Rightarrow> TcpServedEncrypted h c)"
proof -
  have "source_allowed ns (LocalPort r) (req_client r) = accept_ok pe (req_client r)"
    "port_password ns (LocalPort r) = (if Password pe = [] then None else Some (Password pe))"
    using assms(1) by (simp_all add: port_configured_def assms(3))
  then show ?thesis
    unfolding fst_acceptTCP accept_action_handled [OF assms(2,4)] using assms(5) by simp
qed

lemma udp_configured:
  assumes "port_configured lookup pe ns"
    and "forwardUDP ListenUDP ns pm client (AddrPort ip (uint16 (ListenPort pe))) = (UdpForwarding f, pm')"
  shows "accept_ok pe (ap_Addr client) \<and> uf_password f = (if Password pe = [] then None else Some (Password pe))
    \<and> (\<forall>host. ParseAddr (resolveHost lookup (TargetAddr pe)) = Some host \<longrightarrow>
         backendRemoteAddr f = AddrPort host (uint16 (TargetPort pe)))"
proof -
  let ?p = "uint16 (ListenPort pe)"
  have c: "source_allowed ns ?p a = accept_ok pe a" "port_password ns ?p = (if Password pe = [] then None else Some (Password pe))"
    "map_of (ServeTargets ns) ?p = map_option (\<lambda>ip. AddrPort ip (uint16 (TargetPort pe))) (ParseAddr (resolveHost lookup (TargetAddr pe)))" for a
    using assms(1) by (simp_all add: port_configured_def)
  obtain remote listen isLocal where b: "udp_backend ns client (AddrPort ip ?p) = (remote, listen, isLocal)" by (metis surj_pair)
  have s: "source_allowed ns ?p (ap_Addr client)" "uf_password f = port_password ns ?p" "backendRemoteAddr f = remote"
    using assms(2) b by (auto simp: forwardUDP_def Let_def split: if_splits option.splits sum.splits)
  have "remote = AddrPort host (uint16 (TargetPort pe))" if "ParseAddr (resolveHost lookup (TargetAddr pe)) = Some host" for host
    using b c(3) that by (simp add: udp_backend_def Let_def)
  then show ?thesis using s c(1,2) by auto
qed

text \<open>A port nothing is configured for has neither filter nor password.\<close>

lemma unconfigured_port:
  assumes "p \<notin> set (served_ports (Ports g))" "Start (configure_netstack lookup g createUserspaceEngine) True = Some ns"
  shows "port_password ns p = None" "source_allowed ns p a" "ns_lb ns"
proof -
  let ?ns = "add_ports lookup (Ports g) createUserspaceEngine"
  have ns: "ns = ?ns \<lparr> ns_DropICMP := DropICMP g, StealthDrop := DropICMP g, ns_lb := True, ns_ready := True \<rparr>"
    using assms(2) unfolding Start_def configure_netstack_def Let_def by (simp split: if_split_asm)
  have "port_password ns p = port_password ?ns p" "source_allowed ns p a = source_allowed ?ns p a"
    unfolding ns port_password_def source_allowed_def by simp_all
  then show "port_password ns p = None" "source_allowed ns p a"
    using add_ports_other [OF assms(1), of lookup createUserspaceEngine a] by (simp_all add: engine_fresh)
  show "ns_lb ns" unfolding ns by simp
qed

text \<open>The serve configuration of an earlier run survives in the state file.  A run without server ports never
  replaces it, so its ports are still served, now without the filter and the password they had.\<close>

lemma stale_port_served_plain:
  assumes "json_ok js c" "lb_inv js b" "self_valid b" "lb_prefsValid b" "lb_profileID b \<noteq> []"
    and "lb_store b = je_Marshal js c" "sc_Foreground c = []" "map_of (sc_TCP c) (LocalPort r) = Some th" "tcpHandlerForServeTCP th = Some h"
    and "served_ports (Ports g) = []" "Start (configure_netstack lookup g createUserspaceEngine) True = Some ns"
    and "env_TCPHandlerForDst env = TCPHandlerForDst (setTCPPortsInterceptedFromNetmapAndPrefsLocked js b)"
    and "plain_dst b (req_dst r) (LocalPort r)" "\<not> to_service (req_dial r)" "addr_IsValid (req_client r)" "CreateEndpoint env"
  shows "apply_serve_config js g bs = None \<and> fst (acceptTCP env ns pm r) = TcpServed h"
proof -
  let ?b = "setTCPPortsInterceptedFromNetmapAndPrefsLocked js b"
  have conf: "lb_serveConfig ?b = Some c"
    using reload_stored [OF assms(1-7)] by (simp add: setTCPPortsInterceptedFromNetmapAndPrefsLocked_def Let_def)
  have "plain_dst ?b = plain_dst b"
    by (rule plain_dst_cong) (simp_all add: setTCPPortsInterceptedFromNetmapAndPrefsLocked_def Let_def)
  then have h: "req_handler env r = Some h"
    using configured_handler [OF conf assms(7)] assms(8,9,13) by (simp add: assms(12))
  have none: "LocalPort r \<notin> set (served_ports (Ports g))" using assms(10) by simp
  note u = unconfigured_port [OF none assms(11)]
  have "fst (acceptTCP env ns pm r) = TcpServed h"
    unfolding fst_acceptTCP accept_action_handled [OF u(3) h] using u(1,2) assms(14-16) by simp
  moreover have "add_entries ports m = m" if "served_ports ports = []" for ports m
    using that by (induction ports arbitrary: m) (auto simp: serve_entry_def split: if_splits)
  then have "apply_serve_config js g bs = None"
    using assms(10) by (simp add: apply_serve_config_def group_serve_config_def)
  ultimately show ?thesis by simp
qed

text \<open>An IPv6 target is written in brackets, which \<open>ParseAddr\<close> refuses, so UDP to such a port has no target of its
  own.\<close>

lemma ipv6_target_unset:
  assumes "net_ParseIP (trimBrackets host) = Some ip" "ip_To4 ip = None"
  shows "ParseAddr (resolveHost lookup host) = None"
  using assms by (simp add: resolveHost_def formatIP_def ParseAddr_bracket)


section \<open>Sessions of a client port\<close>

text \<open>A session is known: its connection was dialled for its local source, under the port's key.\<close>

definition known :: "byte list option \<Rightarrow> udp_handler \<Rightarrow> udp_session \<Rightarrow> bool" where
  "known key h s \<longleftrightarrow> us_remote s < length (uh_dialled h) \<and> fst (uh_dialled h ! us_remote s) = us_local s \<and> us_encryptKey s = key"

definition udp_table_ok :: "udp_handler \<Rightarrow> bool" where
  "udp_table_ok h \<longleftrightarrow> distinct (map fst (uh_sessions h))
     \<and> (\<forall>(k, s) \<in> set (uh_sessions h). us_local s = k \<and> s \<in> set (uh_running h) \<and> us_remote s \<notin> set (uh_closed h))
     \<and> (\<forall>src s d. uh_write h = Some (src, s, d) \<longrightarrow> us_local s = src \<and> map_of (uh_sessions h) src \<in> {None, Some s})"

definition udp_running_ok :: "byte list option \<Rightarrow> port_entry \<Rightarrow> udp_handler \<Rightarrow> bool" where
  "udp_running_ok key pe h \<longleftrightarrow> (\<forall>s \<in> set (uh_running h). known key h s) \<and> distinct (map us_remote (uh_running h))
     \<and> (\<forall>src s d. uh_write h = Some (src, s, d) \<longrightarrow> known key h s)
     \<and> set (uh_closed h) \<subseteq> {..<length (uh_dialled h)}
     \<and> {..<length (uh_dialled h)} \<subseteq> set (uh_closed h) \<union> us_remote ` set (uh_running h)
     \<and> (\<forall>x \<in> set (uh_dialled h). accept_ok pe (snd x))"

definition udp_logs_ok :: "'c cipher_ops \<Rightarrow> byte list option \<Rightarrow> udp_handler \<Rightarrow> bool" where
  "udp_logs_ok ops key h \<longleftrightarrow>
     (\<forall>(src, n, pkt) \<in> set (uh_toVPN h). n < length (uh_dialled h) \<and> fst (uh_dialled h ! n) = src
        \<and> (\<forall>k. key = Some k \<longrightarrow> (\<exists>rnd data. EncryptUDPPacket ops rnd data k = Inr pkt)))
     \<and> (\<forall>(dst, n, data) \<in> set (uh_toLocal h). n < length (uh_dialled h) \<and> fst (uh_dialled h ! n) = dst
        \<and> (\<forall>k. key = Some k \<longrightarrow> (\<exists>pkt. DecryptUDPPacket ops pkt k = Inr data)))"

definition udp_inv :: "'c cipher_ops \<Rightarrow> byte list option \<Rightarrow> port_entry \<Rightarrow> udp_handler \<Rightarrow> bool" where
  "udp_inv ops key pe h \<longleftrightarrow> udp_table_ok h \<and> udp_running_ok key pe h \<and> udp_logs_ok ops key h"

lemma udp_inv_start: "udp_inv ops key pe udp_start"
  by (simp add: udp_inv_def udp_table_ok_def udp_running_ok_def udp_logs_ok_def udp_start_def)

lemma udp_inv_end:
  assumes "udp_inv ops key pe h" "s \<in> set (uh_running h)"
  shows "udp_inv ops key pe (udp_end s h)"
proof -
  have t: "udp_table_ok h" and r: "udp_running_ok key pe h" and l: "udp_logs_ok ops key h" using assms(1) by (simp_all add: udp_inv_def)
  have d: "distinct (map us_remote (uh_running h))" and k: "known key h s" using r assms(2) by (simp_all add: udp_running_ok_def)
  have uniq: "x = s" if "x \<in> set (uh_running h)" "us_remote x = us_remote s" for x
    using d that assms(2) by (auto simp: distinct_map dest: inj_onD)
  have rem: "set (remove1 s (uh_running h)) = set (uh_running h) - {s}" using d by (simp add: set_remove1_eq distinct_map)
  have keep: "x \<noteq> s" if "(k, x) \<in> set (uh_sessions (udp_end s h))" for k x
  proof
    assume "x = s"
    then have "(k, s) \<in> set (uh_sessions h)" using that by (auto simp: udp_end_def AList.delete_eq split: if_splits)
    moreover from this t have "us_local s = k" by (auto simp: udp_table_ok_def)
    ultimately have "map_of (uh_sessions h) (us_local s) = Some s" using t by (simp add: udp_table_ok_def)
    with that \<open>x = s\<close> \<open>us_local s = k\<close> show False by (auto simp: udp_end_def AList.delete_eq)
  qed
  have "udp_table_ok (udp_end s h)"
    unfolding udp_table_ok_def
  proof (intro conjI)
    show "distinct (map fst (uh_sessions (udp_end s h)))" using t by (simp add: udp_end_def udp_table_ok_def AList.distinct_delete)
    have sub: "set (uh_sessions (udp_end s h)) \<subseteq> set (uh_sessions h)" by (auto simp: udp_end_def AList.delete_eq)
    show "\<forall>(k, x) \<in> set (uh_sessions (udp_end s h)). us_local x = k \<and> x \<in> set (uh_running (udp_end s h))
        \<and> us_remote x \<notin> set (uh_closed (udp_end s h))"
    proof clarify
      fix k x assume x: "(k, x) \<in> set (uh_sessions (udp_end s h))"
      with sub t have "us_local x = k" "x \<in> set (uh_running h)" "us_remote x \<notin> set (uh_closed h)" by (auto simp: udp_table_ok_def)
      with keep [OF x] uniq show "us_local x = k \<and> x \<in> set (uh_running (udp_end s h)) \<and> us_remote x \<notin> set (uh_closed (udp_end s h))"
        by (auto simp: udp_end_def rem)
    qed
    have m: "map_of (uh_sessions (udp_end s h)) j \<in> {None, map_of (uh_sessions h) j}" for j
      by (simp add: udp_end_def AList.delete_conv')
    have w: "uh_write (udp_end s h) = uh_write h" by (simp add: udp_end_def)
    show "\<forall>src x d. uh_write (udp_end s h) = Some (src, x, d) \<longrightarrow>
        us_local x = src \<and> map_of (uh_sessions (udp_end s h)) src \<in> {None, Some x}"
      unfolding w
    proof (intro allI impI conjI)
      fix src x d assume "uh_write h = Some (src, x, d)"
      then have "us_local x = src" "map_of (uh_sessions h) src \<in> {None, Some x}" using t unfolding udp_table_ok_def by blast+
      then show "us_local x = src" "map_of (uh_sessions (udp_end s h)) src \<in> {None, Some x}" using m [of src] by auto
    qed
  qed
  moreover have "udp_running_ok key pe (udp_end s h)"
    using r k d by (auto simp: udp_running_ok_def udp_end_def known_def rem distinct_map inj_on_def)
  moreover have "udp_logs_ok ops key (udp_end s h)" using l by (simp add: udp_logs_ok_def udp_end_def)
  ultimately show ?thesis by (simp add: udp_inv_def)
qed


lemma update_fresh: "map_of m k = None \<Longrightarrow> AList.update k v m = m @ [(k, v)]"
  by (induction m) (auto split: if_splits)

lemma known_more: "known key h s \<Longrightarrow> uh_dialled h' = uh_dialled h @ xs \<Longrightarrow> known key h' s"
  by (simp add: known_def nth_append)

lemma udp_inv_recv:
  assumes inv: "udp_inv ops key pe h" and idle: "uh_write h = None"
  shows "udp_inv ops key pe (udp_recv key pe src srcIP data dialOk h)"
proof -
  have t: "udp_table_ok h" and r: "udp_running_ok key pe h" and l: "udp_logs_ok ops key h" using inv by (simp_all add: udp_inv_def)
  consider "udp_recv key pe src srcIP data dialOk h = h"
    | s where "map_of (uh_sessions h) src = Some s" "udp_recv key pe src srcIP data dialOk h = h \<lparr> uh_write := Some (src, s, data) \<rparr>"
    | "accept_ok pe srcIP" "map_of (uh_sessions h) src = None"
      "udp_recv key pe src srcIP data dialOk h =
        (let sess = \<lparr> us_remote = length (uh_dialled h), us_local = src, us_encryptKey = key \<rparr> in
         h \<lparr> uh_dialled := uh_dialled h @ [(src, srcIP)], uh_sessions := AList.update src sess (uh_sessions h),
             uh_running := sess # uh_running h, uh_write := Some (src, sess, data) \<rparr>)"
    by (cases "accept_ok pe srcIP"; cases "map_of (uh_sessions h) src"; cases dialOk) (simp_all add: udp_recv_def)
  then show ?thesis
  proof cases
    case 1
    then show ?thesis using inv by simp
  next
    case 2
    from 2(1) have "(src, s) \<in> set (uh_sessions h)" by (rule map_of_SomeD)
    with t r have "us_local s = src" "known key h s" by (auto simp: udp_table_ok_def udp_running_ok_def)
    with t r l 2(1) show ?thesis
      unfolding 2(2) udp_inv_def udp_table_ok_def udp_running_ok_def udp_logs_ok_def known_def by auto
  next
    case 3
    let ?s = "\<lparr> us_remote = length (uh_dialled h), us_local = src, us_encryptKey = key \<rparr>"
    let ?h = "h \<lparr> uh_dialled := uh_dialled h @ [(src, srcIP)], uh_sessions := AList.update src ?s (uh_sessions h),
             uh_running := ?s # uh_running h, uh_write := Some (src, ?s, data) \<rparr>"
    have old: "us_remote x < length (uh_dialled h)" if "x \<in> set (uh_running h)" for x
      using r that by (auto simp: udp_running_ok_def known_def)
    have fresh: "length (uh_dialled h) \<notin> set (uh_closed h)" using r by (auto simp: udp_running_ok_def)
    have upd: "set (AList.update src ?s (uh_sessions h)) = insert (src, ?s) (set (uh_sessions h))"
      using 3(2) by (simp add: update_fresh)
    have "udp_table_ok ?h"
      unfolding udp_table_ok_def using t fresh upd by (auto simp: udp_table_ok_def AList.distinct_update update_conv')
    moreover have "udp_running_ok key pe ?h"
    proof -
      have "\<forall>x \<in> set (uh_running ?h). known key ?h x"
        using r known_more [of key h _ ?h "[(src, srcIP)]"] by (auto simp: udp_running_ok_def known_def nth_append)
      moreover have "distinct (map us_remote (uh_running ?h))" using r old less_irrefl by (fastforce simp: udp_running_ok_def)
      moreover have "{..<length (uh_dialled ?h)} \<subseteq> set (uh_closed ?h) \<union> us_remote ` set (uh_running ?h)"
        using r by (auto simp: udp_running_ok_def less_Suc_eq)
      ultimately show ?thesis using r 3(1) by (auto simp: udp_running_ok_def known_def)
    qed
    moreover have "udp_logs_ok ops key ?h" using l by (auto simp: udp_logs_ok_def nth_append)
    ultimately show ?thesis unfolding 3(3) Let_def udp_inv_def by blast
  qed
qed

lemma udp_inv_write:
  assumes inv: "udp_inv ops key pe h"
  shows "udp_inv ops key pe (udp_write ops key rnd writeOk h)"
proof (cases "uh_write h")
  case None
  then show ?thesis using inv by (simp add: udp_write_def)
next
  case (Some x)
  obtain src s data where w: "uh_write h = Some (src, s, data)" using Some by (cases x) auto
  let ?h = "h \<lparr> uh_write := None \<rparr>"
  have t: "udp_table_ok h" and r: "udp_running_ok key pe h" and l: "udp_logs_ok ops key h" using inv by (simp_all add: udp_inv_def)
  have k: "known key h s" "us_local s = src" using t r w by (auto simp: udp_table_ok_def udp_running_ok_def)
  have inv': "udp_inv ops key pe ?h"
    using t r l by (auto simp: udp_inv_def udp_table_ok_def udp_running_ok_def udp_logs_ok_def known_def)
  let ?e = "case key of Some k \<Rightarrow> EncryptUDPPacket ops rnd data k | None \<Rightarrow> Inr data"
  show ?thesis
  proof (cases ?e)
    case (Inl e)
    then show ?thesis using inv' w by (simp add: udp_write_def)
  next
    case (Inr pkt)
    have res: "udp_write ops key rnd writeOk h =
        (if writeOk then ?h \<lparr> uh_toVPN := (src, us_remote s, pkt) # uh_toVPN h \<rparr>
         else ?h \<lparr> uh_sessions := AList.delete src (uh_sessions h), uh_closed := us_remote s # uh_closed h \<rparr>)"
      using w Inr by (simp add: udp_write_def Let_def)
    have enc: "\<exists>rnd data. EncryptUDPPacket ops rnd data k = Inr pkt" if "key = Some k" for k
      using Inr that by auto
    show ?thesis
    proof (cases writeOk)
      case True
      let ?h' = "?h \<lparr> uh_toVPN := (src, us_remote s, pkt) # uh_toVPN h \<rparr>"
      have "udp_table_ok ?h'" "udp_running_ok key pe ?h'"
        using inv' by (simp_all add: udp_inv_def udp_table_ok_def udp_running_ok_def known_def)
      moreover have "udp_logs_ok ops key ?h'" using l k enc by (simp add: udp_logs_ok_def known_def)
      ultimately show ?thesis unfolding res if_P [OF True] udp_inv_def by blast
    next
      case False
      have others: "us_remote y \<noteq> us_remote s" if "(k', y) \<in> set (uh_sessions h)" "k' \<noteq> src" for k' y
      proof
        assume e: "us_remote y = us_remote s"
        from that(1) t r have "known key h y" "us_local y = k'" by (auto simp: udp_table_ok_def udp_running_ok_def)
        with e k that(2) show False by (simp add: known_def)
      qed
      let ?h' = "?h \<lparr> uh_sessions := AList.delete src (uh_sessions h), uh_closed := us_remote s # uh_closed h \<rparr>"
      from others have "udp_table_ok ?h'"
        using t by (auto simp: udp_table_ok_def AList.delete_eq distinct_map_filter inj_on_def)
      moreover have "udp_running_ok key pe ?h'" using r k by (auto simp: udp_running_ok_def known_def)
      moreover have "udp_logs_ok ops key ?h'" using l by (simp add: udp_logs_ok_def)
      ultimately show ?thesis unfolding res if_not_P [OF False] udp_inv_def by blast
    qed
  qed
qed


lemma udp_inv_reply:
  assumes inv: "udp_inv ops key pe h" and s: "s \<in> set (uh_running h)"
  shows "udp_inv ops key pe (udp_reply ops s read writeOk h)"
proof -
  have k: "known key h s" using assms by (simp add: udp_inv_def udp_running_ok_def)
  have "udp_inv ops key pe (h \<lparr> uh_toLocal := (us_local s, us_remote s, data) # uh_toLocal h \<rparr>)"
    if "\<forall>k. key = Some k \<longrightarrow> (\<exists>pkt. DecryptUDPPacket ops pkt k = Inr data)" for data
    using inv k that by (auto simp: udp_inv_def udp_table_ok_def udp_running_ok_def udp_logs_ok_def known_def)
  moreover have "us_encryptKey s = key" using k by (simp add: known_def)
  ultimately show ?thesis
    using inv udp_inv_end [OF assms] unfolding udp_reply_def
    by (auto split: sum.split option.splits) blast
qed

lemma udp_reach_inv: "udp_reach ops key pe h \<Longrightarrow> udp_inv ops key pe h"
  by (induction rule: udp_reach.induct) (auto intro: udp_inv_start udp_inv_recv udp_inv_write udp_inv_reply)

text \<open>C36: The UDP sessions of a client port never mix: however the reading loop and the reply goroutines
  interleave, each connection belongs to the one source it was dialled for, a source the port's filter
  accepts; what is written to a connection comes from that source and what a connection delivers goes to
  that source, encrypted and decrypted under the port's key when it has a password; a session in the table
  is its source's, is being read and is not closed; and no connection leaks: each one is closed or
  still being read.\<close>

theorem udp_sessions_isolated:
  assumes "udp_reach ops (udp_key Sum256 pe) pe h"
  shows "(\<forall>(src, n, pkt) \<in> set (uh_toVPN h). n < length (uh_dialled h) \<and> fst (uh_dialled h ! n) = src
      \<and> (Password pe \<noteq> [] \<longrightarrow> (\<exists>rnd data. EncryptUDPPacket ops rnd data (DeriveKey Sum256 (Password pe)) = Inr pkt)))
    \<and> (\<forall>(dst, n, data) \<in> set (uh_toLocal h). n < length (uh_dialled h) \<and> fst (uh_dialled h ! n) = dst
      \<and> (Password pe \<noteq> [] \<longrightarrow> (\<exists>pkt. DecryptUDPPacket ops pkt (DeriveKey Sum256 (Password pe)) = Inr data)))
    \<and> (\<forall>n < length (uh_dialled h). accept_ok pe (snd (uh_dialled h ! n))
      \<and> (n \<in> set (uh_closed h) \<or> n \<in> us_remote ` set (uh_running h)))
    \<and> (\<forall>src s. map_of (uh_sessions h) src = Some s \<longrightarrow>
        us_local s = src \<and> s \<in> set (uh_running h) \<and> us_remote s \<notin> set (uh_closed h))"
proof -
  have inv: "udp_table_ok h" "udp_running_ok (udp_key Sum256 pe) pe h" "udp_logs_ok ops (udp_key Sum256 pe) h"
    using udp_reach_inv [OF assms] by (simp_all add: udp_inv_def)
  have "\<forall>n < length (uh_dialled h). accept_ok pe (snd (uh_dialled h ! n)) \<and> (n \<in> set (uh_closed h) \<or> n \<in> us_remote ` set (uh_running h))"
    using inv(2) by (auto simp: udp_running_ok_def)
  moreover have "us_local s = src \<and> s \<in> set (uh_running h) \<and> us_remote s \<notin> set (uh_closed h)" if "map_of (uh_sessions h) src = Some s" for src s
    using inv(1) map_of_SomeD [OF that] by (auto simp: udp_table_ok_def)
  ultimately show ?thesis using inv(3) by (auto simp: udp_logs_ok_def udp_key_def)
qed

definition demo_client :: port_entry where
  "demo_client = \<lparr> IsServer = False, ListenPort = 70, TargetAddr = ''100.64.0.1'', TargetPort = 80, pe_Accept = [], Password = ''pw'' \<rparr>"

definition demo_sum :: "byte list \<Rightarrow> byte list" where
  "demo_sum bs = replicate 32 (hd bs)"

definition demo_udp :: udp_handler where
  "demo_udp = (let key = udp_key demo_sum demo_client;
       h = udp_write demo_cipher key (Some (replicate 12 1)) True
         (udp_recv key demo_client ''c1'' (AddrV4 0x7f000001) [4] True udp_start);
       h = udp_write demo_cipher key (Some (replicate 12 2)) True
         (udp_recv key demo_client ''c2'' (AddrV4 0x7f000001) [5] True h) in
     udp_reply demo_cipher (hd (uh_running h)) (Inr (replicate 13 3)) True h)"

theorem udp_sessions_isolated_witness:
  "map fst (uh_toVPN demo_udp) = [''c2'', ''c1''] \<and> map fst (uh_toLocal demo_udp) = [''c2'']
   \<and> fst (uh_dialled demo_udp ! fst (snd (hd (uh_toVPN demo_udp)))) = ''c2''
   \<and> fst (uh_dialled demo_udp ! fst (snd (hd (uh_toLocal demo_udp)))) = ''c2''"
proof -
  let ?key = "udp_key demo_sum demo_client"
  let ?h1 = "udp_write demo_cipher ?key (Some (replicate 12 1)) True (udp_recv ?key demo_client ''c1'' (AddrV4 0x7f000001) [4] True udp_start)"
  let ?h2 = "udp_write demo_cipher ?key (Some (replicate 12 2)) True (udp_recv ?key demo_client ''c2'' (AddrV4 0x7f000001) [5] True ?h1)"
  have idle: "uh_write udp_start = None" "uh_write ?h1 = None" "uh_running ?h2 \<noteq> []" by code_simp+
  have "udp_reach demo_cipher ?key demo_client ?h2"
    by (intro udp_reach.intros idle(1,2))
  moreover have "hd (uh_running ?h2) \<in> set (uh_running ?h2)" using idle(3) by (rule hd_in_set)
  ultimately have "udp_reach demo_cipher ?key demo_client demo_udp"
    unfolding demo_udp_def Let_def by (rule udp_reach.udp_reply)
  note iso = udp_sessions_isolated [OF this]
  have c: "map fst (uh_toVPN demo_udp) = [''c2'', ''c1'']" "map fst (uh_toLocal demo_udp) = [''c2'']" by code_simp+
  then have "hd (uh_toVPN demo_udp) \<in> set (uh_toVPN demo_udp)" "fst (hd (uh_toVPN demo_udp)) = ''c2''"
    "hd (uh_toLocal demo_udp) \<in> set (uh_toLocal demo_udp)" "fst (hd (uh_toLocal demo_udp)) = ''c2''"
    by (auto simp: map_eq_Cons_conv)
  with iso c show ?thesis by (auto simp: case_prod_unfold)
qed


section \<open>The nonce exchange\<close>

text \<open>The two ends of a password-protected connection, running at the same time.  Each end makes two calls:
  \<open>handleConn\<close> makes its writer and then its reader, \<open>newEncryptedTCPConn\<close> its reader and then its writer.  An
  end holds how far it got, the chunks that arrived and were not read, the bytes on their way to it, and the
  writing side of its connection.\<close>

datatype 'c hs_phase = HsStart | HsWriter "'c chacha_writer" | HsReader "'c chacha_reader"
  | HsOpen "'c chacha_writer" "'c chacha_reader" | HsFailed io_error

record 'c hs_end =
  he_phase :: "'c hs_phase"
  he_arrived :: "byte list list"
  he_flight :: "byte list"
  he_out :: wconn

datatype hs_call = CallWriter | CallReader | NoCall

fun client_next :: "'c hs_phase \<Rightarrow> hs_call" where
  "client_next HsStart = CallWriter"
| "client_next (HsWriter _) = CallReader"
| "client_next _ = NoCall"

fun server_next :: "'c hs_phase \<Rightarrow> hs_call" where
  "server_next HsStart = CallReader"
| "server_next (HsReader _) = CallWriter"
| "server_next _ = NoCall"

text \<open>An error ends the exchange; a success is kept, and with both the end is open.\<close>

definition made_writer :: "'c hs_phase \<Rightarrow> io_error + 'c chacha_writer \<Rightarrow> 'c hs_phase" where
  "made_writer ph res = (case res of Inl e \<Rightarrow> HsFailed e
     | Inr enc \<Rightarrow> (case ph of HsReader dec \<Rightarrow> HsOpen enc dec | _ \<Rightarrow> HsWriter enc))"

definition made_reader :: "'c hs_phase \<Rightarrow> io_error + 'c chacha_reader \<Rightarrow> 'c hs_phase" where
  "made_reader ph res = (case res of Inl e \<Rightarrow> HsFailed e
     | Inr dec \<Rightarrow> (case ph of HsWriter enc \<Rightarrow> HsOpen enc dec | _ \<Rightarrow> HsReader dec))"

fun do_call :: "'c cipher_ops \<Rightarrow> byte list option \<Rightarrow> byte list \<Rightarrow> hs_call \<Rightarrow> 'c hs_end \<Rightarrow> 'c hs_end" where
  "do_call ops rnd key CallWriter e =
     (case NewChacha20Writer ops rnd (he_out e) key of (res, w) \<Rightarrow> e \<lparr> he_phase := made_writer (he_phase e) res, he_out := w \<rparr>)"
| "do_call ops rnd key CallReader e =
     (case NewChacha20Reader ops (he_arrived e) key of (res, r) \<Rightarrow> e \<lparr> he_phase := made_reader (he_phase e) res, he_arrived := r \<rparr>)"
| "do_call ops rnd key NoCall e = e"

text \<open>What each function returns when its end is done.\<close>

definition client_result :: "string \<Rightarrow> 'c hs_phase \<Rightarrow> 'c client_conn option" where
  "client_result target ph = (case ph of HsOpen enc dec \<Rightarrow> Some (ConnEncrypted target enc dec)
     | HsFailed e \<Rightarrow> Some (ConnKeyFailed e) | _ \<Rightarrow> None)"

definition server_result :: "'c hs_phase \<Rightarrow> (io_error + 'c encrypted_conn) option" where
  "server_result ph = (case ph of HsOpen enc dec \<Rightarrow> Some (Inr \<lparr> encWriter = enc, decReader = dec \<rparr>)
     | HsFailed e \<Rightarrow> Some (Inl e) | _ \<Rightarrow> None)"

text \<open>Making a reader blocks until the nonce has arrived, or until the other end has failed, and so closed the
  connection, and nothing is on its way any more.\<close>

definition hs_failed :: "'c hs_end \<Rightarrow> bool" where
  "hs_failed e = (case he_phase e of HsFailed _ \<Rightarrow> True | _ \<Rightarrow> False)"

definition can_call :: "hs_call \<Rightarrow> 'c hs_end \<Rightarrow> 'c hs_end \<Rightarrow> bool" where
  "can_call call e peer = (case call of
       CallWriter \<Rightarrow> True
     | CallReader \<Rightarrow> Chacha20NonceLen \<le> length (concat (he_arrived e)) \<or> hs_failed peer \<and> he_flight e = []
     | NoCall \<Rightarrow> False)"

definition hs_send :: "'c hs_end \<Rightarrow> 'c hs_end \<Rightarrow> 'c hs_end \<Rightarrow> 'c hs_end" where
  "hs_send e e' peer = peer \<lparr> he_flight := he_flight peer @ drop (length (sent (he_out e))) (sent (he_out e')) \<rparr>"

definition hs_deliver :: "nat \<Rightarrow> 'c hs_end \<Rightarrow> 'c hs_end" where
  "hs_deliver k e = e \<lparr> he_arrived := he_arrived e @ [take k (he_flight e)], he_flight := drop k (he_flight e) \<rparr>"

text \<open>A step is a call of one end, whose bytes then are on their way, or the arrival of some bytes.\<close>

inductive hs_step ::
  "'c cipher_ops \<Rightarrow> byte list option \<Rightarrow> byte list \<Rightarrow> byte list option \<Rightarrow> byte list
     \<Rightarrow> 'c hs_end \<times> 'c hs_end \<Rightarrow> 'c hs_end \<times> 'c hs_end \<Rightarrow> bool"
  for ops rc kc rs ks where
  client: "can_call (client_next (he_phase c)) c s \<Longrightarrow> c' = do_call ops rc kc (client_next (he_phase c)) c
    \<Longrightarrow> hs_step ops rc kc rs ks (c, s) (c', hs_send c c' s)"
| server: "can_call (server_next (he_phase s)) s c \<Longrightarrow> s' = do_call ops rs ks (server_next (he_phase s)) s
    \<Longrightarrow> hs_step ops rc kc rs ks (c, s) (hs_send s s' c, s')"
| to_client: "0 < k \<Longrightarrow> k \<le> length (he_flight c) \<Longrightarrow> hs_step ops rc kc rs ks (c, s) (hs_deliver k c, s)"
| to_server: "0 < k \<Longrightarrow> k \<le> length (he_flight s) \<Longrightarrow> hs_step ops rc kc rs ks (c, s) (c, hs_deliver k s)"

inductive_cases hs_stepE: "hs_step ops rc kc rs ks (c, s) y"

definition hs_start :: "wconn \<Rightarrow> 'c hs_end" where
  "hs_start w = \<lparr> he_phase = HsStart, he_arrived = [], he_flight = [], he_out = w \<rparr>"

text \<open>Alone, with all its input there, an end that makes its two calls computes what its function returns.\<close>

lemma handleConn_calls:
  assumes "Password pe \<noteq> []" "case src of None \<Rightarrow> True | Some ip \<Rightarrow> accept_ok pe ip" "UserDial (dial_target lookup pe) = Some (input, w)"
    and "e = (hs_start w) \<lparr> he_arrived := input \<rparr>"
    and "call = (\<lambda>e. do_call ops rnd (DeriveKey Sum256 (Password pe)) (client_next (he_phase e)) e)"
  shows "client_result (dial_target lookup pe) (he_phase (call (call e))) = Some (handleConn lookup UserDial Sum256 ops rnd pe src)"
proof -
  have "\<not> (case src of Some srcIP \<Rightarrow> \<not> accept_ok pe srcIP | None \<Rightarrow> False)" using assms(2) by (simp split: option.splits)
  then show ?thesis using assms(1,3) unfolding assms(4,5)
    by (simp add: handleConn_def hs_start_def made_writer_def made_reader_def client_result_def Let_def case_prod_unfold
        split: sum.splits)
qed

lemma newEncryptedTCPConn_calls:
  assumes "e = (hs_start w) \<lparr> he_arrived := input \<rparr>"
    and "call = (\<lambda>e. do_call ops rnd (DeriveKey Sum256 pw) (server_next (he_phase e)) e)"
  shows "server_result (he_phase (call (call e))) = Some (newEncryptedTCPConn Sum256 ops rnd input w pw)"
  unfolding assms by (simp add: newEncryptedTCPConn_def hs_start_def made_writer_def made_reader_def server_result_def Let_def
      case_prod_unfold split: sum.splits)

text \<open>Every step makes progress: an end has this much work left, counting the bytes on their way to it.\<close>

definition client_work :: "'c hs_end \<Rightarrow> nat" where
  "client_work e = (case he_phase e of HsStart \<Rightarrow> 14 | HsWriter _ \<Rightarrow> 1 | _ \<Rightarrow> 0) + length (he_flight e)"

definition server_work :: "'c hs_end \<Rightarrow> nat" where
  "server_work e = (case he_phase e of HsStart \<Rightarrow> 14 | HsReader _ \<Rightarrow> 13 | _ \<Rightarrow> 0) + length (he_flight e)"

definition nonce12 :: "byte list option \<Rightarrow> bool" where
  "nonce12 rnd \<longleftrightarrow> (\<forall>n. rnd = Some n \<longrightarrow> length n = 12)"

definition can_write :: "byte list option \<Rightarrow> wconn \<Rightarrow> bool" where
  "can_write rnd w \<longleftrightarrow> rnd \<noteq> None \<and> \<not> broken w"

lemma NewChacha20Writer_outcome:
  assumes "cipher_ok ops" "length key = 32" "nonce12 rnd"
  shows "if can_write rnd w
    then \<exists>enc. NewChacha20Writer ops rnd w key = (Inr enc, w \<lparr> sent := sent w @ the rnd \<rparr>)
    else \<exists>e. NewChacha20Writer ops rnd w key = (Inl e, w)"
proof (cases rnd)
  case (Some n)
  with assms(3) have "length n = 12" by (simp add: nonce12_def)
  then obtain c where "NewUnauthenticatedCipher ops key n = Some c" using cipher_okD(1) [OF assms(1,2)] by blast
  then show ?thesis by (simp add: Some NewChacha20Writer_def can_write_def conn_Write_def)
qed (simp add: NewChacha20Writer_def can_write_def)

lemma NewChacha20Writer_okE:
  assumes "cipher_ok ops" "length key = 32" "nonce12 rnd" "can_write rnd w"
  obtains enc where "NewChacha20Writer ops rnd w key = (Inr enc, w \<lparr> sent := sent w @ the rnd \<rparr>)"
  using NewChacha20Writer_outcome [OF assms(1-3), of w] assms(4) by auto

lemma NewChacha20Writer_failE:
  assumes "cipher_ok ops" "length key = 32" "nonce12 rnd" "\<not> can_write rnd w"
  obtains e where "NewChacha20Writer ops rnd w key = (Inl e, w)"
  using NewChacha20Writer_outcome [OF assms(1-3), of w] assms(4) by auto

lemma NewChacha20Reader_closed: "concat r = [] \<Longrightarrow> fst (NewChacha20Reader ops r key) = Inl EOF"
proof -
  have "fst (ReadFull r 12 []) = Inl EOF" if "concat r = []" for r using that by (induction r) auto
  then show "concat r = [] \<Longrightarrow> fst (NewChacha20Reader ops r key) = Inl EOF"
    by (simp add: NewChacha20Reader_def prod_eq_iff split: prod.splits sum.splits)
qed

lemma NewChacha20Reader_ok:
  assumes "cipher_ok ops" "length key = 32" "12 \<le> length (concat r)"
  shows "\<exists>dec. fst (NewChacha20Reader ops r key) = Inr dec"
proof -
  obtain r' where "ReadFull r 12 [] = (Inr (take 12 (concat r)), r')" using ReadFull_enough [of 12 "[]" r] assms(3) by auto
  moreover obtain c where "NewUnauthenticatedCipher ops key (take 12 (concat r)) = Some c"
    using cipher_okD(1) [OF assms(1,2), of "take 12 (concat r)"] assms(3) by auto
  ultimately show ?thesis by (simp add: NewChacha20Reader_def)
qed

text \<open>What reached an end, and that a reader was made from exactly these bytes.\<close>

definition he_total :: "'c hs_end \<Rightarrow> byte list" where
  "he_total e = concat (he_arrived e) @ he_flight e"

definition reads_nonce :: "'c cipher_ops \<Rightarrow> byte list \<Rightarrow> byte list \<Rightarrow> 'c chacha_reader \<Rightarrow> bool" where
  "reads_nonce ops key n dec \<longleftrightarrow> (\<exists>r. concat r = n \<and> fst (NewChacha20Reader ops r key) = Inr dec)"

definition hs_inv ::
  "'c cipher_ops \<Rightarrow> byte list option \<Rightarrow> byte list \<Rightarrow> byte list option \<Rightarrow> byte list \<Rightarrow> wconn \<Rightarrow> wconn \<Rightarrow> 'c hs_end \<Rightarrow> 'c hs_end \<Rightarrow> bool" where
  "hs_inv ops rc kc rs ks wc ws c s =
     (let cw = fst (NewChacha20Writer ops rc wc kc); sw = fst (NewChacha20Writer ops rs ws ks) in
      case (he_phase c, he_phase s) of
        (HsStart, HsStart) \<Rightarrow> he_out c = wc \<and> he_out s = ws \<and> he_total c = [] \<and> he_total s = []
      | (HsFailed e, HsStart) \<Rightarrow> \<not> can_write rc wc \<and> cw = Inl e \<and> he_out s = ws \<and> he_total s = []
      | (HsFailed e, HsFailed e') \<Rightarrow> \<not> can_write rc wc \<and> cw = Inl e \<and> e' = EOF
          \<or> can_write rc wc \<and> \<not> can_write rs ws \<and> e = EOF \<and> sw = Inl e'
      | (HsWriter enc, HsStart) \<Rightarrow> can_write rc wc \<and> cw = Inr enc \<and> he_out s = ws \<and> he_total c = [] \<and> he_total s = the rc
      | (HsWriter enc, HsReader dec) \<Rightarrow> can_write rc wc \<and> cw = Inr enc \<and> he_out s = ws \<and> he_total c = [] \<and> reads_nonce ops ks (the rc) dec
      | (HsWriter enc, HsFailed e) \<Rightarrow> can_write rc wc \<and> \<not> can_write rs ws \<and> cw = Inr enc \<and> he_total c = [] \<and> sw = Inl e
      | (HsWriter enc, HsOpen enc' dec') \<Rightarrow> can_write rc wc \<and> can_write rs ws \<and> cw = Inr enc \<and> he_total c = the rs \<and> sw = Inr enc' \<and> reads_nonce ops ks (the rc) dec'
      | (HsOpen enc dec, HsOpen enc' dec') \<Rightarrow> can_write rc wc \<and> can_write rs ws \<and> cw = Inr enc \<and> reads_nonce ops kc (the rs) dec \<and> sw = Inr enc' \<and> reads_nonce ops ks (the rc) dec'
      | _ \<Rightarrow> False)"

lemma he_total_deliver [simp]: "he_total (hs_deliver k e) = he_total e" "he_phase (hs_deliver k e) = he_phase e" "he_out (hs_deliver k e) = he_out e"
  "length (he_flight (hs_deliver k e)) = length (he_flight e) - k"
  by (simp_all add: he_total_def hs_deliver_def)

lemma hs_inv_deliver:
  "hs_inv ops rc kc rs ks wc ws (hs_deliver k c) s = hs_inv ops rc kc rs ks wc ws c s"
  "hs_inv ops rc kc rs ks wc ws c (hs_deliver k s) = hs_inv ops rc kc rs ks wc ws c s"
  unfolding hs_inv_def he_total_deliver by (rule refl)+

text \<open>What a call does to the phase, the bytes sent and the bytes waiting.\<close>

lemma he_total_send [simp]: "he_total (hs_send e e' p) = he_total p @ drop (length (sent (he_out e))) (sent (he_out e'))"
  "he_phase (hs_send e e' p) = he_phase p" "he_out (hs_send e e' p) = he_out p" "he_arrived (hs_send e e' p) = he_arrived p"
  "length (he_flight (hs_send e e' p)) = length (he_flight p) + (length (sent (he_out e')) - length (sent (he_out e)))"
  by (simp_all add: he_total_def hs_send_def)

lemma do_call_reader [simp]:
  "he_phase (do_call ops rnd key CallReader e) = made_reader (he_phase e) (fst (NewChacha20Reader ops (he_arrived e) key))"
  "he_out (do_call ops rnd key CallReader e) = he_out e"
  "he_flight (do_call ops rnd key CallReader e) = he_flight e"
  by (simp_all add: case_prod_unfold)

lemma do_call_writer [simp]:
  "he_phase (do_call ops rnd key CallWriter e) = made_writer (he_phase e) (fst (NewChacha20Writer ops rnd (he_out e) key))"
  "he_out (do_call ops rnd key CallWriter e) = snd (NewChacha20Writer ops rnd (he_out e) key)"
  "he_flight (do_call ops rnd key CallWriter e) = he_flight e"
  "he_total (do_call ops rnd key CallWriter e) = he_total e"
  by (simp_all add: case_prod_unfold he_total_def)

declare do_call.simps(1,2) [simp del]

lemmas hs_phases = can_call_def hs_failed_def made_writer_def made_reader_def

lemma hs_inv_client:
  assumes ok: "cipher_ok ops" "length kc = 32" "nonce12 rc" "nonce12 rs"
    and inv: "hs_inv ops rc kc rs ks wc ws c s" and can: "can_call (client_next (he_phase c)) c s"
  shows "hs_inv ops rc kc rs ks wc ws (do_call ops rc kc (client_next (he_phase c)) c)
    (hs_send c (do_call ops rc kc (client_next (he_phase c)) c) s)"
proof (cases "he_phase c")
  case HsStart
  then have s: "he_phase s = HsStart" using inv by (simp add: hs_inv_def split: hs_phase.splits)
  show ?thesis
  proof (cases "can_write rc wc")
    case True
    obtain enc where "NewChacha20Writer ops rc wc kc = (Inr enc, wc \<lparr> sent := sent wc @ the rc \<rparr>)"
      using NewChacha20Writer_okE [OF ok(1-3) True] .
    then show ?thesis using inv HsStart s True by (simp add: hs_inv_def hs_phases)
  next
    case False
    obtain e where "NewChacha20Writer ops rc wc kc = (Inl e, wc)" using NewChacha20Writer_failE [OF ok(1-3) False] .
    then show ?thesis using inv HsStart s False by (simp add: hs_inv_def hs_phases)
  qed
next
  case (HsWriter enc)
  show ?thesis
  proof (cases "12 \<le> length (concat (he_arrived c))")
    case True
    then obtain enc' dec' where s: "he_phase s = HsOpen enc' dec'"
      using inv HsWriter by (cases "he_phase s") (auto simp: hs_inv_def he_total_def simp del: concat_eq_Nil_conv)
    then have "length (he_total c) = 12"
      using inv HsWriter ok(4) by (auto simp: hs_inv_def nonce12_def can_write_def)
    with True have "length (he_flight c) = 0" unfolding he_total_def length_append by linarith
    then have "concat (he_arrived c) = he_total c" by (simp add: he_total_def)
    moreover obtain dec where "fst (NewChacha20Reader ops (he_arrived c) kc) = Inr dec"
      using NewChacha20Reader_ok [OF ok(1,2) True] ..
    ultimately show ?thesis using inv HsWriter s by (auto simp: hs_inv_def hs_phases reads_nonce_def)
  next
    case False
    then have s: "hs_failed s" "he_flight c = []" using can HsWriter by (simp_all add: can_call_def)
    then obtain e where e: "he_phase s = HsFailed e" by (auto simp: hs_failed_def split: hs_phase.splits)
    then have "concat (he_arrived c) = []" using inv HsWriter by (simp add: hs_inv_def he_total_def)
    then show ?thesis using inv HsWriter e by (simp add: hs_inv_def hs_phases NewChacha20Reader_closed)
  qed
qed (use can in \<open>simp_all add: can_call_def\<close>)

lemma hs_inv_server:
  assumes ok: "cipher_ok ops" "length ks = 32" "nonce12 rc" "nonce12 rs"
    and inv: "hs_inv ops rc kc rs ks wc ws c s" and can: "can_call (server_next (he_phase s)) s c"
  shows "hs_inv ops rc kc rs ks wc ws (hs_send s (do_call ops rs ks (server_next (he_phase s)) s) c)
    (do_call ops rs ks (server_next (he_phase s)) s)"
proof (cases "he_phase s")
  case HsStart
  show ?thesis
  proof (cases "12 \<le> length (concat (he_arrived s))")
    case True
    then obtain enc where c: "he_phase c = HsWriter enc"
      using inv HsStart by (cases "he_phase c") (auto simp: hs_inv_def he_total_def simp del: concat_eq_Nil_conv)
    then have "length (he_total s) = 12"
      using inv HsStart ok(3) by (auto simp: hs_inv_def nonce12_def can_write_def)
    with True have "length (he_flight s) = 0" unfolding he_total_def length_append by linarith
    then have "concat (he_arrived s) = he_total s" by (simp add: he_total_def)
    moreover obtain dec where "fst (NewChacha20Reader ops (he_arrived s) ks) = Inr dec"
      using NewChacha20Reader_ok [OF ok(1,2) True] ..
    ultimately show ?thesis using inv HsStart c by (auto simp: hs_inv_def hs_phases reads_nonce_def)
  next
    case False
    then have s: "hs_failed c" "he_flight s = []" using can HsStart by (simp_all add: can_call_def)
    then obtain e where e: "he_phase c = HsFailed e" by (auto simp: hs_failed_def split: hs_phase.splits)
    then have "concat (he_arrived s) = []" using inv HsStart by (simp add: hs_inv_def he_total_def)
    then show ?thesis using inv HsStart e by (simp add: hs_inv_def hs_phases NewChacha20Reader_closed)
  qed
next
  case (HsReader dec)
  then obtain enc where c: "he_phase c = HsWriter enc" using inv by (cases "he_phase c") (simp_all add: hs_inv_def)
  show ?thesis
  proof (cases "can_write rs ws")
    case True
    obtain enc' where "NewChacha20Writer ops rs ws ks = (Inr enc', ws \<lparr> sent := sent ws @ the rs \<rparr>)"
      using NewChacha20Writer_okE [OF ok(1,2,4) True] .
    then show ?thesis using inv HsReader c True by (simp add: hs_inv_def hs_phases)
  next
    case False
    obtain e where "NewChacha20Writer ops rs ws ks = (Inl e, ws)" using NewChacha20Writer_failE [OF ok(1,2,4) False] .
    then show ?thesis using inv HsReader c False by (simp add: hs_inv_def hs_phases)
  qed
qed (use can in \<open>simp_all add: can_call_def\<close>)

lemma writer_work:
  assumes "cipher_ok ops" "length key = 32" "nonce12 rnd"
  shows "length (sent (snd (NewChacha20Writer ops rnd w key))) \<le> length (sent w) + 12"
  using NewChacha20Writer_outcome [OF assms, of w] assms(3) by (auto simp: can_write_def nonce12_def split: if_splits)

lemma client_call_work:
  assumes ok: "cipher_ok ops" "length kc = 32" "nonce12 rc" and can: "can_call (client_next (he_phase c)) c s"
    and c': "c' = do_call ops rc kc (client_next (he_phase c)) c"
  shows "client_work c' + server_work (hs_send c c' s) < client_work c + server_work s"
  using can writer_work [OF ok, of "he_out c"] unfolding c'
  by (cases "he_phase c") (auto simp: client_work_def server_work_def hs_phases split: sum.splits hs_phase.splits)

lemma server_call_work:
  assumes ok: "cipher_ok ops" "length ks = 32" "nonce12 rs" and can: "can_call (server_next (he_phase s)) s c"
    and s': "s' = do_call ops rs ks (server_next (he_phase s)) s"
  shows "client_work (hs_send s s' c) + server_work s' < client_work c + server_work s"
  using can writer_work [OF ok, of "he_out s"] unfolding s'
  by (cases "he_phase s") (auto simp: client_work_def server_work_def hs_phases split: sum.splits hs_phase.splits)

lemma hs_step_inv:
  assumes "hs_step ops rc kc rs ks (c, s) (c', s')"
    and ok: "cipher_ok ops" "length kc = 32" "length ks = 32" "nonce12 rc" "nonce12 rs" and inv: "hs_inv ops rc kc rs ks wc ws c s"
  shows "hs_inv ops rc kc rs ks wc ws c' s' \<and> client_work c' + server_work s' < client_work c + server_work s"
  using assms(1)
proof (rule hs_stepE, goal_cases)
  case 1
  then show ?thesis using hs_inv_client [OF ok(1,2,4,5) inv] client_call_work [OF ok(1,2,4) _ refl, of c s] by simp
next
  case 2
  then show ?thesis using hs_inv_server [OF ok(1,3,4,5) inv] server_call_work [OF ok(1,3,5) _ refl, of s c] by simp
next
  case (3 k)
  then show ?thesis using inv by (auto simp: hs_inv_deliver client_work_def)
next
  case (4 k)
  then show ?thesis using inv by (auto simp: hs_inv_deliver server_work_def)
qed

text \<open>An exchange that cannot continue is over.\<close>

lemma hs_stuck:
  assumes "\<nexists>y. hs_step ops rc kc rs ks (c, s) y"
  shows "he_flight c = []" "he_flight s = []"
    "\<not> can_call (client_next (he_phase c)) c s" "\<not> can_call (server_next (he_phase s)) s c"
proof -
  show "\<not> can_call (client_next (he_phase c)) c s" "\<not> can_call (server_next (he_phase s)) s c"
    using assms hs_step.client hs_step.server by blast+
  show "he_flight c = []" "he_flight s = []"
    using assms hs_step.to_client [of "length (he_flight c)" c] hs_step.to_server [of "length (he_flight s)" s]
    by (metis le_refl length_greater_0_conv)+
qed

lemma hs_stuck_over:
  assumes inv: "hs_inv ops rc kc rs ks wc ws c s" and n: "nonce12 rc" "nonce12 rs" and stuck: "\<nexists>y. hs_step ops rc kc rs ks (c, s) y"
  shows "(\<exists>e e'. he_phase c = HsFailed e \<and> he_phase s = HsFailed e') \<and> \<not> (can_write rc wc \<and> can_write rs ws)
    \<or> (\<exists>enc dec enc' dec'. he_phase c = HsOpen enc dec \<and> he_phase s = HsOpen enc' dec') \<and> can_write rc wc \<and> can_write rs ws"
proof -
  note st = hs_stuck [OF stuck]
  have "length (the rc) = 12" if "can_write rc wc" using n(1) that by (auto simp: nonce12_def can_write_def)
  moreover have "length (the rs) = 12" if "can_write rs ws" using n(2) that by (auto simp: nonce12_def can_write_def)
  ultimately show ?thesis using inv st
    by (cases "he_phase c"; cases "he_phase s") (auto simp: hs_inv_def he_total_def can_call_def hs_failed_def)
qed

text \<open>Then each end computed what its function computes from the bytes the other end sent.\<close>

lemma hs_over_results:
  assumes ok: "cipher_ok ops" "length kc = 32" "length ks = 32" "nonce12 rc" "nonce12 rs"
    and inv: "hs_inv ops rc kc rs ks wc ws c s" and stuck: "\<nexists>y. hs_step ops rc kc rs ks (c, s) y"
  shows "\<exists>cin sin. concat cin = (if can_write rc wc \<and> can_write rs ws then the rs else [])
    \<and> concat sin = (if can_write rc wc then the rc else [])
    \<and> he_phase c = (case fst (NewChacha20Writer ops rc wc kc) of Inl e \<Rightarrow> HsFailed e
        | Inr enc \<Rightarrow> made_reader (HsWriter enc) (fst (NewChacha20Reader ops cin kc)))
    \<and> he_phase s = (case fst (NewChacha20Reader ops sin ks) of Inl e \<Rightarrow> HsFailed e
        | Inr dec \<Rightarrow> made_writer (HsReader dec) (fst (NewChacha20Writer ops rs ws ks)))"
proof -
  have eof: "fst (NewChacha20Reader ops [] k) = Inl EOF" for k by (rule NewChacha20Reader_closed) simp
  consider (failed) e e' where "he_phase c = HsFailed e" "he_phase s = HsFailed e'" "\<not> (can_write rc wc \<and> can_write rs ws)"
    | (opened) enc dec enc' dec' where "he_phase c = HsOpen enc dec" "he_phase s = HsOpen enc' dec'" "can_write rc wc" "can_write rs ws"
    using hs_stuck_over [OF inv ok(4,5) stuck] by blast
  then show ?thesis
  proof cases
    case failed
    show ?thesis
    proof (cases "can_write rc wc")
      case True
      obtain enc where enc: "NewChacha20Writer ops rc wc kc = (Inr enc, wc \<lparr> sent := sent wc @ the rc \<rparr>)"
        using NewChacha20Writer_okE [OF ok(1,2,4) True] .
      have "12 \<le> length (concat [the rc])" using True ok(4) by (auto simp: nonce12_def can_write_def)
      then obtain dec where "fst (NewChacha20Reader ops [the rc] ks) = Inr dec" using NewChacha20Reader_ok [OF ok(1,3)] by blast
      then show ?thesis using inv failed True enc eof
        by (intro exI [of _ "[]"] exI [of _ "[the rc]"]) (simp add: hs_inv_def made_reader_def made_writer_def)
    next
      case False
      then show ?thesis using inv failed eof by (intro exI [of _ "[]"]) (simp add: hs_inv_def)
    qed
  next
    case opened
    then obtain cin sin where "concat cin = the rs" "fst (NewChacha20Reader ops cin kc) = Inr dec"
      "concat sin = the rc" "fst (NewChacha20Reader ops sin ks) = Inr dec'"
      using inv by (auto simp: hs_inv_def reads_nonce_def)
    then show ?thesis using inv opened
      by (intro exI [of _ cin] exI [of _ sin]) (simp add: hs_inv_def made_reader_def made_writer_def)
  qed
qed

lemma handleConn_phase:
  assumes "Password pe \<noteq> []" "case src of None \<Rightarrow> True | Some ip \<Rightarrow> accept_ok pe ip"
    and "ph = (case fst (NewChacha20Writer ops rnd w (DeriveKey Sum256 (Password pe))) of Inl e \<Rightarrow> HsFailed e
        | Inr enc \<Rightarrow> made_reader (HsWriter enc) (fst (NewChacha20Reader ops input (DeriveKey Sum256 (Password pe)))))"
  shows "client_result (dial_target lookup pe) ph = Some (handleConn lookup (\<lambda>_. Some (input, w)) Sum256 ops rnd pe src)"
proof -
  have "\<not> (case src of Some srcIP \<Rightarrow> \<not> accept_ok pe srcIP | None \<Rightarrow> False)" using assms(2) by (simp split: option.splits)
  then show ?thesis using assms(1) unfolding assms(3)
    by (simp add: handleConn_def made_reader_def client_result_def Let_def split: sum.splits)
qed

lemma newEncryptedTCPConn_phase:
  assumes "ph = (case fst (NewChacha20Reader ops input (DeriveKey Sum256 pw)) of Inl e \<Rightarrow> HsFailed e
        | Inr dec \<Rightarrow> made_writer (HsReader dec) (fst (NewChacha20Writer ops rnd w (DeriveKey Sum256 pw))))"
  shows "server_result ph = Some (newEncryptedTCPConn Sum256 ops rnd input w pw)"
  unfolding assms by (simp add: newEncryptedTCPConn_def made_writer_def server_result_def Let_def split: sum.splits)

text \<open>C37: The nonce exchange of a password-protected connection always ends, also when it fails.  Let a client in
  \<open>handleConn\<close>, for a port with a password and past its source filter, and a server in \<open>newEncryptedTCPConn\<close>,
  with the same password or not, make their calls of \<open>NewChacha20Writer\<close> and \<open>NewChacha20Reader\<close> in any
  interleaving, with any random bytes or none, the network delivering what they sent in any pieces and then
  the close of an end that failed.  Then every run has at most 28 steps, and an exchange that cannot continue is over: \<open>handleConn\<close> has
  returned what it returns on the bytes the server sent, \<open>newEncryptedTCPConn\<close> what it returns on the bytes the
  client sent, and either both ends are open, which is so exactly when both have random bytes and can write,
  or both have failed.\<close>

theorem nonce_exchange_terminates:
  assumes "cipher_ok ops" and "\<forall>x. length (Sum256 x) = 32" and "nonce12 rc" and "nonce12 rs"
    and "Password pe \<noteq> []" and "case src of None \<Rightarrow> True | Some ip \<Rightarrow> accept_ok pe ip"
    and "(hs_step ops rc (DeriveKey Sum256 (Password pe)) rs (DeriveKey Sum256 pw) ^^ n) (hs_start wc, hs_start ws) (c, s)"
  shows "n \<le> 28
    \<and> ((\<nexists>y. hs_step ops rc (DeriveKey Sum256 (Password pe)) rs (DeriveKey Sum256 pw) (c, s) y) \<longrightarrow>
        (\<exists>cin sin. concat cin = (if can_write rc wc \<and> can_write rs ws then the rs else [])
          \<and> concat sin = (if can_write rc wc then the rc else [])
          \<and> client_result (dial_target lookup pe) (he_phase c)
              = Some (handleConn lookup (\<lambda>_. Some (cin, wc)) Sum256 ops rc pe src)
          \<and> server_result (he_phase s) = Some (newEncryptedTCPConn Sum256 ops rs sin ws pw))
        \<and> (if can_write rc wc \<and> can_write rs ws
           then \<exists>cw cr sw sr. he_phase c = HsOpen cw cr \<and> he_phase s = HsOpen sw sr
           else hs_failed c \<and> hs_failed s))"
proof -
  let ?kc = "DeriveKey Sum256 (Password pe)" and ?ks = "DeriveKey Sum256 pw"
  have k: "length ?kc = 32" "length ?ks = 32" using assms(2) by (simp_all add: DeriveKey_def)
  have inv: "hs_inv ops rc ?kc rs ?ks wc ws c s \<and> n + client_work c + server_work s \<le> 28"
    using assms(7)
  proof (induction n arbitrary: c s)
    case 0
    then show ?case by (auto simp: hs_inv_def hs_start_def he_total_def client_work_def server_work_def)
  next
    case (Suc n)
    then obtain c1 s1 where run: "(hs_step ops rc ?kc rs ?ks ^^ n) (hs_start wc, hs_start ws) (c1, s1)"
      and step: "hs_step ops rc ?kc rs ?ks (c1, s1) (c, s)" by auto
    note inv = Suc.IH [OF run]
    show ?case using inv hs_step_inv [OF step assms(1) k assms(3,4) conjunct1 [OF inv]] by linarith
  qed
  have "\<exists>cin sin. concat cin = (if can_write rc wc \<and> can_write rs ws then the rs else [])
          \<and> concat sin = (if can_write rc wc then the rc else [])
          \<and> client_result (dial_target lookup pe) (he_phase c)
              = Some (handleConn lookup (\<lambda>_. Some (cin, wc)) Sum256 ops rc pe src)
          \<and> server_result (he_phase s) = Some (newEncryptedTCPConn Sum256 ops rs sin ws pw)"
    if "\<nexists>y. hs_step ops rc ?kc rs ?ks (c, s) y"
    using hs_over_results [OF assms(1) k assms(3,4) conjunct1 [OF inv] that]
    by (elim exE conjE, intro exI conjI handleConn_phase [OF assms(5,6)] newEncryptedTCPConn_phase)
  moreover have "if can_write rc wc \<and> can_write rs ws
      then \<exists>cw cr sw sr. he_phase c = HsOpen cw cr \<and> he_phase s = HsOpen sw sr else hs_failed c \<and> hs_failed s"
    if "\<nexists>y. hs_step ops rc ?kc rs ?ks (c, s) y"
    using hs_stuck_over [OF conjunct1 [OF inv] assms(3,4) that] by (auto simp: hs_failed_def)
  ultimately show ?thesis using inv by (intro conjI impI) linarith+
qed

theorem nonce_exchange_terminates_witness:
  "\<exists>c s cw cr sw sr. (hs_step demo_cipher (Some (replicate 12 1)) (DeriveKey demo_sum (Password demo_client))
       (Some (replicate 12 2)) (DeriveKey demo_sum ''pw'') ^^ 6)
       (hs_start \<lparr> sent = [], broken = False \<rparr>, hs_start \<lparr> sent = [], broken = False \<rparr>) (c, s)
     \<and> he_phase c = HsOpen cw cr \<and> he_phase s = HsOpen sw sr"
proof -
  let ?w = "\<lparr> sent = [], broken = False \<rparr>" and ?rc = "Some (replicate 12 1) :: byte list option" and ?rs = "Some (replicate 12 2) :: byte list option"
  let ?kc = "DeriveKey demo_sum (Password demo_client)" and ?ks = "DeriveKey demo_sum ''pw''"
  let ?step = "hs_step demo_cipher ?rc ?kc ?rs ?ks"
  define c0 :: "byte hs_end" where "c0 = hs_start ?w"
  define c1 where "c1 = do_call demo_cipher ?rc ?kc CallWriter c0"
  define s1 where "s1 = hs_send c0 c1 c0"
  define s2 where "s2 = hs_deliver 12 s1"
  define s3 where "s3 = do_call demo_cipher ?rs ?ks CallReader s2"
  define s4 where "s4 = do_call demo_cipher ?rs ?ks CallWriter s3"
  define c4 where "c4 = hs_send s3 s4 c1"
  define c5 where "c5 = hs_deliver 12 c4"
  define c6 where "c6 = do_call demo_cipher ?rc ?kc CallReader c5"
  note defs = c6_def c5_def c4_def s4_def s3_def s2_def s1_def c1_def c0_def
  have nx: "client_next (he_phase c0) = CallWriter" "client_next (he_phase c5) = CallReader"
    "server_next (he_phase s2) = CallReader" "server_next (he_phase s3) = CallWriter"
    "can_call CallWriter c0 c0" "can_call CallReader s2 c1" "can_call CallWriter s3 c1" "can_call CallReader c5 s4"
    "12 \<le> length (he_flight s1)" "12 \<le> length (he_flight c4)" "hs_send s2 s3 c1 = c1" "hs_send c5 c6 s4 = s4"
    unfolding defs by code_simp+
  have "?step (c0, c0) (c1, hs_send c0 c1 c0)" by (rule hs_step.client) (simp_all add: nx c1_def)
  moreover have "?step (c1, s1) (c1, hs_deliver 12 s1)" by (rule hs_step.to_server) (simp_all add: nx)
  moreover have "?step (c1, s2) (hs_send s2 s3 c1, s3)" by (rule hs_step.server) (simp_all add: nx s3_def)
  moreover have "?step (c1, s3) (hs_send s3 s4 c1, s4)" by (rule hs_step.server) (simp_all add: nx s4_def)
  moreover have "?step (c4, s4) (hs_deliver 12 c4, s4)" by (rule hs_step.to_client) (simp_all add: nx)
  moreover have "?step (c5, s4) (c6, hs_send c5 c6 s4)" by (rule hs_step.client) (simp_all add: nx c6_def)
  ultimately have "?step (c0, c0) (c1, s1)" "?step (c1, s1) (c1, s2)" "?step (c1, s2) (c1, s3)" "?step (c1, s3) (c4, s4)"
    "?step (c4, s4) (c5, s4)" "?step (c5, s4) (c6, s4)"
    unfolding nx(11,12) s1_def [symmetric] s2_def [symmetric] c4_def [symmetric] c5_def [symmetric] .
  then have "(?step ^^ Suc (Suc (Suc (Suc (Suc (Suc 0)))))) (c0, c0) (c6, s4)" by (blast intro: relpowp_Suc_I relpowp_0_I)
  then have run: "(?step ^^ 6) (hs_start ?w, hs_start ?w) (c6, s4)" by (simp add: eval_nat_numeral c0_def)
  have ended: "client_next (he_phase c6) = NoCall" "server_next (he_phase s4) = NoCall" "he_flight c6 = []" "he_flight s4 = []"
    unfolding defs by code_simp+
  then have "\<nexists>y. ?step (c6, s4) y" by (auto elim!: hs_stepE simp: can_call_def)
  moreover have "cipher_ok demo_cipher" "\<forall>x. length (demo_sum x) = 32" "nonce12 ?rc" "nonce12 ?rs" "Password demo_client \<noteq> []"
    "can_write ?rc ?w" "can_write ?rs ?w"
    using demo_cipher_ok by (simp_all add: demo_sum_def nonce12_def can_write_def demo_client_def)
  ultimately have "\<exists>cw cr sw sr. he_phase c6 = HsOpen cw cr \<and> he_phase s4 = HsOpen sw sr"
    using nonce_exchange_terminates [OF _ _ _ _ _ _ run, of None] by simp
  with run show ?thesis by blast
qed


section \<open>A connection through the tunnel\<close>

text \<open>C35: A password-protected connection carries data faithfully from end to end: when the client's \<open>handleConn\<close> and
  the server's \<open>newEncryptedTCPConn\<close> know the same password and the network delivers each direction's bytes,
  however it cuts them, both ends open, and each end reads exactly what the other wrote: every run of reads
  gives a prefix of it, and enough reads with non-empty buffers all of it.\<close>

theorem tunnel_connection_transparent:
  assumes "cipher_ok ops" and "\<forall>x. length (Sum256 x) = 32" and "length cn = 12" and "length sn = 12"
    and "Password pe \<noteq> []" and "case src of None \<Rightarrow> True | Some ip \<Rightarrow> accept_ok pe ip"
    and "NewChacha20Writer ops (Some cn) fresh (DeriveKey Sum256 (Password pe)) = (Inr cw, c0)"
    and "NewChacha20Writer ops (Some sn) fresh (DeriveKey Sum256 (Password pe)) = (Inr sw, s0)"
    and "fresh = \<lparr> sent = [], broken = False \<rparr>"
    and "concat up = sent (cw_w (write_all ops cw ups))" and "concat down = sent (cw_w (write_all ops sw downs))"
    and "UserDial (dial_target lookup pe) = Some (down, fresh)"
  shows "\<exists>cr sr. handleConn lookup UserDial Sum256 ops (Some cn) pe src = ConnEncrypted (dial_target lookup pe) cw cr
    \<and> newEncryptedTCPConn Sum256 ops (Some sn) up fresh (Password pe) = Inr \<lparr> encWriter = sw, decReader = sr \<rparr>
    \<and> delivers ops sr (concat ups) \<and> delivers ops cr (concat downs)"
proof -
  let ?key = "DeriveKey Sum256 (Password pe)"
  have key: "length ?key = 32" using assms(2) by (simp add: DeriveKey_def)
  obtain cr where cr: "fst (NewChacha20Reader ops down ?key) = Inr cr" "delivers ops cr (concat downs)"
    using stream_opens [OF assms(1) key assms(4) assms(8) [unfolded assms(9)] assms(11)] by blast
  obtain sr where sr: "fst (NewChacha20Reader ops up ?key) = Inr sr" "delivers ops sr (concat ups)"
    using stream_opens [OF assms(1) key assms(3) assms(7) [unfolded assms(9)] assms(10)] by blast
  have "handleConn lookup UserDial Sum256 ops (Some cn) pe src = ConnEncrypted (dial_target lookup pe) cw cr"
    using assms(5,6,7,12) cr(1) by (cases src) (simp_all add: handleConn_def Let_def)
  moreover have "newEncryptedTCPConn Sum256 ops (Some sn) up fresh (Password pe) = Inr \<lparr> encWriter = sw, decReader = sr \<rparr>"
    using assms(8) sr(1) by (simp add: newEncryptedTCPConn_def Let_def)
  ultimately show ?thesis using cr(2) sr(2) by blast
qed

theorem tunnel_connection_transparent_witness:
  "\<exists>cw cr sr. handleConn (\<lambda>_. None) (\<lambda>_. Some ([replicate 5 2, replicate 7 2 @ [0x7b]], \<lparr> sent = [], broken = False \<rparr>))
        demo_sum demo_cipher (Some (replicate 12 1)) demo_client None = ConnEncrypted (dial_target (\<lambda>_. None) demo_client) cw cr
     \<and> newEncryptedTCPConn demo_sum demo_cipher (Some (replicate 12 2)) [replicate 12 1 @ [0x75], [0x74]] \<lparr> sent = [], broken = False \<rparr> ''pw''
         = Inr \<lparr> encWriter = \<lparr> cw_w = \<lparr> sent = replicate 12 2, broken = False \<rparr>, cw_cipher = 0x72 \<rparr>, decReader = sr \<rparr>
     \<and> delivers demo_cipher sr [4, 5] \<and> delivers demo_cipher cr [9]"
proof -
  let ?fresh = "\<lparr> sent = [], broken = False \<rparr>" and ?key = "DeriveKey demo_sum (Password demo_client)"
  let ?cw = "\<lparr> cw_w = \<lparr> sent = replicate 12 1, broken = False \<rparr>, cw_cipher = 0x71 \<rparr>"
  let ?sw = "\<lparr> cw_w = \<lparr> sent = replicate 12 2, broken = False \<rparr>, cw_cipher = 0x72 \<rparr>"
  have w: "NewChacha20Writer demo_cipher (Some (replicate 12 1)) ?fresh ?key = (Inr ?cw, \<lparr> sent = replicate 12 1, broken = False \<rparr>)"
    "NewChacha20Writer demo_cipher (Some (replicate 12 2)) ?fresh ?key = (Inr ?sw, \<lparr> sent = replicate 12 2, broken = False \<rparr>)"
    "concat [replicate 12 1 @ [0x75], [0x74]] = sent (cw_w (write_all demo_cipher ?cw [[4], [5]]))"
    "concat [replicate 5 2, replicate 7 2 @ [0x7b]] = sent (cw_w (write_all demo_cipher ?sw [[9]]))"
    "Password demo_client = ''pw''" by code_simp+
  have "\<forall>x. length (demo_sum x) = 32" by (simp add: demo_sum_def)
  from tunnel_connection_transparent [OF demo_cipher_ok this _ _ _ _ w(1,2) refl w(3,4), of None
      "\<lambda>_. Some ([replicate 5 2, replicate 7 2 @ [0x7b]], ?fresh)" "\<lambda>_. None"] w(5)
  show ?thesis by auto
qed

end
