(* ===== verification/Disco.thy ===== *)
theory Disco
  imports Tsaddr Packet
begin

text \<open>The peer discovery messages inside a sealed box: \<open>disco/disco.go\<close>.

  A fixed-size Go array is a byte list of that length (\<open>wf_message\<close>); keys are their 32 raw bytes; a duration is its
  64 bits.  \<open>None\<close> is a panic, \<open>Inl\<close> an error.  The partly filled message that some parsers return beside an error is
  left out: \<open>Inl\<close> holds the error alone.\<close>

section \<open>Messages\<close>

type_synonym u64 = "64 word"
type_synonym raw_key = "byte list"

definition Uint64_be :: "byte list \<Rightarrow> u64" where "Uint64_be bs = of_nat (be_nat (take 8 bs))"
definition PutUint64_be :: "u64 \<Rightarrow> byte list" where "PutUint64_be v = nat_be 8 (unat v)"

definition disco_Magic :: "byte list" where "disco_Magic = [0x54, 0x53, 0xf0, 0x9f, 0x92, 0xac]"

abbreviation keyLen :: nat where "keyLen \<equiv> 32"
abbreviation NonceLen :: nat where "NonceLen \<equiv> 24"
abbreviation epLength :: nat where "epLength \<equiv> 18"
abbreviation pongLen :: nat where "pongLen \<equiv> 30"
abbreviation bindUDPRelayEndpointCommonLen :: nat where "bindUDPRelayEndpointCommonLen \<equiv> 72"
abbreviation allocateUDPRelayEndpointRequestLen :: nat where "allocateUDPRelayEndpointRequestLen \<equiv> 68"
abbreviation udpRelayEndpointLenMinusAddrPorts :: nat where "udpRelayEndpointLenMinusAddrPorts \<equiv> 124"

definition key_IsZero :: "raw_key \<Rightarrow> bool" where "key_IsZero k \<longleftrightarrow> list_all (\<lambda>x. x = 0) k"

record disco_ping =
  dp_TxID :: "byte list"
  dp_NodeKey :: raw_key
  dp_Padding :: int

record disco_pong =
  pong_TxID :: "byte list"
  pong_Src :: addrport

record bind_common =
  bc_VNI :: u32
  bc_Generation :: u32
  bc_RemoteKey :: raw_key
  bc_Challenge :: "byte list"

record alloc_request =
  ar_ClientDisco :: "raw_key \<times> raw_key"
  ar_Generation :: u32

record udp_relay_endpoint =
  re_ServerDisco :: raw_key
  re_ClientDisco :: "raw_key \<times> raw_key"
  re_LamportID :: u64
  re_VNI :: u32
  re_BindLifetime :: u64
  re_SteadyStateLifetime :: u64
  re_AddrPorts :: "addrport list"

datatype message = Ping disco_ping | Pong disco_pong | CallMeMaybe "addrport list"
  | BindUDPRelayEndpoint bind_common | BindUDPRelayEndpointChallenge bind_common | BindUDPRelayEndpointAnswer bind_common
  | CallMeMaybeVia udp_relay_endpoint | AllocateUDPRelayEndpointRequest alloc_request
  | AllocateUDPRelayEndpointResponse u32 udp_relay_endpoint

fun message_type :: "message \<Rightarrow> byte" where
  "message_type (Ping _) = 1"
| "message_type (Pong _) = 2"
| "message_type (CallMeMaybe _) = 3"
| "message_type (BindUDPRelayEndpoint _) = 4"
| "message_type (BindUDPRelayEndpointChallenge _) = 5"
| "message_type (BindUDPRelayEndpointAnswer _) = 6"
| "message_type (CallMeMaybeVia _) = 7"
| "message_type (AllocateUDPRelayEndpointRequest _) = 8"
| "message_type (AllocateUDPRelayEndpointResponse _ _) = 9"

datatype disco_error = errShort | UnknownMessageType byte


section \<open>The wrapper\<close>

definition LooksLikeDiscoWrapper :: "byte list \<Rightarrow> bool" where
  "LooksLikeDiscoWrapper p \<longleftrightarrow> \<not> length p < length disco_Magic + keyLen + NonceLen \<and> take (length disco_Magic) p = disco_Magic"

definition disco_Source :: "byte list \<Rightarrow> byte list option" where
  "disco_Source p = (if \<not> LooksLikeDiscoWrapper p then None else Some (take keyLen (drop (length disco_Magic) p)))"


section \<open>Marshalling\<close>

definition appendMsgHeader :: "byte list \<Rightarrow> byte \<Rightarrow> byte \<Rightarrow> byte list \<Rightarrow> byte list" where
  "appendMsgHeader b t ver data = b @ [t, ver] @ data"

definition ep_bytes :: "addrport \<Rightarrow> byte list" where
  "ep_bytes ipp = As16_bytes (ap_Addr ipp) @ PutUint16_be (ap_Port ipp)"

text \<open>A ping's padding may be negative.  A negative data length panics in \<open>appendMsgHeader\<close> (\<open>None\<close>); otherwise the
  identifier is cut to the data, and \<open>AppendTo\<close> writes the key in place when there is room for all of it, \<open>spare\<close> being
  the capacity that Go's \<open>append\<close> left behind the message.\<close>

definition ping_data :: "nat \<Rightarrow> disco_ping \<Rightarrow> byte list option" where
  "ping_data spare m =
     (let hasKey = (\<not> key_IsZero (dp_NodeKey m));
          dataLen = (if hasKey then 12 + int keyLen else 12) + dp_Padding m in
      if dataLen < 0 then None
      else
        let len = nat dataLen; n = min len 12;
            d = take n (dp_TxID m) @ replicate (len - n) 0 in
        Some (if hasKey \<and> n + keyLen \<le> len + spare then take len (take n d @ dp_NodeKey m @ drop (n + keyLen) d) else d))"

definition pong_data :: "disco_pong \<Rightarrow> byte list" where
  "pong_data m = pong_TxID m @ ep_bytes (pong_Src m)"

definition bind_encode :: "bind_common \<Rightarrow> byte list" where
  "bind_encode m = PutUint32_be (bc_VNI m) @ PutUint32_be (bc_Generation m) @ bc_RemoteKey m @ bc_Challenge m"

definition request_data :: "alloc_request \<Rightarrow> byte list" where
  "request_data m = fst (ar_ClientDisco m) @ snd (ar_ClientDisco m) @ PutUint32_be (ar_Generation m)"

definition relay_encode :: "udp_relay_endpoint \<Rightarrow> byte list" where
  "relay_encode m = re_ServerDisco m @ fst (re_ClientDisco m) @ snd (re_ClientDisco m) @ PutUint64_be (re_LamportID m)
     @ PutUint32_be (re_VNI m) @ PutUint64_be (re_BindLifetime m) @ PutUint64_be (re_SteadyStateLifetime m)
     @ concat (map ep_bytes (re_AddrPorts m))"

fun AppendMarshal :: "nat \<Rightarrow> message \<Rightarrow> byte list \<Rightarrow> byte list option" where
  "AppendMarshal spare (Ping m) b = map_option (appendMsgHeader b 1 0) (ping_data spare m)"
| "AppendMarshal spare (Pong m) b = Some (appendMsgHeader b 2 0 (pong_data m))"
| "AppendMarshal spare (CallMeMaybe eps) b = Some (appendMsgHeader b 3 0 (concat (map ep_bytes eps)))"
| "AppendMarshal spare (BindUDPRelayEndpoint m) b = Some (appendMsgHeader b 4 0 (bind_encode m))"
| "AppendMarshal spare (BindUDPRelayEndpointChallenge m) b = Some (appendMsgHeader b 5 0 (bind_encode m))"
| "AppendMarshal spare (BindUDPRelayEndpointAnswer m) b = Some (appendMsgHeader b 6 0 (bind_encode m))"
| "AppendMarshal spare (CallMeMaybeVia m) b = Some (appendMsgHeader b 7 0 (relay_encode m))"
| "AppendMarshal spare (AllocateUDPRelayEndpointRequest m) b = Some (appendMsgHeader b 8 0 (request_data m))"
| "AppendMarshal spare (AllocateUDPRelayEndpointResponse gen m) b = Some (appendMsgHeader b 9 0 (PutUint32_be gen @ relay_encode m))"


section \<open>Parsing\<close>

definition zero_key :: raw_key where "zero_key = replicate 32 0"

definition zero_relay :: udp_relay_endpoint where
  "zero_relay = \<lparr> re_ServerDisco = zero_key, re_ClientDisco = (zero_key, zero_key), re_LamportID = 0, re_VNI = 0,
     re_BindLifetime = 0, re_SteadyStateLifetime = 0, re_AddrPorts = [] \<rparr>"

text \<open>The loop over address and port pairs: slicing panics on a short rest.\<close>

function parse_eps :: "byte list \<Rightarrow> addrport list option" where
  "parse_eps p =
     (if p = [] then Some []
      else if length p < epLength then None
      else map_option (\<lambda>eps. AddrPort (Unmap (AddrFrom16 (take 16 p))) (Uint16_be (take 2 (drop 16 p))) # eps)
             (parse_eps (drop epLength p)))"
  by pat_completeness auto
termination
  by (relation "measure length") auto

declare parse_eps.simps [simp del]

definition parsePing :: "byte \<Rightarrow> byte list \<Rightarrow> (disco_error + message) option" where
  "parsePing ver p =
     (if length p < 12 then Some (Inl errShort)
      else
        let pad = int (length p); txid = take 12 p; p = drop 12 p; pad = pad - 12 in
        if keyLen \<le> length p then Some (Inr (Ping \<lparr> dp_TxID = txid, dp_NodeKey = take keyLen p, dp_Padding = pad - int keyLen \<rparr>))
        else Some (Inr (Ping \<lparr> dp_TxID = txid, dp_NodeKey = zero_key, dp_Padding = pad \<rparr>)))"

definition parsePong :: "byte \<Rightarrow> byte list \<Rightarrow> (disco_error + message) option" where
  "parsePong ver p =
     (if length p < pongLen then Some (Inl errShort)
      else do {
        ip \<leftarrow> slc p 12 28;
        port \<leftarrow> slc p 28 (length p);
        Some (Inr (Pong \<lparr> pong_TxID = take 12 p, pong_Src = AddrPort (Unmap (AddrFrom16 ip)) (Uint16_be port) \<rparr>)) })"

definition parseCallMeMaybe :: "byte \<Rightarrow> byte list \<Rightarrow> (disco_error + message) option" where
  "parseCallMeMaybe ver p =
     (if length p mod epLength \<noteq> 0 \<or> ver \<noteq> 0 \<or> length p = 0 then Some (Inr (CallMeMaybe []))
      else map_option (Inr \<circ> CallMeMaybe) (parse_eps p))"

definition bind_decode :: "byte list \<Rightarrow> (disco_error + bind_common) option" where
  "bind_decode b =
     (if length b < bindUDPRelayEndpointCommonLen then Some (Inl errShort)
      else do {
        v \<leftarrow> slc b 0 4;
        g \<leftarrow> slc b 4 8;
        k \<leftarrow> slc b 8 40;
        c \<leftarrow> slc b 40 72;
        Some (Inr \<lparr> bc_VNI = Uint32_be v, bc_Generation = Uint32_be g, bc_RemoteKey = k, bc_Challenge = c \<rparr>) })"

definition parse_bind :: "(bind_common \<Rightarrow> message) \<Rightarrow> byte list \<Rightarrow> (disco_error + message) option" where
  "parse_bind mk p = map_option (map_sum id mk) (bind_decode p)"

definition parseAllocateUDPRelayEndpointRequest :: "byte \<Rightarrow> byte list \<Rightarrow> (disco_error + message) option" where
  "parseAllocateUDPRelayEndpointRequest ver p =
     (if ver \<noteq> 0 then Some (Inr (AllocateUDPRelayEndpointRequest \<lparr> ar_ClientDisco = (zero_key, zero_key), ar_Generation = 0 \<rparr>))
      else if length p < allocateUDPRelayEndpointRequestLen then Some (Inl errShort)
      else do {
        k1 \<leftarrow> slc p 0 32;
        k2 \<leftarrow> slc p 32 64;
        g \<leftarrow> slc p 64 (length p);
        Some (Inr (AllocateUDPRelayEndpointRequest \<lparr> ar_ClientDisco = (k1, k2), ar_Generation = Uint32_be g \<rparr>)) })"

definition relay_decode :: "byte list \<Rightarrow> (disco_error + udp_relay_endpoint) option" where
  "relay_decode b =
     (if length b < udpRelayEndpointLenMinusAddrPorts + epLength
         \<or> (length b - udpRelayEndpointLenMinusAddrPorts) mod epLength \<noteq> 0 then Some (Inl errShort)
      else do {
        s \<leftarrow> slc b 0 32;
        c1 \<leftarrow> slc b 32 64;
        c2 \<leftarrow> slc b 64 96;
        l \<leftarrow> slc b 96 104;
        v \<leftarrow> slc b 104 108;
        bl \<leftarrow> slc b 108 116;
        ss \<leftarrow> slc b 116 124;
        eps \<leftarrow> parse_eps (drop 124 b);
        Some (Inr \<lparr> re_ServerDisco = s, re_ClientDisco = (c1, c2), re_LamportID = Uint64_be l, re_VNI = Uint32_be v,
          re_BindLifetime = Uint64_be bl, re_SteadyStateLifetime = Uint64_be ss, re_AddrPorts = eps \<rparr>) })"

definition parseCallMeMaybeVia :: "byte \<Rightarrow> byte list \<Rightarrow> (disco_error + message) option" where
  "parseCallMeMaybeVia ver p =
     (if ver \<noteq> 0 then Some (Inr (CallMeMaybeVia zero_relay)) else map_option (map_sum id CallMeMaybeVia) (relay_decode p))"

definition parseAllocateUDPRelayEndpointResponse :: "byte \<Rightarrow> byte list \<Rightarrow> (disco_error + message) option" where
  "parseAllocateUDPRelayEndpointResponse ver p =
     (if ver \<noteq> 0 then Some (Inr (AllocateUDPRelayEndpointResponse 0 zero_relay))
      else if length p < 4 then Some (Inl errShort)
      else map_option (map_sum id (AllocateUDPRelayEndpointResponse (Uint32_be p))) (relay_decode (drop 4 p)))"

definition disco_Parse :: "byte list \<Rightarrow> (disco_error + message) option" where
  "disco_Parse p =
     (if length p < 2 then Some (Inl errShort)
      else
        let t = p ! 0; ver = p ! 1; p = drop 2 p in
        if t = 1 then parsePing ver p
        else if t = 2 then parsePong ver p
        else if t = 3 then parseCallMeMaybe ver p
        else if t = 4 then parse_bind BindUDPRelayEndpoint p
        else if t = 5 then parse_bind BindUDPRelayEndpointChallenge p
        else if t = 6 then parse_bind BindUDPRelayEndpointAnswer p
        else if t = 7 then parseCallMeMaybeVia ver p
        else if t = 8 then parseAllocateUDPRelayEndpointRequest ver p
        else if t = 9 then parseAllocateUDPRelayEndpointResponse ver p
        else Some (Inl (UnknownMessageType t)))"


section \<open>Round trips of the parts\<close>

lemma length_PutUint64 [simp]: "length (PutUint64_be v) = 8"
  by (simp add: PutUint64_be_def)

lemma Uint64_PutUint64 [bytes_simps]: "Uint64_be (PutUint64_be v @ bs) = v"
proof -
  have "unat v < 256 ^ 8" using unsigned_less [of v, where ?'a = nat] by simp
  then show ?thesis by (simp add: Uint64_be_def PutUint64_be_def be_nat_nat_be del: nat_be.simps)
qed

lemmas Uint_Put = Uint16_PutUint16 [of _ "[]", simplified] Uint32_PutUint32 [of _ "[]", simplified]
  Uint64_PutUint64 [of _ "[]", simplified]

text \<open>Addresses on the wire are 16 bytes; the reader unmaps, so IPv4-mapped addresses, zones and the zero address do
  not survive.\<close>

definition plain_addr :: "addr \<Rightarrow> bool" where
  "plain_addr a \<longleftrightarrow> addr_IsValid a \<and> Unmap a = a \<and> addr_Zone a = []"

lemma AddrFrom16_As16_any: "AddrFrom16 (As16_bytes a) = AddrV6 (As16 a) []"
  using AddrFrom16_As16 [of "As16 a" "[]"] by (simp add: As16_bytes_def)

lemma Unmap_As16: "plain_addr a \<Longrightarrow> Unmap (AddrFrom16 (As16_bytes a)) = a"
proof (cases a)
  case (AddrV4 w)
  have c: "(0xffff00000000 :: 128 word) = push_bit 32 0xffff" by simp
  have "drop_bit 32 (0xffff00000000 OR ucast w :: 128 word) = 0xffff OR drop_bit 32 (ucast w)"
    unfolding c by (rule bit_word_eqI) (auto simp: bit_simps)
  moreover have "drop_bit 32 (ucast w :: 128 word) = 0"
    by (rule bit_word_eqI) (auto simp: bit_simps dest: bit_imp_le_length)
  moreover have "ucast (push_bit 32 k OR ucast w :: 128 word) = w" for k :: "128 word"
    by (rule bit_word_eqI) (auto simp: bit_simps)
  then have "ucast (0xffff00000000 OR ucast w :: 128 word) = w" unfolding c .
  ultimately show ?thesis using AddrV4 by (simp add: AddrFrom16_As16_any Unmap_def)
next
  case (AddrV6 w z)
  assume "plain_addr a"
  then show ?thesis using AddrV6 by (auto simp: plain_addr_def AddrFrom16_As16_any Unmap_def split: if_splits)
qed (simp add: plain_addr_def addr_IsValid_def)


lemma length_ep_bytes [simp]: "length (ep_bytes e) = 18"
  by (simp add: ep_bytes_def)

lemma ep_bytes_ne [simp]: "ep_bytes e \<noteq> []"
  using length_ep_bytes [of e] by (metis list.size(3) zero_neq_numeral)

lemma length_eps [simp]: "length (concat (map ep_bytes eps)) = 18 * length eps"
  by (induction eps) simp_all

lemma ep_bytes_read:
  assumes "plain_addr (ap_Addr e)"
  shows "AddrPort (Unmap (AddrFrom16 (take 16 (ep_bytes e @ r)))) (Uint16_be (take 2 (drop 16 (ep_bytes e @ r)))) = e"
  using assms by (simp add: ep_bytes_def Unmap_As16 Uint_Put)

lemma parse_eps_bytes: "list_all (\<lambda>e. plain_addr (ap_Addr e)) eps \<Longrightarrow> parse_eps (concat (map ep_bytes eps)) = Some eps"
proof (induction eps)
  case Nil
  then show ?case by (simp add: parse_eps.simps)
next
  case (Cons e eps)
  let ?r = "concat (map ep_bytes eps)"
  have "parse_eps (ep_bytes e @ ?r) = map_option (\<lambda>eps. e # eps) (parse_eps ?r)"
    using ep_bytes_read [of e ?r] Cons.prems by (subst parse_eps.simps) simp
  then show ?case using Cons by simp
qed

lemma parse_eps_total: "length p mod 18 = 0 \<Longrightarrow> \<exists>eps. parse_eps p = Some eps"
proof (induction p rule: parse_eps.induct)
  case (1 p)
  show ?case
  proof (cases "p = []")
    case False
    then have l: "18 \<le> length p" using 1(2) by (cases "length p < 18") auto
    then have "length (drop 18 p) mod 18 = 0" using 1(2) by (simp add: mod_diff_eq le_mod_geq)
    then show ?thesis using 1(1) False l by (subst parse_eps.simps) auto
  qed (simp add: parse_eps.simps)
qed

lemma slc_append: "length a = i \<Longrightarrow> length x = j - i \<Longrightarrow> i \<le> j \<Longrightarrow> slc (a @ x @ y) i j = Some x"
  by (simp add: slc_def)

definition wf_key :: "raw_key \<Rightarrow> bool" where "wf_key k \<longleftrightarrow> length k = 32"

definition wf_bind :: "bind_common \<Rightarrow> bool" where
  "wf_bind m \<longleftrightarrow> wf_key (bc_RemoteKey m) \<and> length (bc_Challenge m) = 32"

definition wf_relay :: "udp_relay_endpoint \<Rightarrow> bool" where
  "wf_relay m \<longleftrightarrow> wf_key (re_ServerDisco m) \<and> wf_key (fst (re_ClientDisco m)) \<and> wf_key (snd (re_ClientDisco m))
     \<and> re_AddrPorts m \<noteq> [] \<and> list_all (\<lambda>e. plain_addr (ap_Addr e)) (re_AddrPorts m)"

text \<open>The messages that survive the wire.  A ping's padding is not negative, a ping without a key must not be padded by a
  whole key, and a relay endpoint has at least one address.\<close>

fun wf_message :: "message \<Rightarrow> bool" where
  "wf_message (Ping m) = (length (dp_TxID m) = 12 \<and> wf_key (dp_NodeKey m) \<and> 0 \<le> dp_Padding m
     \<and> (key_IsZero (dp_NodeKey m) \<longrightarrow> dp_Padding m < 32))"
| "wf_message (Pong m) = (length (pong_TxID m) = 12 \<and> plain_addr (ap_Addr (pong_Src m)))"
| "wf_message (CallMeMaybe eps) = list_all (\<lambda>e. plain_addr (ap_Addr e)) eps"
| "wf_message (BindUDPRelayEndpoint m) = wf_bind m"
| "wf_message (BindUDPRelayEndpointChallenge m) = wf_bind m"
| "wf_message (BindUDPRelayEndpointAnswer m) = wf_bind m"
| "wf_message (CallMeMaybeVia m) = wf_relay m"
| "wf_message (AllocateUDPRelayEndpointRequest m) = (wf_key (fst (ar_ClientDisco m)) \<and> wf_key (snd (ar_ClientDisco m)))"
| "wf_message (AllocateUDPRelayEndpointResponse g m) = wf_relay m"

lemma zero_key_IsZero: "wf_key k \<Longrightarrow> key_IsZero k \<longleftrightarrow> k = zero_key"
  by (auto simp: wf_key_def key_IsZero_def zero_key_def list_all_length intro: nth_equalityI)

lemma ping_data_padded:
  assumes "length (dp_TxID m) = 12" "wf_key (dp_NodeKey m)" "0 \<le> dp_Padding m"
  shows "ping_data spare m = Some (dp_TxID m @ (if key_IsZero (dp_NodeKey m) then [] else dp_NodeKey m) @ replicate (nat (dp_Padding m)) 0)"
  using assms by (auto simp: ping_data_def wf_key_def Let_def nat_add_distrib min_def)

lemma ping_roundtrip:
  assumes "wf_message (Ping m)"
  shows "\<exists>d. ping_data spare m = Some d \<and> parsePing v d = Some (Inr (Ping m))"
proof -
  have w: "length (dp_TxID m) = 12" "wf_key (dp_NodeKey m)" "0 \<le> dp_Padding m" "key_IsZero (dp_NodeKey m) \<Longrightarrow> dp_Padding m < 32"
    using assms by simp_all
  then show ?thesis unfolding ping_data_padded [OF w(1-3)]
    by (cases m) (auto simp: parsePing_def wf_key_def zero_key_IsZero Let_def)
qed

lemma disco_pong_roundtrip:
  assumes "wf_message (Pong m)"
  shows "parsePong v (pong_data m) = Some (Inr (Pong m))"
proof -
  have "slc (pong_data m) 12 28 = Some (As16_bytes (ap_Addr (pong_Src m)))"
    using assms by (simp add: pong_data_def ep_bytes_def slc_def)
  moreover have "slc (pong_data m) 28 (length (pong_data m)) = Some (PutUint16_be (ap_Port (pong_Src m)))"
    using assms by (simp add: pong_data_def ep_bytes_def slc_def)
  moreover have "length (pong_data m) = 30" "take 12 (pong_data m) = pong_TxID m" using assms by (simp_all add: pong_data_def)
  ultimately show ?thesis using assms by (cases m) (simp add: parsePong_def Unmap_As16 Uint_Put)
qed

lemma bind_roundtrip:
  assumes "wf_bind m"
  shows "bind_decode (bind_encode m) = Some (Inr m)"
proof -
  have "slc (bind_encode m) 0 4 = Some (PutUint32_be (bc_VNI m))" "slc (bind_encode m) 4 8 = Some (PutUint32_be (bc_Generation m))"
    "slc (bind_encode m) 8 40 = Some (bc_RemoteKey m)" "slc (bind_encode m) 40 72 = Some (bc_Challenge m)" "length (bind_encode m) = 72"
    using assms by (simp_all add: bind_encode_def slc_def wf_bind_def wf_key_def)
  then show ?thesis by (cases m) (simp add: bind_decode_def Uint_Put)
qed

lemma relay_roundtrip:
  assumes "wf_relay m"
  shows "relay_decode (relay_encode m) = Some (Inr m)"
proof -
  let ?b = "relay_encode m"
  have l: "length (re_ServerDisco m) = 32" "length (fst (re_ClientDisco m)) = 32" "length (snd (re_ClientDisco m)) = 32"
    using assms by (simp_all add: wf_relay_def wf_key_def)
  have "slc ?b 0 32 = Some (re_ServerDisco m)" "slc ?b 32 64 = Some (fst (re_ClientDisco m))" "slc ?b 64 96 = Some (snd (re_ClientDisco m))"
    "slc ?b 96 104 = Some (PutUint64_be (re_LamportID m))" "slc ?b 104 108 = Some (PutUint32_be (re_VNI m))"
    "slc ?b 108 116 = Some (PutUint64_be (re_BindLifetime m))" "slc ?b 116 124 = Some (PutUint64_be (re_SteadyStateLifetime m))"
    "drop 124 ?b = concat (map ep_bytes (re_AddrPorts m))" "length ?b = 124 + 18 * length (re_AddrPorts m)"
    unfolding relay_encode_def slc_def using l by simp_all
  moreover have "parse_eps (concat (map ep_bytes (re_AddrPorts m))) = Some (re_AddrPorts m)" "0 < length (re_AddrPorts m)"
    using assms parse_eps_bytes by (auto simp: wf_relay_def)
  ultimately show ?thesis by (cases m) (simp add: relay_decode_def Uint_Put)
qed


section \<open>The codec\<close>

lemma request_roundtrip:
  assumes "wf_message (AllocateUDPRelayEndpointRequest m)"
  shows "parseAllocateUDPRelayEndpointRequest 0 (request_data m) = Some (Inr (AllocateUDPRelayEndpointRequest m))"
proof -
  have "slc (request_data m) 0 32 = Some (fst (ar_ClientDisco m))" "slc (request_data m) 32 64 = Some (snd (ar_ClientDisco m))"
    "slc (request_data m) 64 (length (request_data m)) = Some (PutUint32_be (ar_Generation m))" "length (request_data m) = 68"
    using assms by (simp_all add: request_data_def slc_def wf_key_def)
  then show ?thesis by (cases m) (simp add: parseAllocateUDPRelayEndpointRequest_def Uint_Put)
qed

lemma Parse_marshal:
  assumes "wf_message m"
  shows "\<exists>bs. AppendMarshal spare m [] = Some bs \<and> disco_Parse bs = Some (Inr m)"
proof (cases m)
  case (Ping q)
  then obtain d where "ping_data spare q = Some d" "parsePing 0 d = Some (Inr m)" using assms ping_roundtrip by blast
  then show ?thesis by (simp add: Ping disco_Parse_def appendMsgHeader_def)
next
  case (CallMeMaybe eps)
  then show ?thesis
    using assms parse_eps_bytes [of eps] by (cases eps) (auto simp: disco_Parse_def appendMsgHeader_def parseCallMeMaybe_def)
next
  case (AllocateUDPRelayEndpointResponse g r)
  then have "relay_decode (relay_encode r) = Some (Inr r)" using assms relay_roundtrip by simp
  then show ?thesis
    unfolding AllocateUDPRelayEndpointResponse
    by (simp add: disco_Parse_def appendMsgHeader_def parseAllocateUDPRelayEndpointResponse_def Uint32_PutUint32)
qed (use assms in \<open>simp_all add: disco_Parse_def appendMsgHeader_def parse_bind_def parseCallMeMaybeVia_def
      disco_pong_roundtrip bind_roundtrip relay_roundtrip request_roundtrip del: wf_message.simps(1,2,8)\<close>)

lemma slc_total: "i \<le> j \<Longrightarrow> j \<le> length b \<Longrightarrow> \<exists>x. slc b i j = Some x"
  by (simp add: slc_def)

lemma relay_decode_total: "relay_decode b \<noteq> None"
proof (cases "length b < 142 \<or> (length b - 124) mod 18 \<noteq> 0")
  case False
  then obtain eps where "parse_eps (drop 124 b) = Some eps" using parse_eps_total [of "drop 124 b"] by auto
  with False show ?thesis by (simp add: relay_decode_def slc_def)
qed (auto simp: relay_decode_def)

lemma Parse_total: "disco_Parse p \<noteq> None"
  using relay_decode_total parse_eps_total
  by (auto simp: disco_Parse_def Let_def parsePing_def parsePong_def parseCallMeMaybe_def parse_bind_def bind_decode_def
      parseCallMeMaybeVia_def parseAllocateUDPRelayEndpointRequest_def parseAllocateUDPRelayEndpointResponse_def slc_def)

text \<open>C39: Discovery messages survive the wire and nothing else is dangerous: \<open>Parse\<close> never panics, whatever bytes a
  peer sends; it refuses what is shorter than a header and every unknown type; and for each message of the
  shapes that survive, \<open>AppendMarshal\<close> does not panic, and what it appends to a buffer leaves the buffer alone
  and parses back to the message.  The shapes that survive have array fields of their size and plain
  addresses (valid, without zone, not IPv4-mapped); a ping is not padded negatively, and one without a node
  key by less than 32 bytes; and a relay endpoint has at least one address.  A ping whose data would have a
  negative length makes \<open>AppendMarshal\<close> panic.\<close>

theorem disco_codec:
  "disco_Parse p \<noteq> None
   \<and> (length p < 2 \<longrightarrow> disco_Parse p = Some (Inl errShort))
   \<and> (2 \<le> length p \<and> (p ! 0 = 0 \<or> 9 < p ! 0) \<longrightarrow> disco_Parse p = Some (Inl (UnknownMessageType (p ! 0))))
   \<and> (wf_message m \<longrightarrow> (\<exists>bs. AppendMarshal spare m b = Some (b @ bs) \<and> disco_Parse bs = Some (Inr m)))
   \<and> (\<forall>q. m = Ping q \<and> (if key_IsZero (dp_NodeKey q) then 12 else 44) + dp_Padding q < 0 \<longrightarrow> AppendMarshal spare m b = None)"
proof -
  have "AppendMarshal spare m b = map_option ((@) b) (AppendMarshal spare m [])"
    by (cases m) (simp_all add: appendMsgHeader_def [abs_def] option.map_comp comp_def)
  then have "wf_message m \<longrightarrow> (\<exists>bs. AppendMarshal spare m b = Some (b @ bs) \<and> disco_Parse bs = Some (Inr m))"
    using Parse_marshal [of m spare] by auto
  moreover have "2 \<le> length p \<and> (p ! 0 = 0 \<or> 9 < p ! 0) \<longrightarrow> disco_Parse p = Some (Inl (UnknownMessageType (p ! 0)))"
    by (auto simp: disco_Parse_def Let_def)
  moreover have "length p < 2 \<longrightarrow> disco_Parse p = Some (Inl errShort)" by (simp add: disco_Parse_def)
  moreover have "\<forall>q. m = Ping q \<and> (if key_IsZero (dp_NodeKey q) then 12 else 44) + dp_Padding q < 0 \<longrightarrow> AppendMarshal spare m b = None"
    by (auto simp: ping_data_def Let_def)
  ultimately show ?thesis using Parse_total [of p] by blast
qed

definition demo_pong :: message where
  "demo_pong = Pong \<lparr> pong_TxID = replicate 12 7, pong_Src = AddrPort (AddrV4 0x7f000001) 4242 \<rparr>"

theorem disco_codec_witness:
  "(\<exists>bs. AppendMarshal 0 demo_pong [1, 2] = Some ([1, 2] @ bs) \<and> disco_Parse bs = Some (Inr demo_pong))
   \<and> disco_Parse [0, 0] = Some (Inl (UnknownMessageType 0))
   \<and> AppendMarshal 0 (Ping \<lparr> dp_TxID = replicate 12 7, dp_NodeKey = zero_key, dp_Padding = -13 \<rparr>) [] = None"
proof -
  have "wf_message demo_pong" by (simp add: demo_pong_def plain_addr_def addr_IsValid_def)
  moreover have "key_IsZero zero_key" by code_simp
  ultimately show ?thesis
    using disco_codec [of "[0, 0]" demo_pong 0 "[1, 2]"]
      disco_codec [of "[0, 0]" "Ping \<lparr> dp_TxID = replicate 12 7, dp_NodeKey = zero_key, dp_Padding = -13 \<rparr>" 0 "[]"] by simp
qed

text \<open>A ping without a node key whose padding is as long as a key reads back with less padding: the parser takes the
  first 32 zero bytes for a key.\<close>

lemma ping_padding_misread:
  assumes "length tx = 12" "32 \<le> n"
  shows "\<exists>bs. AppendMarshal spare (Ping \<lparr> dp_TxID = tx, dp_NodeKey = zero_key, dp_Padding = n \<rparr>) [] = Some bs
    \<and> disco_Parse bs = Some (Inr (Ping \<lparr> dp_TxID = tx, dp_NodeKey = zero_key, dp_Padding = n - 32 \<rparr>))"
proof -
  have z: "key_IsZero zero_key" "wf_key zero_key" by code_simp+
  have "ping_data spare \<lparr> dp_TxID = tx, dp_NodeKey = zero_key, dp_Padding = n \<rparr> = Some (tx @ replicate (nat n) 0)"
    using ping_data_padded [of "\<lparr> dp_TxID = tx, dp_NodeKey = zero_key, dp_Padding = n \<rparr>"] assms z by simp
  moreover have "take 32 (replicate (nat n) (0 :: byte)) = zero_key" using assms(2) by (simp add: zero_key_def min_def)
  ultimately show ?thesis using assms by (simp add: disco_Parse_def appendMsgHeader_def parsePing_def Let_def)
qed

text \<open>A relay endpoint without addresses can be sent but not received.\<close>

lemma empty_relay_unreadable:
  assumes "wf_key (re_ServerDisco m)" "wf_key (fst (re_ClientDisco m))" "wf_key (snd (re_ClientDisco m))" "re_AddrPorts m = []"
  shows "\<exists>bs. AppendMarshal spare (CallMeMaybeVia m) [] = Some bs \<and> disco_Parse bs = Some (Inl errShort)"
  using assms by (simp add: disco_Parse_def appendMsgHeader_def parseCallMeMaybeVia_def relay_decode_def relay_encode_def wf_key_def)

end
