(* ===== verification/Stun.thy ===== *)
theory Stun
  imports Disco
begin

text \<open>STUN binding requests and responses: \<open>net/stun/stun.go\<close>.  A transaction identifier is a list of 12 bytes; the
  CRC-32 of Go's standard library is written out.\<close>

section \<open>Packets\<close>

abbreviation attrNumSoftware :: u16 where "attrNumSoftware \<equiv> 0x8022"
abbreviation attrNumFingerprint :: u16 where "attrNumFingerprint \<equiv> 0x8028"
abbreviation attrMappedAddress :: u16 where "attrMappedAddress \<equiv> 0x0001"
abbreviation attrXorMappedAddress :: u16 where "attrXorMappedAddress \<equiv> 0x0020"
abbreviation attrXorMappedAddressAlt :: u16 where "attrXorMappedAddressAlt \<equiv> 0x8020"
abbreviation lenFingerprint :: nat where "lenFingerprint \<equiv> 8"
abbreviation stun_headerLen :: nat where "stun_headerLen \<equiv> 20"

definition software :: "byte list" where "software = map of_char ''tailnode''"
definition bindingRequest :: "byte list" where "bindingRequest = [0, 1]"
definition magicCookie :: "byte list" where "magicCookie = [0x21, 0x12, 0xa4, 0x42]"

datatype stun_error = ErrNotSTUN | ErrNotSuccessResponse | ErrMalformedAttrs | ErrNotBindingRequest
  | ErrWrongSoftware | ErrNoFingerprint | ErrWrongFingerprint

definition crc_bit :: "u32 \<Rightarrow> u32" where
  "crc_bit c = (if bit c 0 then drop_bit 1 c XOR 0xEDB88320 else drop_bit 1 c)"

definition ChecksumIEEE :: "byte list \<Rightarrow> u32" where
  "ChecksumIEEE bs = NOT (foldl (\<lambda>c b. (crc_bit ^^ 8) (c XOR ucast b)) (NOT 0) bs)"

definition fingerPrint :: "byte list \<Rightarrow> u32" where
  "fingerPrint b = ChecksumIEEE b XOR 0x5354554e"

definition appendU16 :: "byte list \<Rightarrow> u16 \<Rightarrow> byte list" where "appendU16 b v = b @ PutUint16_be v"
definition appendU32 :: "byte list \<Rightarrow> u32 \<Rightarrow> byte list" where "appendU32 b v = b @ PutUint32_be v"

definition Request :: "byte list \<Rightarrow> byte list" where
  "Request tID =
     (let lenAttrSoftware = 4 + length software;
          b = bindingRequest;
          b = appendU16 b (of_nat (lenAttrSoftware + lenFingerprint));
          b = b @ magicCookie;
          b = b @ tID;
          b = appendU16 b attrNumSoftware;
          b = appendU16 b (of_nat (length software));
          b = b @ software;
          fp = fingerPrint b;
          b = appendU16 b attrNumFingerprint;
          b = appendU16 b 4 in
      appendU32 b fp)"

definition stun_Is :: "byte list \<Rightarrow> bool" where
  "stun_Is b \<longleftrightarrow> stun_headerLen \<le> length b \<and> b ! 0 AND 0xC0 = 0 \<and> take 4 (drop 4 b) = magicCookie"

text \<open>The loop over attributes; \<open>fn\<close> may stop it with an error.\<close>

function foreachAttr :: "byte list \<Rightarrow> (u16 \<Rightarrow> byte list \<Rightarrow> 's \<Rightarrow> stun_error + 's) \<Rightarrow> 's \<Rightarrow> stun_error + 's" where
  "foreachAttr b fn s =
     (if b = [] then Inr s
      else if length b < 4 then Inl ErrMalformedAttrs
      else
        let attrType = Uint16_be (take 2 b);
            attrLen = unat (Uint16_be (take 2 (drop 2 b)));
            attrLenWithPad = (attrLen + 3) div 4 * 4;
            b = drop 4 b in
        if length b < attrLenWithPad then Inl ErrMalformedAttrs
        else bind_res (fn attrType (take attrLen b) s) (foreachAttr (drop attrLenWithPad b) fn))"
  by pat_completeness auto
termination
  by (relation "measure (\<lambda>(b, _). length b)") auto

declare foreachAttr.simps [simp del]

record request_attrs =
  softwareOK :: bool
  lastAttr :: u16
  gotFP :: u32

definition request_attr :: "u16 \<Rightarrow> byte list \<Rightarrow> request_attrs \<Rightarrow> stun_error + request_attrs" where
  "request_attr attrType a s =
     (let s = s \<lparr> lastAttr := attrType \<rparr>;
          s = (if attrType = attrNumSoftware \<and> a = software then s \<lparr> softwareOK := True \<rparr> else s);
          s = (if attrType = attrNumFingerprint \<and> length a = 4 then s \<lparr> gotFP := Uint32_be a \<rparr> else s) in
      Inr s)"

definition ParseBindingRequest :: "byte list \<Rightarrow> stun_error + byte list" where
  "ParseBindingRequest b =
     (if \<not> stun_Is b then Inl ErrNotSTUN
      else if take (length bindingRequest) b \<noteq> bindingRequest then Inl ErrNotBindingRequest
      else
        let txID = take 12 (drop 8 b) in
        bind_res (foreachAttr (drop stun_headerLen b) request_attr \<lparr> softwareOK = False, lastAttr = 0, gotFP = 0 \<rparr>)
          (\<lambda>s. if \<not> softwareOK s then Inl ErrWrongSoftware
               else if lastAttr s \<noteq> attrNumFingerprint then Inl ErrNoFingerprint
               else if gotFP s \<noteq> fingerPrint (take (length b - lenFingerprint) b) then Inl ErrWrongFingerprint
               else Inr txID))"

text \<open>The address bytes are xored with the cookie and the transaction identifier.\<close>

definition xor_key :: "byte list \<Rightarrow> byte list \<Rightarrow> byte list" where
  "xor_key tID bs = map2 (\<lambda>x k. x XOR k) bs (magicCookie @ tID)"

text \<open>\<open>[]\<close> stands for \<open>nil\<close>.\<close>

definition stun_Response :: "byte list \<Rightarrow> addrport \<Rightarrow> byte list" where
  "stun_Response txID addrPort =
     (let addr = ap_Addr addrPort in
      if \<not> Is4 addr \<and> \<not> Is6 addr then []
      else
        let fam = (if Is4 addr then 1 else 2);
            attrsLen = 8 + BitLen addr div 8;
            b = [1, 1];
            b = appendU16 b (of_nat attrsLen);
            b = b @ magicCookie;
            b = b @ txID;
            b = appendU16 b attrXorMappedAddress;
            b = appendU16 b (of_nat (4 + BitLen addr div 8));
            b = b @ [0, fam];
            b = appendU16 b (ap_Port addrPort XOR 0x2112) in
        b @ xor_key txID (drop (16 - BitLen addr div 8) (As16_bytes addr)))"

definition familyAddrLen :: "byte \<Rightarrow> nat" where
  "familyAddrLen fam = (if fam = 1 then 4 else if fam = 2 then 16 else 0)"

definition xorMappedAddress :: "byte list \<Rightarrow> byte list \<Rightarrow> stun_error + (byte list \<times> u16)" where
  "xorMappedAddress tID b =
     (if length b < 4 then Inl ErrMalformedAttrs
      else
        let xorPort = Uint16_be (take 2 (drop 2 b));
            addrField = drop 4 b;
            port = xorPort XOR 0x2112;
            addrLen = familyAddrLen (b ! 1) in
        if addrLen = 0 then Inl ErrMalformedAttrs
        else if length addrField < addrLen then Inl ErrMalformedAttrs
        else Inr (xor_key tID (take addrLen addrField), port))"

definition mappedAddress :: "byte list \<Rightarrow> stun_error + (byte list \<times> u16)" where
  "mappedAddress b =
     (if length b < 4 then Inl ErrMalformedAttrs
      else
        let port = push_bit 8 (ucast (b ! 2)) OR ucast (b ! 3);
            addrField = drop 4 b;
            addrLen = familyAddrLen (b ! 1) in
        if addrLen = 0 then Inl ErrMalformedAttrs
        else if length addrField < addrLen then Inl ErrMalformedAttrs
        else Inr (take addrLen addrField, port))"

definition store_addr :: "addrport \<Rightarrow> byte list \<times> u16 \<Rightarrow> addrport" where
  "store_addr old ap = (case AddrFromSlice (fst ap) of Some ip \<Rightarrow> AddrPort (Unmap ip) (snd ap) | None \<Rightarrow> old)"

definition zero_ap :: addrport where "zero_ap = AddrPort AddrZero 0"

definition response_attr :: "byte list \<Rightarrow> u16 \<Rightarrow> byte list \<Rightarrow> addrport \<times> addrport \<Rightarrow> stun_error + (addrport \<times> addrport)" where
  "response_attr tID attrType attr s =
     (if attrType = attrXorMappedAddress \<or> attrType = attrXorMappedAddressAlt
      then bind_res (xorMappedAddress tID attr) (\<lambda>ap. Inr (store_addr (fst s) ap, snd s))
      else if attrType = attrMappedAddress
      then (case mappedAddress attr of Inl _ \<Rightarrow> Inl ErrMalformedAttrs | Inr ap \<Rightarrow> Inr (fst s, store_addr (snd s) ap))
      else Inr s)"

definition ParseResponse :: "byte list \<Rightarrow> stun_error + (byte list \<times> addrport)" where
  "ParseResponse b0 =
     (if \<not> stun_Is b0 then Inl ErrNotSTUN
      else
        let tID = take 12 (drop 8 b0) in
        if b0 ! 0 \<noteq> 1 \<or> b0 ! 1 \<noteq> 1 then Inl ErrNotSuccessResponse
        else
          let attrsLen = unat (Uint16_be (take 2 (drop 2 b0)));
              b = drop stun_headerLen b0 in
          if length b < attrsLen then Inl ErrMalformedAttrs
          else
            let b = (if attrsLen < length b then take attrsLen b else b) in
            bind_res (foreachAttr b (response_attr tID) (zero_ap, zero_ap))
              (\<lambda>(addr, fallbackAddr).
                 if addr_IsValid (ap_Addr addr) then Inr (tID, addr)
                 else if addr_IsValid (ap_Addr fallbackAddr) then Inr (tID, fallbackAddr)
                 else Inl ErrMalformedAttrs))"


section \<open>Attributes on the wire\<close>

lemma foreachAttr_Nil [simp]: "foreachAttr [] fn s = Inr s"
  by (simp add: foreachAttr.simps)

lemma PutUint16_ne [simp]: "PutUint16_be v \<noteq> []"
  using length_PutUint(1) [of v] by (metis list.size(3) zero_neq_numeral)

lemma foreachAttr_Cons:
  assumes "length a < 65536" "length a mod 4 = 0"
  shows "foreachAttr (PutUint16_be t @ PutUint16_be (of_nat (length a)) @ a @ rest) fn s = bind_res (fn t a s) (foreachAttr rest fn)"
proof -
  have "unat (of_nat (length a) :: u16) = length a" using assms(1) by (simp add: unat_of_nat)
  moreover have "(length a + 3) div 4 * 4 = length a" using assms(2) by presburger
  ultimately show ?thesis by (subst foreachAttr.simps) (simp add: Uint_Put)
qed

lemma length_software [simp]: "length software = 8"
  by (simp add: software_def)

lemma length_magicCookie [simp]: "length magicCookie = 4"
  by (simp add: magicCookie_def)

text \<open>The parts of a request.\<close>

definition request_head :: "byte list \<Rightarrow> byte list" where
  "request_head tID = bindingRequest @ PutUint16_be 20 @ magicCookie @ tID
     @ PutUint16_be attrNumSoftware @ PutUint16_be (of_nat (length software)) @ software"

lemma Request_parts:
  "Request tID = request_head tID @ PutUint16_be attrNumFingerprint @ PutUint16_be (of_nat (length (PutUint32_be (fingerPrint (request_head tID)))))
     @ PutUint32_be (fingerPrint (request_head tID)) @ []"
  by (simp add: Request_def request_head_def appendU16_def appendU32_def Let_def)

lemma request_parses:
  assumes "length tID = 12"
  shows "ParseBindingRequest (Request tID) = Inr tID"
proof -
  let ?fp = "PutUint32_be (fingerPrint (request_head tID))"
  let ?tail = "PutUint16_be attrNumFingerprint @ PutUint16_be (of_nat (length ?fp)) @ ?fp @ []"
  have len: "length (request_head tID) = 32" using assms by (simp add: request_head_def bindingRequest_def)
  have tl: "length ?tail = 8" by simp
  have body: "drop 20 (Request tID) = PutUint16_be attrNumSoftware @ PutUint16_be (of_nat (length software)) @ software @ ?tail"
    using assms unfolding Request_parts request_head_def by (simp add: bindingRequest_def)
  have loop: "foreachAttr (drop 20 (Request tID)) request_attr \<lparr> softwareOK = False, lastAttr = 0, gotFP = 0 \<rparr>
      = Inr \<lparr> softwareOK = True, lastAttr = attrNumFingerprint, gotFP = fingerPrint (request_head tID) \<rparr>"
    using foreachAttr_Cons [of software attrNumSoftware ?tail request_attr]
      foreachAttr_Cons [of ?fp attrNumFingerprint "[]" request_attr]
    unfolding body by (simp add: request_attr_def Let_def Uint_Put)
  have "take (length (Request tID) - 8) (Request tID) = request_head tID"
    unfolding Request_parts using len tl by simp
  moreover have "take 2 (Request tID) = bindingRequest" "take 12 (drop 8 (Request tID)) = tID" "stun_Is (Request tID)"
    using assms unfolding Request_parts request_head_def stun_Is_def by (simp_all add: bindingRequest_def)
  ultimately show ?thesis using loop by (simp add: ParseBindingRequest_def bindingRequest_def numeral_2_eq_2)
qed


lemma be_nat_drop: "be_nat (drop n bs) = be_nat bs mod 256 ^ (length bs - n)"
proof -
  have "be_nat bs = be_nat (take n bs) * 256 ^ length (drop n bs) + be_nat (drop n bs)"
    using be_nat_append [of "take n bs" "drop n bs"] by simp
  then show ?thesis using be_nat_bound [of "drop n bs"] by simp
qed

lemma AddrFrom4_drop_As16: "AddrFrom4 (drop 12 (As16_bytes (AddrV4 w))) = AddrV4 w"
proof -
  let ?v = "0xffff00000000 OR ucast w :: 128 word"
  have "unat ?v < 256 ^ 16" using unsigned_less [of ?v, where ?'a = nat] by simp
  then have "be_nat (drop 12 (As16_bytes (AddrV4 w))) = unat ?v mod 2 ^ 32"
    by (simp add: be_nat_drop As16_bytes_def be_nat_nat_be del: nat_be.simps)
  moreover have "(of_nat (x mod 2 ^ 32) :: 32 word) = of_nat x" for x by (simp add: word_of_nat_eq_iff take_bit_eq_mod)
  ultimately have "(of_nat (be_nat (drop 12 (As16_bytes (AddrV4 w)))) :: 32 word) = of_nat (unat ?v)" by metis
  also have "\<dots> = ucast ?v" by simp
  also have "\<dots> = w"
  proof -
    have "ucast (push_bit 32 k OR ucast w :: 128 word) = w" for k :: "128 word"
      by (rule bit_word_eqI) (auto simp: bit_simps)
    moreover have c: "(0xffff00000000 :: 128 word) = push_bit 32 0xffff" by simp
    ultimately show ?thesis unfolding c by blast
  qed
  finally show ?thesis by (simp add: AddrFrom4_def)
qed

lemma xor_key_twice: "length bs \<le> 4 + length tID \<Longrightarrow> xor_key tID (xor_key tID bs) = bs"
  by (rule nth_equalityI) (auto simp: xor_key_def xor.assoc)

lemma length_xor_key [simp]: "length bs \<le> 4 + length tID \<Longrightarrow> length (xor_key tID bs) = length bs"
  by (simp add: xor_key_def)


text \<open>The address in a response.\<close>

lemma response_addr:
  assumes "plain_addr a" "length tID = 12"
  shows "store_addr old (xor_key tID (xor_key tID (drop (16 - BitLen a div 8) (As16_bytes a))), p) = AddrPort a p"
proof (cases a)
  case (AddrV4 w)
  then show ?thesis
    using assms AddrFrom4_drop_As16 [of w] by (simp add: xor_key_twice store_addr_def AddrFromSlice_def)
next
  case (AddrV6 w z)
  then show ?thesis
    using assms Unmap_As16 [OF assms(1)] by (simp add: xor_key_twice store_addr_def AddrFromSlice_def)
qed (use assms in \<open>simp add: plain_addr_def addr_IsValid_def\<close>)

lemma response_parses:
  assumes "plain_addr a" "length tID = 12"
  shows "ParseResponse (stun_Response tID (AddrPort a p)) = Inr (tID, AddrPort a p)"
proof -
  let ?n = "BitLen a div 8" and ?x = "xor_key tID (drop (16 - BitLen a div 8) (As16_bytes a))"
  let ?fam = "if Is4 a then 1 else 2 :: byte"
  let ?attr = "[0, ?fam] @ PutUint16_be (p XOR 0x2112) @ ?x"
  have fam: "Is4 a \<or> Is6 a" "Is4 a \<longrightarrow> ?n = 4" "Is6 a \<longrightarrow> ?n = 16" "?n = 4 \<or> ?n = 16" "familyAddrLen ?fam = ?n"
    using assms(1) by (cases a; simp add: plain_addr_def addr_IsValid_def familyAddrLen_def)+
  have lx: "length ?x = ?n" using fam(4) assms(2) by (subst length_xor_key) auto
  then have la: "length ?attr = 4 + ?n" by simp
  have r: "stun_Response tID (AddrPort a p) = [1, 1] @ PutUint16_be (of_nat (8 + ?n)) @ magicCookie @ tID
      @ PutUint16_be attrXorMappedAddress @ PutUint16_be (of_nat (length ?attr)) @ ?attr @ []"
    unfolding la using fam(1) by (simp add: stun_Response_def appendU16_def Let_def)
  have "unat (of_nat (8 + ?n) :: u16) = 8 + ?n" using fam(4) by (auto simp: unat_of_nat)
  then have attrs: "unat (Uint16_be (take 2 (drop 2 (stun_Response tID (AddrPort a p))))) = 8 + ?n"
    unfolding r by (simp add: Uint_Put del: of_nat_add)
  have body: "drop 20 (stun_Response tID (AddrPort a p)) =
      PutUint16_be attrXorMappedAddress @ PutUint16_be (of_nat (length ?attr)) @ ?attr @ []"
    unfolding r using assms(2) by simp
  have "xorMappedAddress tID ?attr = Inr (xor_key tID ?x, p)"
    using lx fam(4,5) by (auto simp: xorMappedAddress_def Let_def Uint_Put xor.assoc)
  then have "response_attr tID attrXorMappedAddress ?attr (zero_ap, zero_ap) = Inr (AddrPort a p, zero_ap)"
    using response_addr [OF assms] by (simp add: response_attr_def)
  then have "foreachAttr (drop 20 (stun_Response tID (AddrPort a p))) (response_attr tID) (zero_ap, zero_ap) = Inr (AddrPort a p, zero_ap)"
    unfolding body using fam(4) la by (subst foreachAttr_Cons) auto
  moreover have "stun_Is (stun_Response tID (AddrPort a p))" "take 12 (drop 8 (stun_Response tID (AddrPort a p))) = tID"
    "stun_Response tID (AddrPort a p) ! 0 = 1" "stun_Response tID (AddrPort a p) ! 1 = 1"
    "length (drop 20 (stun_Response tID (AddrPort a p))) = 8 + ?n"
    unfolding r stun_Is_def using assms(2) la by simp_all
  moreover have "addr_IsValid a" using assms(1) by (simp add: plain_addr_def)
  ultimately show ?thesis by (simp add: ParseResponse_def attrs Let_def)
qed


section \<open>Property\<close>

text \<open>C40: STUN packets are read back as they were written: the server recovers the transaction identifier of every
  request this package makes, and the client recovers the identifier and the reported address and port of
  every response, for each IPv4 address and each plain IPv6 address; and a packet without the cookie is
  refused by both parsers.\<close>

theorem stun_roundtrip:
  assumes "length tID = 12" and "plain_addr a"
  shows "ParseBindingRequest (Request tID) = Inr tID
    \<and> ParseResponse (stun_Response tID (AddrPort a p)) = Inr (tID, AddrPort a p)
    \<and> (take 4 (drop 4 b) \<noteq> magicCookie \<longrightarrow> ParseBindingRequest b = Inl ErrNotSTUN \<and> ParseResponse b = Inl ErrNotSTUN)"
  using request_parses [OF assms(1)] response_parses [OF assms(2,1)]
  by (simp add: ParseBindingRequest_def [of b] ParseResponse_def [of b] stun_Is_def)

theorem stun_roundtrip_witness:
  "ParseBindingRequest (Request (replicate 12 5)) = Inr (replicate 12 5)
   \<and> ParseResponse (stun_Response (replicate 12 5) (AddrPort (AddrV4 0x01020304) 99)) = Inr (replicate 12 5, AddrPort (AddrV4 0x01020304) 99)"
  using stun_roundtrip [of "replicate 12 5" "AddrV4 0x01020304" 99 "[]"] by (simp add: plain_addr_def addr_IsValid_def)

text \<open>A response about an IPv4-mapped address is read as the IPv4 address.\<close>

lemma mapped_response_unmapped:
  "ParseResponse (stun_Response (replicate 12 5) (AddrPort (AddrV6 0xffff01020304 []) 99)) = Inr (replicate 12 5, AddrPort (AddrV4 0x01020304) 99)"
  by code_simp

end
