(* ===== verification/PeerMap.thy ===== *)
theory PeerMap
  imports Geneve Disco
begin

text \<open>The index of peers by node key, node identifier and address: \<open>wgengine/magicsock/peermap.go\<close>.

  A \<open>*peerInfo\<close> shared by several indexes is a number into a store.  An endpoint carries a number for its pointer,
  which is what \<open>==\<close> compares.\<close>

section \<open>State\<close>

record ep_addr =
  ea_ap :: addrport
  ea_vni :: vni

record endpoint =
  ep_ptr :: nat
  ep_publicKey :: raw_key
  ep_nodeID :: int
  ep_disco :: "raw_key option"
  ep_isWireguardOnly :: bool
  ep_endpointState :: "addrport list"

record peer_info =
  pi_ep :: endpoint
  pi_epAddrs :: "ep_addr list"

record peer_map =
  pm_store :: "(nat \<times> peer_info) list"
  pm_next :: nat
  byNodeKey :: "(raw_key \<times> nat) list"
  byEpAddr :: "(ep_addr \<times> nat) list"
  byNodeID :: "(int \<times> nat) list"
  relayEpAddrByNodeKey :: "(raw_key \<times> ep_addr) list"
  nodesOfDisco :: "(raw_key \<times> raw_key list) list"

definition newPeerMap :: peer_map where
  "newPeerMap = \<lparr> pm_store = [], pm_next = 0, byNodeKey = [], byEpAddr = [], byNodeID = [],
     relayEpAddrByNodeKey = [], nodesOfDisco = [] \<rparr>"

definition info_at :: "peer_map \<Rightarrow> nat \<Rightarrow> peer_info option" where
  "info_at m i = map_of (pm_store m) i"

definition upd_info :: "nat \<Rightarrow> (peer_info \<Rightarrow> peer_info) \<Rightarrow> peer_map \<Rightarrow> peer_map" where
  "upd_info i f m = (case info_at m i of None \<Rightarrow> m | Some pi \<Rightarrow> m \<lparr> pm_store := AList.update i (f pi) (pm_store m) \<rparr>)"

definition del_addr :: "ep_addr \<Rightarrow> peer_info \<Rightarrow> peer_info" where
  "del_addr a pi = pi \<lparr> pi_epAddrs := removeAll a (pi_epAddrs pi) \<rparr>"

definition add_addr :: "ep_addr \<Rightarrow> peer_info \<Rightarrow> peer_info" where
  "add_addr a pi = pi \<lparr> pi_epAddrs := List.insert a (pi_epAddrs pi) \<rparr>"


section \<open>Lookups\<close>

text \<open>\<open>None\<close> is the panic of a development build.\<close>

definition nodeCount :: "peer_map \<Rightarrow> nat option" where
  "nodeCount m = (if length (byNodeKey m) \<noteq> length (byNodeID m) then None else Some (length (byNodeKey m)))"

definition knownPeerDiscoKey :: "peer_map \<Rightarrow> raw_key \<Rightarrow> bool" where
  "knownPeerDiscoKey m dk \<longleftrightarrow> has_key (nodesOfDisco m) dk"

definition ep_of :: "peer_map \<Rightarrow> nat option \<Rightarrow> endpoint option" where
  "ep_of m i = (case i of None \<Rightarrow> None | Some i \<Rightarrow> map_option pi_ep (info_at m i))"

definition endpointForNodeKey :: "peer_map \<Rightarrow> raw_key \<Rightarrow> endpoint option" where
  "endpointForNodeKey m nk = (if key_IsZero nk then None else ep_of m (map_of (byNodeKey m) nk))"

definition endpointForNodeID :: "peer_map \<Rightarrow> int \<Rightarrow> endpoint option" where
  "endpointForNodeID m nodeID = ep_of m (map_of (byNodeID m) nodeID)"

definition endpointForEpAddr :: "peer_map \<Rightarrow> ep_addr \<Rightarrow> endpoint option" where
  "endpointForEpAddr m addr = ep_of m (map_of (byEpAddr m) addr)"

text \<open>The endpoints the callback sees when it always goes on.\<close>

definition forEachEndpoint :: "peer_map \<Rightarrow> endpoint list" where
  "forEachEndpoint m = List.map_filter (\<lambda>(_, i). ep_of m (Some i)) (byNodeKey m)"

definition forEachEndpointWithDiscoKey :: "peer_map \<Rightarrow> raw_key \<Rightarrow> endpoint list" where
  "forEachEndpointWithDiscoKey m dk =
     (case map_of (nodesOfDisco m) dk of None \<Rightarrow> [] | Some nks \<Rightarrow> List.map_filter (\<lambda>nk. ep_of m (map_of (byNodeKey m) nk)) nks)"


section \<open>Updates\<close>

text \<open>\<open>setNodeKeyForEpAddr\<close> first takes the address from its peer, then gives it to the new one, which loses its former
  relay address when the address is a relay's.\<close>

definition detach :: "ep_addr \<Rightarrow> peer_map \<Rightarrow> peer_map" where
  "detach addr m0 =
     (case map_of (byEpAddr m0) addr of
        None \<Rightarrow> m0
      | Some i \<Rightarrow>
          let m = upd_info i (del_addr addr) m0;
              m = m \<lparr> byEpAddr := AList.delete addr (byEpAddr m) \<rparr> in
          if vni_IsSet (ea_vni addr)
          then (case info_at m0 i of None \<Rightarrow> m
             | Some pi \<Rightarrow> m \<lparr> relayEpAddrByNodeKey := AList.delete (ep_publicKey (pi_ep pi)) (relayEpAddrByNodeKey m) \<rparr>)
          else m)"

definition drop_relay :: "raw_key \<Rightarrow> nat \<Rightarrow> peer_map \<Rightarrow> peer_map" where
  "drop_relay nk j m =
     (case map_of (relayEpAddrByNodeKey m) nk of
        None \<Rightarrow> m
      | Some relay \<Rightarrow> (upd_info j (del_addr relay) m) \<lparr> byEpAddr := AList.delete relay (byEpAddr m) \<rparr>)"

definition attach :: "ep_addr \<Rightarrow> raw_key \<Rightarrow> peer_map \<Rightarrow> peer_map" where
  "attach addr nk m =
     (case map_of (byNodeKey m) nk of
        None \<Rightarrow> m
      | Some j \<Rightarrow>
          let m = (if vni_IsSet (ea_vni addr) then
                let m = drop_relay nk j m in
                m \<lparr> relayEpAddrByNodeKey := AList.update nk addr (relayEpAddrByNodeKey m) \<rparr>
              else m);
              m = upd_info j (add_addr addr) m in
          m \<lparr> byEpAddr := AList.update addr j (byEpAddr m) \<rparr>)"

definition setNodeKeyForEpAddr :: "ep_addr \<Rightarrow> raw_key \<Rightarrow> peer_map \<Rightarrow> peer_map" where
  "setNodeKeyForEpAddr addr nk m = attach addr nk (detach addr m)"

definition disco_remove :: "raw_key \<Rightarrow> raw_key \<Rightarrow> peer_map \<Rightarrow> peer_map" where
  "disco_remove dk nk m =
     (case map_of (nodesOfDisco m) dk of
        None \<Rightarrow> m | Some nks \<Rightarrow> m \<lparr> nodesOfDisco := AList.update dk (removeAll nk nks) (nodesOfDisco m) \<rparr>)"

definition disco_add :: "raw_key \<Rightarrow> raw_key \<Rightarrow> peer_map \<Rightarrow> peer_map" where
  "disco_add dk nk m =
     m \<lparr> nodesOfDisco := AList.update dk
           (List.insert nk (case map_of (nodesOfDisco m) dk of None \<Rightarrow> [] | Some nks \<Rightarrow> nks)) (nodesOfDisco m) \<rparr>"

definition get_or_new :: "endpoint \<Rightarrow> peer_map \<Rightarrow> nat \<times> peer_map" where
  "get_or_new ep m =
     (case map_of (byNodeKey m) (ep_publicKey ep) of
        Some i \<Rightarrow> (i, m)
      | None \<Rightarrow> (pm_next m, m \<lparr> pm_store := AList.update (pm_next m) \<lparr> pi_ep = ep, pi_epAddrs = [] \<rparr> (pm_store m), pm_next := pm_next m + 1,
          byNodeKey := AList.update (ep_publicKey ep) (pm_next m) (byNodeKey m) \<rparr>))"

text \<open>\<open>None\<close> is a panic: a zero node identifier, or a peer with neither a disco key nor the WireGuard-only mark.\<close>

definition upsertEndpoint :: "endpoint \<Rightarrow> raw_key \<Rightarrow> peer_map \<Rightarrow> peer_map option" where
  "upsertEndpoint ep oldDiscoKey m0 =
     (if ep_nodeID ep = 0 then None
      else case get_or_new ep m0 of (i, m) \<Rightarrow>
        let m = m \<lparr> byNodeID := AList.update (ep_nodeID ep) i (byNodeID m) \<rparr>;
            m = (if ep_disco ep = None \<or> Some oldDiscoKey \<noteq> ep_disco ep then disco_remove oldDiscoKey (ep_publicKey ep) m else m) in
        if ep_isWireguardOnly ep
        then Some (fold (\<lambda>ipp. setNodeKeyForEpAddr \<lparr> ea_ap = ipp, ea_vni = 0 \<rparr> (ep_publicKey ep)) (ep_endpointState ep) m)
        else case ep_disco ep of None \<Rightarrow> None | Some dk \<Rightarrow> Some (disco_add dk (ep_publicKey ep) m))"

text \<open>The \<open>stopAndReset\<close> of \<open>deleteEndpoint\<close> stops the endpoint's timers and relay work and resets its best address, its
  pings and their times, which the record of an endpoint does not hold; it keeps every field the map uses.  A nil
  endpoint is \<open>None\<close>.\<close>

definition deleteEndpoint :: "endpoint option \<Rightarrow> peer_map \<Rightarrow> peer_map" where
  "deleteEndpoint epo m0 = (case epo of None \<Rightarrow> m0 | Some ep \<Rightarrow>
     (let pi = map_of (byNodeKey m0) (ep_publicKey ep);
          m = (case ep_disco ep of None \<Rightarrow> m0 | Some dk \<Rightarrow> disco_remove dk (ep_publicKey ep) m0);
          m = m \<lparr> byNodeKey := AList.delete (ep_publicKey ep) (byNodeKey m) \<rparr>;
          m = (if (case endpointForNodeID m (ep_nodeID ep) of None \<Rightarrow> False | Some was \<Rightarrow> ep_ptr was = ep_ptr ep)
               then m \<lparr> byNodeID := AList.delete (ep_nodeID ep) (byNodeID m) \<rparr> else m) in
      case (case pi of None \<Rightarrow> None | Some i \<Rightarrow> info_at m i) of
        None \<Rightarrow> m
      | Some info \<Rightarrow>
          m \<lparr> byEpAddr := fold AList.delete (pi_epAddrs info) (byEpAddr m),
              relayEpAddrByNodeKey := AList.delete (ep_publicKey ep) (relayEpAddrByNodeKey m) \<rparr>))"


section \<open>The indexes agree\<close>

abbreviation keyIx :: "peer_map \<Rightarrow> raw_key \<Rightarrow> nat option" where "keyIx m \<equiv> map_of (byNodeKey m)"
abbreviation addrIx :: "peer_map \<Rightarrow> ep_addr \<Rightarrow> nat option" where "addrIx m \<equiv> map_of (byEpAddr m)"
abbreviation relayIx :: "peer_map \<Rightarrow> raw_key \<Rightarrow> ep_addr option" where "relayIx m \<equiv> map_of (relayEpAddrByNodeKey m)"
abbreviation is_relay :: "ep_addr \<Rightarrow> bool" where "is_relay a \<equiv> vni_IsSet (ea_vni a)"
abbreviation info_key :: "peer_info \<Rightarrow> raw_key" where "info_key pi \<equiv> ep_publicKey (pi_ep pi)"

text \<open>The index by address and the address sets are inverse to each other, and a peer's relay address is the one relay
  address that leads to it.\<close>

definition addr_inv :: "peer_map \<Rightarrow> bool" where
  "addr_inv m \<longleftrightarrow>
     (\<forall>i pi. info_at m i = Some pi \<longrightarrow> i < pm_next m)
   \<and> (\<forall>k i. keyIx m k = Some i \<longrightarrow> (\<exists>pi. info_at m i = Some pi \<and> info_key pi = k))
   \<and> (\<forall>a i. addrIx m a = Some i \<longrightarrow> (\<exists>pi. info_at m i = Some pi \<and> a \<in> set (pi_epAddrs pi) \<and> keyIx m (info_key pi) = Some i))
   \<and> (\<forall>k i pi a. keyIx m k = Some i \<and> info_at m i = Some pi \<and> a \<in> set (pi_epAddrs pi) \<longrightarrow> addrIx m a = Some i)"

definition relay_inv :: "peer_map \<Rightarrow> bool" where
  "relay_inv m \<longleftrightarrow>
     (\<forall>k a. relayIx m k = Some a \<longrightarrow> is_relay a \<and> (\<exists>i. keyIx m k = Some i \<and> addrIx m a = Some i))
   \<and> (\<forall>a i pi. addrIx m a = Some i \<and> is_relay a \<and> info_at m i = Some pi \<longrightarrow> relayIx m (info_key pi) = Some a)"

definition pm_inv :: "peer_map \<Rightarrow> bool" where
  "pm_inv m \<longleftrightarrow> addr_inv m \<and> relay_inv m"

text \<open>The key of the peer an address leads to.\<close>

definition owner :: "peer_map \<Rightarrow> ep_addr \<Rightarrow> raw_key option" where
  "owner m a = map_option ep_publicKey (endpointForEpAddr m a)"

lemma owner_iff: "owner m a = Some k \<longleftrightarrow> (\<exists>i pi. addrIx m a = Some i \<and> info_at m i = Some pi \<and> info_key pi = k)"
  by (auto simp: owner_def endpointForEpAddr_def ep_of_def split: option.splits)

lemma info_at_upd [simp]: "info_at (upd_info i f m) j = (if j = i then map_option f (info_at m i) else info_at m j)"
  by (auto simp: upd_info_def info_at_def split: option.split)

lemma upd_info_fields [simp]:
  "pm_next (upd_info i f m) = pm_next m" "byNodeKey (upd_info i f m) = byNodeKey m" "byEpAddr (upd_info i f m) = byEpAddr m"
  "byNodeID (upd_info i f m) = byNodeID m" "relayEpAddrByNodeKey (upd_info i f m) = relayEpAddrByNodeKey m"
  by (simp_all add: upd_info_def split: option.split)

lemma info_at_cong [simp]:
  "info_at (m \<lparr> byEpAddr := x \<rparr>) = info_at m" "info_at (m \<lparr> byNodeID := y \<rparr>) = info_at m" "info_at (m \<lparr> byNodeKey := n \<rparr>) = info_at m"
  "info_at (m \<lparr> relayEpAddrByNodeKey := z \<rparr>) = info_at m" "info_at (m \<lparr> nodesOfDisco := d \<rparr>) = info_at m"
  by (simp_all add: info_at_def fun_eq_iff)

lemma del_add_simps [simp]:
  "pi_ep (del_addr a pi) = pi_ep pi" "pi_ep (add_addr a pi) = pi_ep pi"
  "set (pi_epAddrs (del_addr a pi)) = set (pi_epAddrs pi) - {a}" "set (pi_epAddrs (add_addr a pi)) = insert a (set (pi_epAddrs pi))"
  by (auto simp: del_addr_def add_addr_def)

text \<open>Taking an address away.\<close>

lemma detach_fields:
  "byNodeKey (detach a m) = byNodeKey m" "pm_next (detach a m) = pm_next m" "byNodeID (detach a m) = byNodeID m"
  "addrIx (detach a m) = (addrIx m)(a := None)"
  "info_at (detach a m) i = (if addrIx m a = Some i then map_option (del_addr a) (info_at m i) else info_at m i)"
  by (auto simp: detach_def Let_def fun_upd_idem split: option.split)

lemma detach_relay:
  "relayIx (detach a m) k = (if is_relay a \<and> owner m a = Some k then None else relayIx m k)"
  by (auto simp: detach_def Let_def owner_def endpointForEpAddr_def ep_of_def split: option.split)

lemma addr_invI:
  assumes "\<And>i pi. info_at m i = Some pi \<Longrightarrow> i < pm_next m"
    and "\<And>k i. keyIx m k = Some i \<Longrightarrow> \<exists>pi. info_at m i = Some pi \<and> info_key pi = k"
    and "\<And>a i. addrIx m a = Some i \<Longrightarrow> \<exists>pi. info_at m i = Some pi \<and> a \<in> set (pi_epAddrs pi) \<and> keyIx m (info_key pi) = Some i"
    and "\<And>k i pi a. keyIx m k = Some i \<Longrightarrow> info_at m i = Some pi \<Longrightarrow> a \<in> set (pi_epAddrs pi) \<Longrightarrow> addrIx m a = Some i"
  shows "addr_inv m"
  using assms unfolding addr_inv_def by blast

lemma addr_invD:
  assumes "addr_inv m"
  shows "info_at m i = Some pi \<Longrightarrow> i < pm_next m"
    and "keyIx m k = Some i \<Longrightarrow> \<exists>pi. info_at m i = Some pi \<and> info_key pi = k"
    and "addrIx m a = Some i \<Longrightarrow> \<exists>pi. info_at m i = Some pi \<and> a \<in> set (pi_epAddrs pi) \<and> keyIx m (info_key pi) = Some i"
    and "keyIx m k = Some i \<Longrightarrow> info_at m i = Some pi \<Longrightarrow> a \<in> set (pi_epAddrs pi) \<Longrightarrow> addrIx m a = Some i"
  using assms unfolding addr_inv_def by blast+

lemma addr_inv_detach:
  assumes "addr_inv m"
  shows "addr_inv (detach a m)"
proof (rule addr_invI; unfold detach_fields)
  fix i pi assume "(if addrIx m a = Some i then map_option (del_addr a) (info_at m i) else info_at m i) = Some pi"
  then show "i < pm_next m" using addr_invD(1) [OF assms] by (auto split: if_splits)
next
  fix k i assume "keyIx m k = Some i"
  from addr_invD(2) [OF assms this]
  show "\<exists>pi. (if addrIx m a = Some i then map_option (del_addr a) (info_at m i) else info_at m i) = Some pi \<and> info_key pi = k" by auto
next
  fix b i assume b: "((addrIx m)(a := None)) b = Some i"
  then have ne: "b \<noteq> a" and bi: "addrIx m b = Some i" by (auto split: if_splits)
  from addr_invD(3) [OF assms bi] obtain pi where "info_at m i = Some pi" "b \<in> set (pi_epAddrs pi)" "keyIx m (info_key pi) = Some i" by blast
  with ne show "\<exists>pi. (if addrIx m a = Some i then map_option (del_addr a) (info_at m i) else info_at m i) = Some pi
      \<and> b \<in> set (pi_epAddrs pi) \<and> keyIx m (info_key pi) = Some i" by auto
next
  fix k i pi b
  assume k: "keyIx m k = Some i" and p: "(if addrIx m a = Some i then map_option (del_addr a) (info_at m i) else info_at m i) = Some pi"
    and b: "b \<in> set (pi_epAddrs pi)"
  obtain pi0 where pi0: "info_at m i = Some pi0" "info_key pi0 = k" using addr_invD(2) [OF assms k] by blast
  show "((addrIx m)(a := None)) b = Some i"
  proof (cases "addrIx m a = Some i")
    case True
    then have "b \<in> set (pi_epAddrs pi0)" "b \<noteq> a" using p pi0(1) b by auto
    then show ?thesis using addr_invD(4) [OF assms k pi0(1)] by simp
  next
    case False
    then have "b \<in> set (pi_epAddrs pi0)" using p pi0(1) b by simp
    then have "addrIx m b = Some i" by (rule addr_invD(4) [OF assms k pi0(1)])
    then show ?thesis using False by auto
  qed
qed


lemma relay_invD:
  assumes "relay_inv m"
  shows "relayIx m k = Some a \<Longrightarrow> is_relay a \<and> (\<exists>i. keyIx m k = Some i \<and> addrIx m a = Some i)"
    and "addrIx m a = Some i \<Longrightarrow> is_relay a \<Longrightarrow> info_at m i = Some pi \<Longrightarrow> relayIx m (info_key pi) = Some a"
  using assms unfolding relay_inv_def by blast+

lemma relay_invI:
  assumes "\<And>k a. relayIx m k = Some a \<Longrightarrow> is_relay a \<and> (\<exists>i. keyIx m k = Some i \<and> addrIx m a = Some i)"
    and "\<And>a i pi. addrIx m a = Some i \<Longrightarrow> is_relay a \<Longrightarrow> info_at m i = Some pi \<Longrightarrow> relayIx m (info_key pi) = Some a"
  shows "relay_inv m"
  using assms unfolding relay_inv_def by blast

lemma key_of_index:
  assumes "addr_inv m" "keyIx m k = Some i" "info_at m i = Some pi"
  shows "info_key pi = k"
  using addr_invD(2) [OF assms(1,2)] assms(3) by auto

lemma relay_inv_detach:
  assumes a: "addr_inv m" and r: "relay_inv m"
  shows "relay_inv (detach x m)"
proof (rule relay_invI; unfold detach_fields detach_relay)
  fix k a assume h: "(if is_relay x \<and> owner m x = Some k then None else relayIx m k) = Some a"
  then have ka: "relayIx m k = Some a" and nx: "\<not> (is_relay x \<and> owner m x = Some k)" by (auto split: if_splits)
  from relay_invD(1) [OF r ka] obtain i where ra: "is_relay a" and i: "keyIx m k = Some i" "addrIx m a = Some i" by blast
  have "a \<noteq> x"
  proof
    assume "a = x"
    with i(2) addr_invD(3) [OF a, of x i] obtain pi where "info_at m i = Some pi" "keyIx m (info_key pi) = Some i" by blast
    moreover from this key_of_index [OF a i(1)] have "info_key pi = k" by blast
    ultimately have "owner m x = Some k" using i(2) \<open>a = x\<close> by (auto simp: owner_iff)
    with nx ra \<open>a = x\<close> show False by simp
  qed
  with ra i show "is_relay a \<and> (\<exists>i. keyIx m k = Some i \<and> ((addrIx m)(x := None)) a = Some i)" by auto
next
  fix a i pi assume a': "((addrIx m)(x := None)) a = Some i" and ra: "is_relay a"
    and p: "(if addrIx m x = Some i then map_option (del_addr x) (info_at m i) else info_at m i) = Some pi"
  have ne: "a \<noteq> x" and ai: "addrIx m a = Some i" using a' by (auto split: if_splits)
  obtain pi0 where p0: "info_at m i = Some pi0" "info_key pi = info_key pi0" using p by (auto split: if_splits)
  have ra': "relayIx m (info_key pi0) = Some a" by (rule relay_invD(2) [OF r ai ra p0(1)])
  have "\<not> (is_relay x \<and> owner m x = Some (info_key pi0))"
  proof
    assume h: "is_relay x \<and> owner m x = Some (info_key pi0)"
    then obtain j pj where "addrIx m x = Some j" "info_at m j = Some pj" "info_key pj = info_key pi0" by (auto simp: owner_iff)
    with h relay_invD(2) [OF r, of x j pj] ra' ne show False by simp
  qed
  with ra' p0(2) show "(if is_relay x \<and> owner m x = Some (info_key pi) then None else relayIx m (info_key pi)) = Some a" by simp
qed

lemma owner_eq: "owner m a = (case addrIx m a of None \<Rightarrow> None | Some i \<Rightarrow> map_option info_key (info_at m i))"
  by (simp add: owner_def endpointForEpAddr_def ep_of_def option.map_comp comp_def split: option.split)

lemma owner_detach: "owner (detach x m) a = (if a = x then None else owner m a)"
  by (auto simp: owner_eq detach_fields option.map_comp comp_def split: option.split)

text \<open>Giving away a free address to a peer, which has no relay address when the address is a relay's.\<close>

lemma attach_inv:
  assumes a: "addr_inv m" and r: "relay_inv m" and free: "addrIx m x = None" and k: "keyIx m nk = Some j"
    and nr: "is_relay x \<Longrightarrow> relayIx m nk = None"
    and m': "byNodeKey m' = byNodeKey m" "pm_next m' = pm_next m" "addrIx m' = (addrIx m)(x \<mapsto> j)"
      "\<And>i. info_at m' i = (if i = j then map_option (add_addr x) (info_at m i) else info_at m i)"
      "relayIx m' = (if is_relay x then (relayIx m)(nk \<mapsto> x) else relayIx m)"
  shows "addr_inv m' \<and> relay_inv m' \<and> owner m' = (owner m)(x \<mapsto> nk)"
proof -
  obtain pj where pj: "info_at m j = Some pj" "info_key pj = nk" using addr_invD(2) [OF a k] by blast
  have "addr_inv m'"
  proof (rule addr_invI; unfold m')
    fix i pi assume "(if i = j then map_option (add_addr x) (info_at m i) else info_at m i) = Some pi"
    then show "i < pm_next m" using addr_invD(1) [OF a] by (auto split: if_splits)
  next
    fix k' i assume "keyIx m k' = Some i"
    from addr_invD(2) [OF a this]
    show "\<exists>pi. (if i = j then map_option (add_addr x) (info_at m i) else info_at m i) = Some pi \<and> info_key pi = k'" by auto
  next
    fix b i assume b: "((addrIx m)(x \<mapsto> j)) b = Some i"
    show "\<exists>pi. (if i = j then map_option (add_addr x) (info_at m i) else info_at m i) = Some pi
        \<and> b \<in> set (pi_epAddrs pi) \<and> keyIx m (info_key pi) = Some i"
    proof (cases "b = x")
      case True
      then show ?thesis using b pj k by auto
    next
      case False
      then have "addrIx m b = Some i" using b by simp
      from addr_invD(3) [OF a this] show ?thesis by auto
    qed
  next
    fix k' i pi b assume k': "keyIx m k' = Some i"
      and p: "(if i = j then map_option (add_addr x) (info_at m i) else info_at m i) = Some pi" and b: "b \<in> set (pi_epAddrs pi)"
    obtain p0 where p0: "info_at m i = Some p0" using addr_invD(2) [OF a k'] by blast
    show "((addrIx m)(x \<mapsto> j)) b = Some i"
    proof (cases "i = j \<and> b = x")
      case False
      then have "b \<in> set (pi_epAddrs p0)" using p p0 b by (auto split: if_splits)
      then have "addrIx m b = Some i" by (rule addr_invD(4) [OF a k' p0])
      then show ?thesis using free by auto
    qed simp
  qed
  moreover have "relay_inv m'"
  proof (rule relay_invI; unfold m')
    fix k' b assume h: "(if is_relay x then (relayIx m)(nk \<mapsto> x) else relayIx m) k' = Some b"
    show "is_relay b \<and> (\<exists>i. keyIx m k' = Some i \<and> ((addrIx m)(x \<mapsto> j)) b = Some i)"
    proof (cases "is_relay x \<and> k' = nk")
      case True
      then show ?thesis using h k by simp
    next
      case False
      then have "relayIx m k' = Some b" using h by (auto split: if_splits)
      from relay_invD(1) [OF r this] free show ?thesis by auto
    qed
  next
    fix b i pi assume b: "((addrIx m)(x \<mapsto> j)) b = Some i" and rb: "is_relay b"
      and p: "(if i = j then map_option (add_addr x) (info_at m i) else info_at m i) = Some pi"
    obtain p0 where p0: "info_at m i = Some p0" "info_key pi = info_key p0" using p by (auto split: if_splits)
    show "(if is_relay x then (relayIx m)(nk \<mapsto> x) else relayIx m) (info_key pi) = Some b"
    proof (cases "b = x")
      case True
      then show ?thesis using b rb p0 pj by auto
    next
      case False
      then have "relayIx m (info_key p0) = Some b" using b by (intro relay_invD(2) [OF r _ rb p0(1)]) simp
      then show ?thesis using p0(2) nr by auto
    qed
  qed
  moreover have "owner m' = (owner m)(x \<mapsto> nk)"
    using pj by (auto simp: fun_eq_iff owner_eq m' option.map_comp comp_def split: option.split)
  ultimately show ?thesis by blast
qed


text \<open>The one relay address of a peer.\<close>

lemma relay_owner:
  assumes a: "addr_inv m" and r: "relay_inv m"
  shows "is_relay b \<and> owner m b = Some k \<longleftrightarrow> relayIx m k = Some b"
proof
  assume "is_relay b \<and> owner m b = Some k"
  then show "relayIx m k = Some b" using relay_invD(2) [OF r] by (auto simp: owner_iff)
next
  assume h: "relayIx m k = Some b"
  from relay_invD(1) [OF r h] obtain i where "is_relay b" "keyIx m k = Some i" "addrIx m b = Some i" by blast
  moreover from addr_invD(2) [OF a this(2)] obtain pi where "info_at m i = Some pi" "info_key pi = k" by blast
  ultimately show "is_relay b \<and> owner m b = Some k" by (auto simp: owner_iff)
qed

text \<open>What the map promises: every address leads to at most one peer, and a peer has at most one relay address.\<close>

definition spec_set :: "raw_key set \<Rightarrow> ep_addr \<Rightarrow> raw_key \<Rightarrow> (ep_addr \<Rightarrow> raw_key option) \<Rightarrow> ep_addr \<Rightarrow> raw_key option" where
  "spec_set peers x nk own =
     (\<lambda>a. if a = x then (if nk \<in> peers then Some nk else None)
          else if nk \<in> peers \<and> is_relay x \<and> is_relay a \<and> own a = Some nk then None else own a)"

definition spec_delete :: "raw_key \<Rightarrow> (ep_addr \<Rightarrow> raw_key option) \<Rightarrow> ep_addr \<Rightarrow> raw_key option" where
  "spec_delete nk own = (\<lambda>a. if own a = Some nk then None else own a)"

definition peers :: "peer_map \<Rightarrow> raw_key set" where
  "peers m = {k. keyIx m k \<noteq> None}"

lemma drop_relay_fields:
  "byNodeKey (drop_relay nk j m) = byNodeKey m" "pm_next (drop_relay nk j m) = pm_next m" "byNodeID (drop_relay nk j m) = byNodeID m"
  "relayEpAddrByNodeKey (drop_relay nk j m) = relayEpAddrByNodeKey m"
  by (simp_all add: drop_relay_def split: option.split)

lemma attach_fields:
  assumes "keyIx m nk = Some j"
  shows "byNodeKey (attach x nk m) = byNodeKey m" "pm_next (attach x nk m) = pm_next m" "byNodeID (attach x nk m) = byNodeID m"
    and "addrIx (attach x nk m) = (addrIx (if is_relay x then drop_relay nk j m else m))(x \<mapsto> j)"
    and "info_at (attach x nk m) i = (if i = j then map_option (add_addr x) (info_at (if is_relay x then drop_relay nk j m else m) i)
           else info_at (if is_relay x then drop_relay nk j m else m) i)"
    and "relayIx (attach x nk m) = (if is_relay x then (relayIx m)(nk \<mapsto> x) else relayIx m)"
  using assms by (simp_all add: attach_def Let_def drop_relay_fields)

text \<open>Dropping the former relay address is taking it away.\<close>

lemma drop_relay_detach:
  assumes a: "addr_inv m" and r: "relay_inv m" and j: "keyIx m nk = Some j" and b: "relayIx m nk = Some b"
  shows "addrIx (drop_relay nk j m) = addrIx (detach b m)" "info_at (drop_relay nk j m) i = info_at (detach b m) i"
    and "(relayIx m)(nk \<mapsto> x) = (relayIx (detach b m))(nk \<mapsto> x)" "relayIx (detach b m) nk = None"
proof -
  have "addrIx m b = Some j" using relay_invD(1) [OF r b] j by auto
  then show "addrIx (drop_relay nk j m) = addrIx (detach b m)" "info_at (drop_relay nk j m) i = info_at (detach b m) i"
    using b by (simp_all add: drop_relay_def detach_fields)
  have o: "is_relay b" "owner m b = Some nk" using relay_owner [OF a r] b by blast+
  then show "(relayIx m)(nk \<mapsto> x) = (relayIx (detach b m))(nk \<mapsto> x)" "relayIx (detach b m) nk = None"
    by (auto simp: fun_eq_iff detach_relay)
qed

lemma attach_refines:
  assumes a: "addr_inv m" and r: "relay_inv m" and free: "addrIx m x = None" and k: "keyIx m nk = Some j"
  shows "addr_inv (attach x nk m) \<and> relay_inv (attach x nk m)
    \<and> owner (attach x nk m) = (\<lambda>b. if b = x then Some nk else if is_relay x \<and> is_relay b \<and> owner m b = Some nk then None else owner m b)"
proof (cases "is_relay x \<and> relayIx m nk \<noteq> None")
  case False
  have d: "drop_relay nk j m = m" if "is_relay x" using False that by (simp add: drop_relay_def)
  have f: "byNodeKey (attach x nk m) = byNodeKey m" "pm_next (attach x nk m) = pm_next m" "addrIx (attach x nk m) = (addrIx m)(x \<mapsto> j)"
    "info_at (attach x nk m) i = (if i = j then map_option (add_addr x) (info_at m i) else info_at m i)"
    "relayIx (attach x nk m) = (if is_relay x then (relayIx m)(nk \<mapsto> x) else relayIx m)" for i
    unfolding attach_fields [OF k] using d by auto
  have "\<not> (is_relay x \<and> is_relay b \<and> owner m b = Some nk)" for b using False relay_owner [OF a r, of b nk] by auto
  with attach_inv [OF a r free k _ f] False show ?thesis by (auto simp: fun_eq_iff)
next
  case True
  then obtain b where b: "relayIx m nk = Some b" and x: "is_relay x" by auto
  let ?m = "detach b m"
  note d = drop_relay_detach [OF a r k b]
  have i: "addr_inv ?m" "relay_inv ?m" "addrIx ?m x = None" "keyIx ?m nk = Some j"
    using addr_inv_detach [OF a] relay_inv_detach [OF a r] free k by (auto simp: detach_fields)
  have f: "byNodeKey (attach x nk m) = byNodeKey ?m" "pm_next (attach x nk m) = pm_next ?m" "addrIx (attach x nk m) = (addrIx ?m)(x \<mapsto> j)"
    "info_at (attach x nk m) i = (if i = j then map_option (add_addr x) (info_at ?m i) else info_at ?m i)"
    "relayIx (attach x nk m) = (if is_relay x then (relayIx ?m)(nk \<mapsto> x) else relayIx ?m)" for i
    unfolding attach_fields [OF k] d(3) using x d(1,2) by (simp_all add: detach_fields)
  have "is_relay c \<and> owner m c = Some nk \<longleftrightarrow> c = b" for c using relay_owner [OF a r, of c nk] b by auto
  with attach_inv [OF i d(4) f] x show ?thesis by (auto simp: fun_eq_iff owner_detach)
qed

lemma set_refines:
  assumes inv: "pm_inv m"
  shows "pm_inv (setNodeKeyForEpAddr x nk m) \<and> peers (setNodeKeyForEpAddr x nk m) = peers m
    \<and> owner (setNodeKeyForEpAddr x nk m) = spec_set (peers m) x nk (owner m)"
proof -
  let ?m1 = "detach x m"
  have a: "addr_inv m" and r: "relay_inv m" using inv by (simp_all add: pm_inv_def)
  have i1: "addr_inv ?m1" "relay_inv ?m1" "addrIx ?m1 x = None"
    using addr_inv_detach [OF a] relay_inv_detach [OF a r] by (simp_all add: detach_fields)
  show ?thesis
  proof (cases "keyIx m nk")
    case None
    then have "setNodeKeyForEpAddr x nk m = ?m1" by (simp add: setNodeKeyForEpAddr_def attach_def detach_fields)
    moreover have "owner ?m1 = spec_set (peers m) x nk (owner m)" using None by (auto simp: fun_eq_iff owner_detach spec_set_def peers_def)
    ultimately show ?thesis using i1 by (simp add: pm_inv_def peers_def detach_fields)
  next
    case (Some j)
    then have k: "keyIx ?m1 nk = Some j" by (simp add: detach_fields)
    have "peers (attach x nk ?m1) = peers m" by (simp add: peers_def attach_fields(1) [OF k] detach_fields)
    moreover have "owner (attach x nk ?m1) = spec_set (peers m) x nk (owner m)"
      using attach_refines [OF i1 k] Some by (auto simp: fun_eq_iff owner_detach spec_set_def peers_def)
    ultimately show ?thesis using attach_refines [OF i1 k] by (simp add: setNodeKeyForEpAddr_def pm_inv_def)
  qed
qed


section \<open>Inserting and deleting peers\<close>

abbreviation idIx :: "peer_map \<Rightarrow> int \<Rightarrow> nat option" where "idIx m \<equiv> map_of (byNodeID m)"

definition id_inv :: "peer_map \<Rightarrow> bool" where
  "id_inv m \<longleftrightarrow> (\<forall>n i. idIx m n = Some i \<longrightarrow>
     (\<exists>pi. info_at m i = Some pi \<and> ep_nodeID (pi_ep pi) = n \<and> keyIx m (info_key pi) = Some i))"

text \<open>The caller's side of the contract: an endpoint it passes is the one stored for its key.\<close>

definition same_ep :: "peer_map \<Rightarrow> endpoint \<Rightarrow> bool" where
  "same_ep m ep \<longleftrightarrow> (case ep_of m (keyIx m (ep_publicKey ep)) of None \<Rightarrow> True
     | Some e \<Rightarrow> ep_ptr e = ep_ptr ep \<and> ep_nodeID e = ep_nodeID ep)"

lemma detach_ep: "map_option pi_ep (info_at (detach x m) i) = map_option pi_ep (info_at m i)"
  by (simp add: detach_fields option.map_comp comp_def)

lemma drop_relay_ep: "map_option pi_ep (info_at (drop_relay nk j m) i) = map_option pi_ep (info_at m i)"
  by (simp add: drop_relay_def option.map_comp comp_def split: option.split)

lemma set_ep: "map_option pi_ep (info_at (setNodeKeyForEpAddr x nk m) i) = map_option pi_ep (info_at m i)"
proof (cases "keyIx (detach x m) nk")
  case None
  then show ?thesis by (simp add: setNodeKeyForEpAddr_def attach_def detach_ep)
next
  case (Some j)
  have "map_option pi_ep (info_at (attach x nk (detach x m)) i) = map_option pi_ep (info_at (detach x m) i)"
    by (simp add: attach_fields(5) [OF Some] option.map_comp comp_def drop_relay_ep)
  then show ?thesis by (simp add: setNodeKeyForEpAddr_def detach_ep)
qed

lemma set_ix: "byNodeID (setNodeKeyForEpAddr x nk m) = byNodeID m" "byNodeKey (setNodeKeyForEpAddr x nk m) = byNodeKey m"
  by (cases "keyIx (detach x m) nk"; simp add: setNodeKeyForEpAddr_def attach_fields detach_fields; simp add: attach_def detach_fields)+

lemma id_inv_alt:
  "id_inv m \<longleftrightarrow> (\<forall>n i. idIx m n = Some i \<longrightarrow>
     (\<exists>e. map_option pi_ep (info_at m i) = Some e \<and> ep_nodeID e = n \<and> keyIx m (ep_publicKey e) = Some i))"
  unfolding id_inv_def by fastforce

lemma id_inv_set: "id_inv m \<Longrightarrow> id_inv (setNodeKeyForEpAddr x nk m)"
  unfolding id_inv_alt set_ep set_ix .

definition peer_inv :: "peer_map \<Rightarrow> bool" where "peer_inv m \<longleftrightarrow> pm_inv m \<and> id_inv m"

lemma peer_inv_set: "peer_inv m \<Longrightarrow> peer_inv (setNodeKeyForEpAddr x nk m)"
  using set_refines id_inv_set by (auto simp: peer_inv_def)

lemma pm_inv_cong:
  assumes "byNodeKey m' = byNodeKey m" "byEpAddr m' = byEpAddr m" "relayEpAddrByNodeKey m' = relayEpAddrByNodeKey m"
    "pm_next m' = pm_next m" "pm_store m' = pm_store m"
  shows "pm_inv m' = pm_inv m" "owner m' = owner m" "peers m' = peers m" "info_at m' = info_at m"
proof -
  show i: "info_at m' = info_at m" by (simp add: info_at_def fun_eq_iff assms)
  show "pm_inv m' = pm_inv m" by (simp add: pm_inv_def addr_inv_def relay_inv_def i assms)
  show "owner m' = owner m" unfolding fun_eq_iff owner_def endpointForEpAddr_def ep_of_def i assms by simp
  show "peers m' = peers m" by (simp add: peers_def assms)
qed

lemma get_or_new_inv:
  assumes inv: "pm_inv m" and g: "get_or_new ep m = (i, m')"
  shows "pm_inv m' \<and> owner m' = owner m \<and> keyIx m' (ep_publicKey ep) = Some i \<and> peers m' = insert (ep_publicKey ep) (peers m)"
proof (cases "keyIx m (ep_publicKey ep)")
  case (Some j)
  then have "m' = m" "i = j" using g by (simp_all add: get_or_new_def)
  then show ?thesis using inv Some by (auto simp: peers_def)
next
  case None
  let ?k = "ep_publicKey ep" and ?n = "pm_next m"
  have a: "addr_inv m" and r: "relay_inv m" using inv by (simp_all add: pm_inv_def)
  have m': "i = ?n" "byEpAddr m' = byEpAddr m" "relayEpAddrByNodeKey m' = relayEpAddrByNodeKey m" "pm_next m' = ?n + 1"
    "keyIx m' = (keyIx m)(?k \<mapsto> ?n)" "\<And>j. info_at m' j = (if j = ?n then Some \<lparr> pi_ep = ep, pi_epAddrs = [] \<rparr> else info_at m j)"
    using g None by (auto simp: get_or_new_def info_at_def)
  have old: "info_at m ?n = None" using addr_invD(1) [OF a] by (cases "info_at m ?n") blast+
  have lt: "j \<noteq> ?n" if "info_at m j = Some pi" for j pi using that old by auto
  have ka: "keyIx m (info_key pi) = Some j \<Longrightarrow> info_key pi \<noteq> ?k" for pi j using None by auto
  have "addr_inv m'"
  proof (rule addr_invI; unfold m')
    fix j pi assume "(if j = ?n then Some \<lparr> pi_ep = ep, pi_epAddrs = [] \<rparr> else info_at m j) = Some pi"
    then show "j < ?n + 1" using addr_invD(1) [OF a, of j] by (auto split: if_splits dest: less_SucI)
  next
    fix k j assume "((keyIx m)(?k \<mapsto> ?n)) k = Some j"
    then show "\<exists>pi. (if j = ?n then Some \<lparr> pi_ep = ep, pi_epAddrs = [] \<rparr> else info_at m j) = Some pi \<and> info_key pi = k"
      using addr_invD(2) [OF a, of k j] old by (auto split: if_splits)
  next
    fix b j assume "addrIx m b = Some j"
    then show "\<exists>pi. (if j = ?n then Some \<lparr> pi_ep = ep, pi_epAddrs = [] \<rparr> else info_at m j) = Some pi \<and> b \<in> set (pi_epAddrs pi)
        \<and> ((keyIx m)(?k \<mapsto> ?n)) (info_key pi) = Some j"
      using addr_invD(3) [OF a, of b j] lt ka by fastforce
  next
    fix k j pi b assume "((keyIx m)(?k \<mapsto> ?n)) k = Some j" and p: "(if j = ?n then Some \<lparr> pi_ep = ep, pi_epAddrs = [] \<rparr> else info_at m j) = Some pi"
      and "b \<in> set (pi_epAddrs pi)"
    then show "addrIx m b = Some j" using addr_invD(4) [OF a, of k j pi b] by (auto split: if_splits)
  qed
  moreover have "relay_inv m'"
  proof (rule relay_invI; unfold m')
    fix k b assume "relayIx m k = Some b"
    then show "is_relay b \<and> (\<exists>i. ((keyIx m)(?k \<mapsto> ?n)) k = Some i \<and> addrIx m b = Some i)"
      using relay_invD(1) [OF r, of k b] None by auto
  next
    fix b j pi assume b: "addrIx m b = Some j" "is_relay b" and p: "(if j = ?n then Some \<lparr> pi_ep = ep, pi_epAddrs = [] \<rparr> else info_at m j) = Some pi"
    have "j \<noteq> ?n" using addr_invD(3) [OF a b(1)] old by auto
    then show "relayIx m (info_key pi) = Some b" using relay_invD(2) [OF r b] p by simp
  qed
  moreover have "owner m' = owner m"
  proof
    fix b
    show "owner m' b = owner m b"
      using addr_invD(3) [OF a, of b] old by (auto simp: owner_eq m' split: option.split)
  qed
  ultimately show ?thesis by (auto simp: pm_inv_def peers_def m')
qed


lemma disco_fields [simp]:
  "byNodeKey (disco_remove d k m) = byNodeKey m" "byEpAddr (disco_remove d k m) = byEpAddr m" "pm_store (disco_remove d k m) = pm_store m"
  "relayEpAddrByNodeKey (disco_remove d k m) = relayEpAddrByNodeKey m" "pm_next (disco_remove d k m) = pm_next m"
  "byNodeID (disco_remove d k m) = byNodeID m"
  "byNodeKey (disco_add d k m) = byNodeKey m" "byEpAddr (disco_add d k m) = byEpAddr m" "pm_store (disco_add d k m) = pm_store m"
  "relayEpAddrByNodeKey (disco_add d k m) = relayEpAddrByNodeKey m" "pm_next (disco_add d k m) = pm_next m"
  "byNodeID (disco_add d k m) = byNodeID m"
  by (simp_all add: disco_remove_def disco_add_def split: option.split)

lemma id_inv_cong:
  assumes "byNodeKey m' = byNodeKey m" "byNodeID m' = byNodeID m" "pm_store m' = pm_store m"
  shows "id_inv m' = id_inv m"
  unfolding id_inv_def info_at_def assms ..

lemma id_inv_insert:
  assumes inv: "peer_inv m" and s: "same_ep m ep" and g: "get_or_new ep m = (i, m')"
  shows "id_inv (m' \<lparr> byNodeID := AList.update (ep_nodeID ep) i (byNodeID m') \<rparr>)"
proof -
  have a: "addr_inv m" and id: "id_inv m" using inv by (simp_all add: peer_inv_def pm_inv_def)
  have new: "\<exists>pi. info_at m' i = Some pi \<and> ep_nodeID (pi_ep pi) = ep_nodeID ep \<and> keyIx m' (info_key pi) = Some i"
  proof (cases "keyIx m (ep_publicKey ep)")
    case (Some j)
    then have e: "m' = m" "i = j" using g by (simp_all add: get_or_new_def)
    from addr_invD(2) [OF a Some] obtain pi where "info_at m j = Some pi" "info_key pi = ep_publicKey ep" by blast
    then show ?thesis using s Some by (auto simp: e same_ep_def ep_of_def)
  next
    case None
    then show ?thesis using g by (auto simp: get_or_new_def info_at_def)
  qed
  have old: "\<exists>pi. info_at m' j = Some pi \<and> ep_nodeID (pi_ep pi) = n \<and> keyIx m' (info_key pi) = Some j" if "idIx m n = Some j" for n j
  proof -
    from that id obtain pi where pi: "info_at m j = Some pi" "ep_nodeID (pi_ep pi) = n" "keyIx m (info_key pi) = Some j" by (auto simp: id_inv_def)
    moreover have "j \<noteq> pm_next m" using addr_invD(1) [OF a pi(1)] by simp
    ultimately show ?thesis using g by (auto simp: get_or_new_def info_at_def split: option.splits)
  qed
  have "byNodeID m' = byNodeID m" using g by (auto simp: get_or_new_def split: option.splits)
  then show ?thesis using new old by (auto simp: id_inv_def)
qed

lemma fold_set_refines:
  assumes "peer_inv m"
  shows "peer_inv (fold (\<lambda>ipp. setNodeKeyForEpAddr \<lparr> ea_ap = ipp, ea_vni = 0 \<rparr> nk) ipps m)
    \<and> peers (fold (\<lambda>ipp. setNodeKeyForEpAddr \<lparr> ea_ap = ipp, ea_vni = 0 \<rparr> nk) ipps m) = peers m
    \<and> owner (fold (\<lambda>ipp. setNodeKeyForEpAddr \<lparr> ea_ap = ipp, ea_vni = 0 \<rparr> nk) ipps m)
      = fold (\<lambda>ipp. spec_set (peers m) \<lparr> ea_ap = ipp, ea_vni = 0 \<rparr> nk) ipps (owner m)"
  using assms
proof (induction ipps arbitrary: m)
  case (Cons ipp ipps)
  let ?m = "setNodeKeyForEpAddr \<lparr> ea_ap = ipp, ea_vni = 0 \<rparr> nk m"
  have "peer_inv ?m" "peers ?m = peers m" "owner ?m = spec_set (peers m) \<lparr> ea_ap = ipp, ea_vni = 0 \<rparr> nk (owner m)"
    using peer_inv_set [OF Cons.prems] set_refines Cons.prems by (auto simp: peer_inv_def)
  with Cons.IH [of ?m] show ?case by simp
qed simp

text \<open>A plain peer changes no address; a WireGuard-only peer brings its own.\<close>

definition spec_upsert :: "endpoint \<Rightarrow> raw_key set \<Rightarrow> (ep_addr \<Rightarrow> raw_key option) \<Rightarrow> ep_addr \<Rightarrow> raw_key option" where
  "spec_upsert ep ks own =
     (if ep_isWireguardOnly ep
      then fold (\<lambda>ipp. spec_set ks \<lparr> ea_ap = ipp, ea_vni = 0 \<rparr> (ep_publicKey ep)) (ep_endpointState ep) own else own)"

lemma upsert_refines:
  assumes inv: "peer_inv m" and s: "same_ep m ep" and u: "upsertEndpoint ep old m = Some m'"
  shows "peer_inv m' \<and> peers m' = insert (ep_publicKey ep) (peers m)
    \<and> owner m' = spec_upsert ep (insert (ep_publicKey ep) (peers m)) (owner m)"
proof -
  obtain i m1 where g: "get_or_new ep m = (i, m1)" by (metis surj_pair)
  have nz: "ep_nodeID ep \<noteq> 0" using u by (auto simp: upsertEndpoint_def)
  let ?m2 = "m1 \<lparr> byNodeID := AList.update (ep_nodeID ep) i (byNodeID m1) \<rparr>"
  let ?m3 = "if ep_disco ep = None \<or> Some old \<noteq> ep_disco ep then disco_remove old (ep_publicKey ep) ?m2 else ?m2"
  have pm: "pm_inv m" using inv by (simp add: peer_inv_def)
  note g1 = get_or_new_inv [OF pm g]
  have f2: "pm_inv ?m2 = pm_inv m1" "owner ?m2 = owner m1" "peers ?m2 = peers m1" by (rule pm_inv_cong; simp)+
  have f3: "pm_inv ?m3 = pm_inv ?m2" "owner ?m3 = owner ?m2" "peers ?m3 = peers ?m2" by (rule pm_inv_cong; simp)+
  have "id_inv ?m3 = id_inv ?m2" by (rule id_inv_cong) simp_all
  then have inv3: "peer_inv ?m3" "owner ?m3 = owner m" "peers ?m3 = insert (ep_publicKey ep) (peers m)"
    using f2 f3 g1 id_inv_insert [OF inv s g] by (simp_all add: peer_inv_def)
  show ?thesis
  proof (cases "ep_isWireguardOnly ep")
    case True
    then have m': "m' = fold (\<lambda>ipp. setNodeKeyForEpAddr \<lparr> ea_ap = ipp, ea_vni = 0 \<rparr> (ep_publicKey ep)) (ep_endpointState ep) ?m3"
      using u g nz by (simp add: upsertEndpoint_def Let_def)
    show ?thesis unfolding m' using fold_set_refines [OF inv3(1), of "ep_publicKey ep" "ep_endpointState ep"] inv3(2,3) True
      by (simp add: spec_upsert_def)
  next
    case False
    then obtain dk where m': "m' = disco_add dk (ep_publicKey ep) ?m3"
      using u g nz by (auto simp: upsertEndpoint_def Let_def split: option.splits)
    have "pm_inv m' = pm_inv ?m3" "owner m' = owner ?m3" "peers m' = peers ?m3" unfolding m' by (rule pm_inv_cong; simp)+
    moreover have "id_inv m' = id_inv ?m3" unfolding m' by (rule id_inv_cong) simp_all
    ultimately show ?thesis using inv3 False by (simp add: peer_inv_def spec_upsert_def)
  qed
qed


lemma map_of_fold_delete [simp]: "map_of (fold AList.delete xs al) a = (if a \<in> set xs then None else map_of al a)"
  by (induction xs arbitrary: al) auto

lemma delete_fields:
  assumes a: "addr_inv m" and r: "relay_inv m"
  shows "pm_next (deleteEndpoint (Some ep) m) = pm_next m" "info_at (deleteEndpoint (Some ep) m) = info_at m"
    and "keyIx (deleteEndpoint (Some ep) m) = (keyIx m)(ep_publicKey ep := None)"
    and "addrIx (deleteEndpoint (Some ep) m) b = (if owner m b = Some (ep_publicKey ep) then None else addrIx m b)"
    and "relayIx (deleteEndpoint (Some ep) m) = (relayIx m)(ep_publicKey ep := None)"
    and "idIx (deleteEndpoint (Some ep) m) =
      (if map_option ep_ptr (endpointForNodeID m (ep_nodeID ep)) = Some (ep_ptr ep) then (idIx m)(ep_nodeID ep := None) else idIx m)"
proof -
  let ?k = "ep_publicKey ep" and ?m = "deleteEndpoint (Some ep) m"
  have inf: "info_at (disco_remove d k' m') = info_at m'" for d k' m' by (simp add: info_at_def fun_eq_iff)
  have epid: "endpointForNodeID (m' \<lparr> byNodeKey := x \<rparr>) = endpointForNodeID m'" "endpointForNodeID (disco_remove d k' m') = endpointForNodeID m'"
    for m' x d k' unfolding fun_eq_iff endpointForNodeID_def ep_of_def by (simp_all add: inf split: option.split)
  note simps = deleteEndpoint_def Let_def inf epid
  show "pm_next ?m = pm_next m" "info_at ?m = info_at m" by (simp_all add: simps split: option.split)
  show "keyIx ?m = (keyIx m)(?k := None)" by (simp add: simps split: option.split)
  show "idIx ?m = (if map_option ep_ptr (endpointForNodeID m (ep_nodeID ep)) = Some (ep_ptr ep) then (idIx m)(ep_nodeID ep := None) else idIx m)"
    by (simp add: simps split: option.split)
  show "addrIx ?m b = (if owner m b = Some ?k then None else addrIx m b)"
  proof (cases "keyIx m ?k")
    case None
    then have "owner m b \<noteq> Some ?k" using addr_invD(3) [OF a, of b] by (force simp: owner_iff)
    then show ?thesis using None by (simp add: simps split: option.split)
  next
    case (Some j)
    then obtain pj where pj: "info_at m j = Some pj" "info_key pj = ?k" using addr_invD(2) [OF a] by blast
    have "owner m b = Some ?k \<longleftrightarrow> b \<in> set (pi_epAddrs pj)"
    proof
      assume "owner m b = Some ?k"
      then obtain i pi where "addrIx m b = Some i" "info_at m i = Some pi" "info_key pi = ?k" by (auto simp: owner_iff)
      then show "b \<in> set (pi_epAddrs pj)" using addr_invD(3) [OF a, of b i] Some pj by auto
    next
      assume "b \<in> set (pi_epAddrs pj)"
      then show "owner m b = Some ?k" using addr_invD(4) [OF a Some pj(1)] pj by (auto simp: owner_iff)
    qed
    then show ?thesis using Some pj by (simp add: simps split: option.split)
  qed
  show "relayIx ?m = (relayIx m)(?k := None)"
  proof (cases "keyIx m ?k")
    case None
    then have "relayIx m ?k = None" using relay_invD(1) [OF r, of ?k] by (cases "relayIx m ?k") auto
    then show ?thesis using None by (auto simp: simps fun_upd_idem split: option.split)
  next
    case (Some j)
    then show ?thesis using addr_invD(2) [OF a Some] by (auto simp: simps split: option.split)
  qed
qed

lemma delete_refines:
  assumes inv: "peer_inv m" and s: "same_ep m ep"
  shows "peer_inv (deleteEndpoint (Some ep) m) \<and> peers (deleteEndpoint (Some ep) m) = peers m - {ep_publicKey ep}
    \<and> owner (deleteEndpoint (Some ep) m) = spec_delete (ep_publicKey ep) (owner m)"
proof -
  let ?k = "ep_publicKey ep" and ?m = "deleteEndpoint (Some ep) m"
  have a: "addr_inv m" and r: "relay_inv m" and id: "id_inv m" using inv by (simp_all add: peer_inv_def pm_inv_def)
  note f = delete_fields [OF a r, of ep]
  have own: "owner m b = Some (info_key pi)" if "addrIx m b = Some i" "info_at m i = Some pi" for b i pi
    using that by (auto simp: owner_iff)
  have "addr_inv ?m"
  proof (rule addr_invI; unfold f)
    fix i pi assume "info_at m i = Some pi"
    then show "i < pm_next m" by (rule addr_invD(1) [OF a])
  next
    fix k i assume "((keyIx m)(?k := None)) k = Some i"
    then show "\<exists>pi. info_at m i = Some pi \<and> info_key pi = k" using addr_invD(2) [OF a] by (auto split: if_splits)
  next
    fix b i assume "(if owner m b = Some ?k then None else addrIx m b) = Some i"
    then have b: "owner m b \<noteq> Some ?k" "addrIx m b = Some i" by (auto split: if_splits)
    then show "\<exists>pi. info_at m i = Some pi \<and> b \<in> set (pi_epAddrs pi) \<and> ((keyIx m)(?k := None)) (info_key pi) = Some i"
      using addr_invD(3) [OF a b(2)] own [OF b(2)] by auto
  next
    fix k i pi b assume k: "((keyIx m)(?k := None)) k = Some i" and p: "info_at m i = Some pi" "b \<in> set (pi_epAddrs pi)"
    then have k': "keyIx m k = Some i" "k \<noteq> ?k" by (auto split: if_splits)
    then have "addrIx m b = Some i" "info_key pi = k" using addr_invD(4) [OF a _ p] key_of_index [OF a _ p(1)] by auto
    then show "(if owner m b = Some ?k then None else addrIx m b) = Some i" using own [OF _ p(1)] k' by simp
  qed
  moreover have "relay_inv ?m"
  proof (rule relay_invI; unfold f)
    fix k b assume "((relayIx m)(?k := None)) k = Some b"
    then have k: "k \<noteq> ?k" "relayIx m k = Some b" by (auto split: if_splits)
    then have "owner m b = Some k" using relay_owner [OF a r] by blast
    then show "is_relay b \<and> (\<exists>i. ((keyIx m)(?k := None)) k = Some i \<and> (if owner m b = Some ?k then None else addrIx m b) = Some i)"
      using relay_invD(1) [OF r k(2)] k by auto
  next
    fix b i pi assume b: "(if owner m b = Some ?k then None else addrIx m b) = Some i" "is_relay b" "info_at m i = Some pi"
    then have "owner m b \<noteq> Some ?k" "addrIx m b = Some i" by (auto split: if_splits)
    then show "((relayIx m)(?k := None)) (info_key pi) = Some b"
      using relay_invD(2) [OF r _ b(2,3)] own [OF _ b(3)] by auto
  qed
  moreover have "id_inv ?m"
  proof -
    have "\<exists>pi. info_at m i = Some pi \<and> ep_nodeID (pi_ep pi) = n \<and> ((keyIx m)(?k := None)) (info_key pi) = Some i"
      if h: "idIx ?m n = Some i" for n i
    proof -
      have n: "idIx m n = Some i" using h by (auto simp: f split: if_splits)
      then obtain pi where pi: "info_at m i = Some pi" "ep_nodeID (pi_ep pi) = n" "keyIx m (info_key pi) = Some i" using id by (auto simp: id_inv_def)
      have "info_key pi \<noteq> ?k"
      proof
        assume e: "info_key pi = ?k"
        then have "ep_ptr (pi_ep pi) = ep_ptr ep" "n = ep_nodeID ep" using s pi by (auto simp: same_ep_def ep_of_def)
        then have "idIx ?m n = None" using n pi by (simp add: f endpointForNodeID_def ep_of_def)
        with h show False by simp
      qed
      with pi show ?thesis by auto
    qed
    then show ?thesis unfolding id_inv_def by (simp add: f(2,3))
  qed
  moreover have "owner ?m = spec_delete ?k (owner m)"
    by (auto simp: fun_eq_iff spec_delete_def owner_eq f split: option.split)
  moreover have "peers ?m = peers m - {?k}" by (auto simp: peers_def f)
  ultimately show ?thesis by (simp add: peer_inv_def pm_inv_def)
qed



section \<open>Runs of the map\<close>

datatype pm_op = Upsert endpoint raw_key | SetAddr ep_addr raw_key | Delete "endpoint option"

text \<open>A run passes for a key the endpoint that is stored for it, as the callers in \<open>magicsock.go\<close> do.\<close>

inductive pm_run :: "peer_map \<Rightarrow> pm_op list \<Rightarrow> peer_map \<Rightarrow> bool" where
  run_nil: "pm_run m [] m"
| run_upsert: "same_ep m ep \<Longrightarrow> upsertEndpoint ep old m = Some m1 \<Longrightarrow> pm_run m1 ops m' \<Longrightarrow> pm_run m (Upsert ep old # ops) m'"
| run_set: "pm_run (setNodeKeyForEpAddr x nk m) ops m' \<Longrightarrow> pm_run m (SetAddr x nk # ops) m'"
| run_delete: "(\<forall>ep. epo = Some ep \<longrightarrow> same_ep m ep) \<Longrightarrow> pm_run (deleteEndpoint epo m) ops m' \<Longrightarrow> pm_run m (Delete epo # ops) m'"

inductive_cases pm_run_nilE: "pm_run m [] m'"

type_synonym pm_spec = "raw_key set \<times> (ep_addr \<Rightarrow> raw_key option)"

fun spec_op :: "pm_op \<Rightarrow> pm_spec \<Rightarrow> pm_spec" where
  "spec_op (Upsert ep old) (ks, own) = (insert (ep_publicKey ep) ks, spec_upsert ep (insert (ep_publicKey ep) ks) own)"
| "spec_op (SetAddr x nk) (ks, own) = (ks, spec_set ks x nk own)"
| "spec_op (Delete None) (ks, own) = (ks, own)"
| "spec_op (Delete (Some ep)) (ks, own) = (ks - {ep_publicKey ep}, spec_delete (ep_publicKey ep) own)"

lemma run_refines:
  assumes "pm_run m ops m'" "peer_inv m"
  shows "peer_inv m' \<and> (peers m', owner m') = fold spec_op ops (peers m, owner m)"
  using assms
proof (induction rule: pm_run.induct)
  case (run_upsert m ep old m1 ops m')
  then show ?case using upsert_refines [OF run_upsert.prems run_upsert.hyps(1,2)] by simp
next
  case (run_set x nk m ops m')
  then show ?case using peer_inv_set [OF run_set.prems] set_refines [of m x nk] by (simp add: peer_inv_def)
next
  case (run_delete epo m ops m')
  then show ?case using delete_refines [OF run_delete.prems]
    by (cases epo) (simp_all add: deleteEndpoint_def [of None])
qed simp

lemma peer_inv_new: "peer_inv newPeerMap"
  by (simp add: peer_inv_def pm_inv_def addr_inv_def relay_inv_def id_inv_def newPeerMap_def info_at_def)

text \<open>A lookup by address agrees with the lookup by the key of the peer it leads to.\<close>

lemma lookup_by_address:
  assumes inv: "peer_inv m" and o: "owner m a = Some k"
  shows "k \<in> peers m" "\<not> key_IsZero k \<Longrightarrow> endpointForEpAddr m a = endpointForNodeKey m k"
proof -
  have ai: "addr_inv m" using inv by (simp add: peer_inv_def pm_inv_def)
  obtain i pi where i: "addrIx m a = Some i" "info_at m i = Some pi" "info_key pi = k" using o by (auto simp: owner_iff)
  then have k: "keyIx m k = Some i" using addr_invD(3) [OF ai i(1)] by auto
  then show "k \<in> peers m" by (simp add: peers_def)
  show "endpointForEpAddr m a = endpointForNodeKey m k" if "\<not> key_IsZero k"
    using that k i by (simp add: endpointForEpAddr_def endpointForNodeKey_def)
qed

text \<open>C38: Whatever sequence of insertions, address assignments and deletions the peer map goes through, each passing for a
  key the endpoint that is stored for it, if one is, as the callers do, the map implements the plain function from addresses to peers that replays the same sequence.  An address leads to the peer it was last given
  to, and to none once that peer is deleted; the lookup by address returns what the lookup by that peer's key returns, so
  no address leads to a deleted peer; and no peer is ever reached over two relay addresses.\<close>

theorem peermap_refines:
  assumes "pm_run newPeerMap ops m"
  shows "(peers m, owner m) = fold spec_op ops ({}, \<lambda>_. None)
    \<and> (\<forall>a k. owner m a = Some k \<longrightarrow> k \<in> peers m \<and> (key_IsZero k \<or> endpointForEpAddr m a = endpointForNodeKey m k))
    \<and> (\<forall>a b k. is_relay a \<and> is_relay b \<and> owner m a = Some k \<and> owner m b = Some k \<longrightarrow> a = b)"
proof -
  have new: "peers newPeerMap = {}" "owner newPeerMap = (\<lambda>_. None)"
    by (simp_all add: peers_def newPeerMap_def fun_eq_iff owner_eq)
  have r: "peer_inv m \<and> (peers m, owner m) = fold spec_op ops (peers newPeerMap, owner newPeerMap)"
    by (rule run_refines [OF assms peer_inv_new])
  then have inv: "peer_inv m" by blast
  have "a = b" if "is_relay a \<and> is_relay b \<and> owner m a = Some k \<and> owner m b = Some k" for a b k
    using that relay_owner [of m a k] relay_owner [of m b k] inv by (simp add: peer_inv_def pm_inv_def)
  moreover have "k \<in> peers m \<and> (key_IsZero k \<or> endpointForEpAddr m a = endpointForNodeKey m k)" if "owner m a = Some k" for a k
    using lookup_by_address [OF inv that] by blast
  ultimately show ?thesis using r unfolding new by blast
qed

definition demo_ep :: endpoint where
  "demo_ep = \<lparr> ep_ptr = 1, ep_publicKey = [7], ep_nodeID = 3, ep_disco = Some [9], ep_isWireguardOnly = False, ep_endpointState = [] \<rparr>"

definition demo_relay :: "u16 \<Rightarrow> ep_addr" where
  "demo_relay p = \<lparr> ea_ap = AddrPort (AddrV4 0x0A000001) p, ea_vni = vni_Set 5 \<rparr>"

definition demo_ops :: "pm_op list" where
  "demo_ops = [Upsert demo_ep [], SetAddr (demo_relay 1) [7], SetAddr (demo_relay 2) [7], Delete (Some demo_ep)]"

lemma demo_run:
  "pm_run newPeerMap demo_ops
     (deleteEndpoint (Some demo_ep) (setNodeKeyForEpAddr (demo_relay 2) [7] (setNodeKeyForEpAddr (demo_relay 1) [7]
       (the (upsertEndpoint demo_ep [] newPeerMap)))))"
  unfolding demo_ops_def
proof (rule run_upsert [where ?m1.0 = "the (upsertEndpoint demo_ep [] newPeerMap)"])
  show "same_ep newPeerMap demo_ep" by code_simp
  show "upsertEndpoint demo_ep [] newPeerMap = Some (the (upsertEndpoint demo_ep [] newPeerMap))" by code_simp
  have s: "same_ep (setNodeKeyForEpAddr (demo_relay 2) [7] (setNodeKeyForEpAddr (demo_relay 1) [7]
       (the (upsertEndpoint demo_ep [] newPeerMap)))) demo_ep" by code_simp
  show "pm_run (the (upsertEndpoint demo_ep [] newPeerMap)) [SetAddr (demo_relay 1) [7], SetAddr (demo_relay 2) [7], Delete (Some demo_ep)]
     (deleteEndpoint (Some demo_ep) (setNodeKeyForEpAddr (demo_relay 2) [7] (setNodeKeyForEpAddr (demo_relay 1) [7]
       (the (upsertEndpoint demo_ep [] newPeerMap)))))"
    using s by (intro run_set run_delete run_nil) simp
qed

theorem peermap_refines_witness:
  "\<exists>m. pm_run newPeerMap demo_ops m \<and> (peers m, owner m) = fold spec_op demo_ops ({}, \<lambda>_. None)"
  using demo_run peermap_refines [OF demo_run] by blast

text \<open>A disco key stays known after the last peer that used it is gone: \<open>deleteEndpoint\<close> empties its set and leaves the
  entry.\<close>

lemma disco_key_outlives_peer:
  "case upsertEndpoint demo_ep [] newPeerMap of None \<Rightarrow> False
   | Some m \<Rightarrow> let m' = deleteEndpoint (Some demo_ep) m in
       peers m' = {} \<and> forEachEndpointWithDiscoKey m' [9] = [] \<and> knownPeerDiscoKey m' [9]"
proof -
  obtain m where m: "upsertEndpoint demo_ep [] newPeerMap = Some m" by (simp add: upsertEndpoint_def demo_ep_def get_or_new_def newPeerMap_def)
  have "byNodeKey (deleteEndpoint (Some demo_ep) (the (upsertEndpoint demo_ep [] newPeerMap))) = []" by code_simp
  moreover have "forEachEndpointWithDiscoKey (deleteEndpoint (Some demo_ep) (the (upsertEndpoint demo_ep [] newPeerMap))) [9] = []" by code_simp
  moreover have "knownPeerDiscoKey (deleteEndpoint (Some demo_ep) (the (upsertEndpoint demo_ep [] newPeerMap))) [9]" by code_simp
  ultimately show ?thesis using m by (simp add: peers_def)
qed

end
