(* ===== verification/Spec2Isabelle.thy ===== *)
theory Spec2Isabelle
  imports Geneve CliTunnel Stun PeerMap
begin

text \<open>A verification library for \<open>tunnneji-tail\<close>, a command line tool that publishes and reaches TCP and
  UDP ports over a Tailscale network with a user-space network stack.  The program is Go; paths below
  are under \<open>src/\<close>.

  \<^bold>\<open>The program.\<close>  \<open>cmd/tunnneji-tail/cli\<close> parses the command line into groups of ports.  For each group it
  starts an engine whose netstack (\<open>wgengine/netstack\<close>) takes the packets for the node, fills the
  netstack's tables of passwords, source filters and targets, and installs a serve configuration
  (\<open>ipn/serve.go\<close>, \<open>ipn/ipnlocal/serve.go\<close>) for its server ports; its client ports listen on the loopback
  interface and carry connections and datagrams into the network.  A packet is decoded (\<open>net/packet\<close>),
  checked by the packet filter (\<open>wgengine/filter\<close>, with \<open>net/ipset\<close> and \<open>net/flowtrack\<close>) and given to
  netstack, which asks the local backend for a handler.  Peers are found by discovery and STUN messages
  (\<open>disco\<close>, \<open>net/stun\<close>) and kept in an index (\<open>wgengine/magicsock/peermap.go\<close>).

  \<^bold>\<open>The theories.\<close>  Each models the named code with its names, one definition for each function, and proves its
  properties.
    \<^item> \<open>Prelude\<close>: machine integers, errors, association lists for Go maps, byte orders, Go's \<open>strings\<close> and
      \<open>strconv\<close>.  \<open>Netip\<close>: Go's \<open>net/netip\<close>, with parsing.
    \<^item> \<open>Tsaddr\<close> (\<open>net/tsaddr\<close>, \<open>net/netaddr\<close>): the address translations round trip.  \<open>Ipset\<close> (\<open>net/ipset\<close>): every
      lookup function agrees with a scan of the prefixes; the locale \<open>prefix_table\<close> is what the linear scan
      and the address map share.
    \<^item> \<open>Flowtrack\<close> (\<open>net/flowtrack\<close>): the list and map of the LRU cache refine a list of entries in order of use; the
      locale \<open>lru\<close> is its contract.
    \<^item> \<open>Packet\<close> (decoding), \<open>Checksum\<close>, \<open>Headers\<close>, \<open>Wire\<close>, \<open>Tsmp\<close>, \<open>Geneve\<close> (writing; all \<open>net/packet\<close>): \<open>Decode\<close> stays
      inside its buffer, checksums are right, and written packets read back.
    \<^item> \<open>PacketFilter\<close> (\<open>wgengine/filter\<close>): a packet is let in exactly by a rule or as the reply to a tracked flow, and
      the translation of control-plane rules keeps their meaning.
    \<^item> \<open>Crypto\<close> (\<open>wgengine/netstack/crypto.go\<close>): encrypted streams and datagrams arrive as they were written.
    \<^item> \<open>Proxymap\<close> (\<open>proxymap\<close>), \<open>Dnsname\<close> (\<open>util/dnsname\<close>).
    \<^item> \<open>Netstack\<close> (\<open>wgengine/netstack/netstack.go\<close>): the packet hooks and forwarders.  \<open>NetstackPolicy\<close>: who is served,
      encryption, stealth and the answer to pings.  \<open>NetstackRun\<close>: the addresses registered over runs of events;
      the locale \<open>ref_counts\<close> is the contract of their counts.
    \<^item> \<open>Serve\<close> (\<open>ipn/serve.go\<close>, \<open>tailcfg\<close> service names) and \<open>ServeLocal\<close> (\<open>ipn/ipnlocal\<close>): an accepted configuration takes
      effect, and a connection finds a back end that is up.
    \<^item> \<open>CliParse\<close> and \<open>CliArgs\<close> (\<open>cli/root.go\<close>): what a command line means.  \<open>CliTunnel\<close> (\<open>cli/tunnel.go\<close>, \<open>cli/engine.go\<close>):
      configuration of a group, client connections end to end, isolation of UDP sessions as a step
      relation, and the nonce exchange of the two ends as an interleaving of their calls.
    \<^item> \<open>Disco\<close> (\<open>disco\<close>), \<open>Stun\<close> (\<open>net/stun\<close>), \<open>PeerMap\<close> (\<open>magicsock/peermap.go\<close>): codecs round trip, and the indexes of
      peers refine a function from addresses to peers.
    \<^item> This theory: a server port from the command line to the packets.

  \<^bold>\<open>Conventions.\<close>  A Go map is an association list, a pointer shared between tables a number, a Go string the list of its
  bytes; \<open>Inl\<close> is an error and \<open>None\<close> a panic or a nil.  Integers keep their width where the code can
  overflow.  Goroutines and the network are step relations.  Third-party code and the outside world
  (ChaCha20 and SHA-256, gVisor, JSON, the routing table library, name resolution, dialling, the
  random source, the clock) are arguments, with named hypotheses for what the code relies on, such as
  \<open>cipher_ok\<close> and \<open>json_ok\<close>.

  \<^bold>\<open>Bounds.\<close>  No definition runs on artificial fuel: every recursion is structural or has a termination proof (the carry loop of
  the checksum, the parsers of IPv6 addresses, endpoint lists, STUN attributes and ping output).  The
  numbers 60 and 30 of \<open>apply_serve_config\<close> and \<open>client_listens\<close> are the retry limits of the code, and its
  input is the list of what each attempt meets.

  \<^bold>\<open>Not modelled.\<close>  The choice of paths in \<open>magicsock\<close>, DERP, the control client, the engine, the device wrapper, DNS
  forwarding and the rest of the local backend are driven by sockets, timers and third-party protocols;
  HTTP serving belongs to \<open>net/http\<close>; logging, metrics and \<open>String\<close> methods are output; clone and view
  methods are generated.  Byte copying loops are represented by the streams they connect.\<close>

section \<open>From the command line to a connection\<close>

text \<open>C34: What a \<open>-S\<close> argument means, from the command line to the packets: for a server port of a parsed command line
  whose server ports are 16-bit numbers, once the netstack is configured and started and the serve
  configuration applied, a TCP connection on that port to an own address of the node, which is no VIP
  service's and on which neither the PeerAPI nor the web client has taken the port, is reset for an
  invalid client, ignored for a source the port does not accept, and otherwise handed to a forward to the port's
  target: in the clear when the port has no password, and encrypted under the port's password, or not at
  all, when it has one.  A UDP flow to the port is set up only for an accepted source, is encrypted exactly
  when there is a password, and goes to the target whenever its address can be parsed.\<close>

theorem server_port_end_to_end:
  assumes "parseTunnelArgs stat ord args = Inr gs" and "ord_ok ord" and "g \<in> set gs" and "ports_in_range (Ports g)"
    and "(k, pe) \<in> set (Ports g)" and "IsServer pe"
    and "Start (configure_netstack lookup g createUserspaceEngine) True = Some ns"
    and "json_ok js (group_serve_config g)" and "attempts_ok js bs" and "apply_serve_config js g bs = Some b"
    and "env_TCPHandlerForDst env = TCPHandlerForDst b"
    and "LocalPort r = uint16 (ListenPort pe)" and "plain_dst b (req_dst r) (LocalPort r)" and "\<not> to_service (req_dial r)"
  shows "fst (acceptTCP env ns pm r) =
      (if \<not> addr_IsValid (req_client r) then TcpReset
       else if \<not> accept_ok pe (req_client r) then TcpIgnored
       else if \<not> CreateEndpoint env then TcpReset
       else if Password pe = [] then TcpServed (forward_to pe)
       else case req_encrypt env (Password pe) of Inl _ \<Rightarrow> TcpEncryptFailed | Inr c \<Rightarrow> TcpServedEncrypted (forward_to pe) c)
    \<and> (\<forall>f pm'. forwardUDP ListenUDP ns pm client (AddrPort ip (uint16 (ListenPort pe))) = (UdpForwarding f, pm') \<longrightarrow>
         accept_ok pe (ap_Addr client) \<and> uf_password f = (if Password pe = [] then None else Some (Password pe))
         \<and> (\<forall>host. ParseAddr (resolveHost lookup (TargetAddr pe)) = Some host \<longrightarrow>
              backendRemoteAddr f = AddrPort host (uint16 (TargetPort pe))))"
proof -
  have d: "distinct (served_ports (Ports g))" by (rule parsed_ports_distinct [OF assms(1-4)])
  note c = configured_by_group [OF d assms(5-7)]
  have h: "req_handler env r = Some (forward_to pe)"
    using group_handler_served [OF assms(8-10) d assms(5,6)] assms(13) unfolding assms(11,12) .
  note u = udp_configured [OF c(1)]
  show ?thesis using accept_configured [OF c assms(12) h assms(14)] u by blast
qed


text \<open>The command line \<open>-K key -S 80:h -P pw -Ca 70:h:7\<close> on a logged-in node.\<close>

definition demo_group :: tunnel_group where
  "demo_group = hd demo_groups"

definition demo_port :: port_entry where
  "demo_port = snd (hd (Ports demo_group))"

definition tunnel_json :: json_ops where
  "tunnel_json = \<lparr> je_Marshal = (\<lambda>c. if c = group_serve_config demo_group then Some ''conf'' else None),
     je_Unmarshal = (\<lambda>j. if j = ''conf'' then Some (group_serve_config demo_group) else None), je_ETag = (\<lambda>_. Some ''etag'') \<rparr>"

definition tunnel_env :: "local_backend \<Rightarrow> (serve_handler, byte) tcp_env" where
  "tunnel_env b = \<lparr> env_TCPHandlerForDst = TCPHandlerForDst b, CreateEndpoint = True, env_Sum256 = demo_sum,
     env_cipher = demo_cipher, env_rand = Some (replicate 12 9), conn_in = [replicate 12 3],
     conn_out = \<lparr> sent = [], broken = False \<rparr>, DialTCP = (\<lambda>a. None) \<rparr>"

theorem server_port_end_to_end_witness:
  "\<exists>ns b c. Start (configure_netstack (\<lambda>_. None) demo_group createUserspaceEngine) True = Some ns
     \<and> apply_serve_config tunnel_json demo_group [(demo_backend, True)] = Some b
     \<and> fst (acceptTCP (tunnel_env b) ns [] (demo_req [100, 64, 0, 9] [100, 64, 0, 1] 80)) = TcpServedEncrypted (Forward ''h:80'' [] 0) c"
proof -
  let ?r = "demo_req [100, 64, 0, 9] [100, 64, 0, 1] 80"
  obtain ns where ns: "Start (configure_netstack (\<lambda>_. None) demo_group createUserspaceEngine) True = Some ns"
    using Start_configured by blast
  have "case apply_serve_config tunnel_json demo_group [(demo_backend, True)] of None \<Rightarrow> False
    | Some b \<Rightarrow> plain_dst b (req_dst ?r) (LocalPort ?r)" by code_simp
  then obtain b where b: "apply_serve_config tunnel_json demo_group [(demo_backend, True)] = Some b"
    "plain_dst b (req_dst ?r) (LocalPort ?r)" by (auto split: option.splits)
  have g: "demo_group \<in> set demo_groups" "(''S80'', demo_port) \<in> set (Ports demo_group)"
    by (simp_all add: demo_group_def demo_port_def demo_groups_def)
  have j: "json_ok tunnel_json (group_serve_config demo_group)" by (simp add: json_ok_def tunnel_json_def)
  have a: "attempts_ok tunnel_json [(demo_backend, True)]"
    using demo_inv by (simp add: attempts_ok_def) (simp add: demo_backend_def)
  have pre: "ports_in_range (Ports demo_group)" "IsServer demo_port" "LocalPort ?r = uint16 (ListenPort demo_port)"
    "\<not> to_service (req_dial ?r)" "addr_IsValid (req_client ?r)" "accept_ok demo_port (req_client ?r)"
    "Password demo_port = ''pw''" "forward_to demo_port = Forward ''h:80'' [] 0" by code_simp+
  have env: "env_TCPHandlerForDst (tunnel_env b) = TCPHandlerForDst b" "CreateEndpoint (tunnel_env b)" by (simp_all add: tunnel_env_def)
  let ?e = "newEncryptedTCPConn demo_sum demo_cipher (Some (replicate 12 9)) [replicate 12 3] \<lparr> sent = [], broken = False \<rparr> ''pw''"
  have "\<not> isl ?e" by code_simp
  then obtain c where "?e = Inr c" by (cases ?e) auto
  then have c: "req_encrypt (tunnel_env b) ''pw'' = Inr c" by (simp add: tunnel_env_def)
  from server_port_end_to_end [OF demo_ok demo_ord g(1) pre(1) g(2) pre(2) ns j a b(1) env(1) pre(3) b(2) pre(4), of "[]"]
  have "fst (acceptTCP (tunnel_env b) ns [] ?r) = TcpServedEncrypted (Forward ''h:80'' [] 0) c"
    using env(2) pre(5-8) c by simp
  with ns b(1) show ?thesis by blast
qed

end
